(* ===== verification/Go_Prelude.thy ===== *)
theory Go_Prelude
  imports Main "HOL-Library.Word"
begin

text \<open>
  The vocabulary every component theory shares: the outcome of a Go call, 64-bit
  \<open>uint\<close> arithmetic, slices, and the generic facts on lists and words.

  \<^item> \<open>('e, 'a) go\<close> is the outcome of a Go function: it returns a value (\<open>Ret\<close>), it
    returns a non-nil \<open>error\<close> (\<open>Err\<close>), it panics (\<open>Panic\<close>: an explicit \<open>panic(..)\<close> or
    an index or slice expression out of range), or it never returns (\<open>Diverge\<close>: a loop
    whose definition is a \<open>partial_function\<close> or runs out of fuel). \<open>gbind\<close> sequences two calls,
    and \<open>run_opt\<close> calls a loop written as a \<open>partial_function\<close>.
  \<^item> \<open>uadd\<close>, \<open>usub\<close> are \<open>+\<close> and \<open>-\<close> on Go's \<open>uint\<close> (64 bits), with the wrap-around
    written out on \<open>nat\<close>.
  \<^item> \<open>idx\<close>, \<open>upd\<close>, \<open>gslice\<close>, \<open>copy_at\<close> are \<open>xs[i]\<close>, \<open>xs[i] = v\<close>, \<open>xs[i:j]\<close> and
    \<open>copy(xs[i:], ys)\<close>, \<open>gmake n zero\<close> is \<open>make([]T, n)\<close>, and \<open>map_range f xs i k\<close> is the loop
    \<open>for j := i; j < i+k; j++ { xs[j] = f(xs[j]) }\<close>. A slice expression is taken to be in range when \<open>i <= j <= len\<close>;
    Go would also admit an upper bound between \<open>len\<close> and \<open>cap\<close>, which the modelled code
    never uses on the values its constructors build.
\<close>

named_theorems go_simps
  \<open>equations that compute the outcome of Go primitives in range\<close>

section \<open>Outcomes of Go calls\<close>

datatype (dead 'e, 'a) go = Ret 'a | Err 'e | Panic | Diverge

fun gbind :: "('e, 'a) go \<Rightarrow> ('a \<Rightarrow> ('e, 'b) go) \<Rightarrow> ('e, 'b) go" where
  "gbind (Ret x) f = f x"
| "gbind (Err e) f = Err e"
| "gbind Panic f = Panic"
| "gbind Diverge f = Diverge"

fun run_opt :: "'a option \<Rightarrow> ('e, 'a) go" where
  "run_opt (Some x) = Ret x"
| "run_opt None = Diverge"

lemma gbind_eq_Ret_iff: "gbind m f = Ret y \<longleftrightarrow> (\<exists>x. m = Ret x \<and> f x = Ret y)"
  by (cases m) auto

lemma gbind_RetE:
  assumes "gbind m f = Ret y"
  obtains x where "m = Ret x" "f x = Ret y"
  using assms by (cases m) auto

lemma gbind_assoc: "gbind (gbind m f) g = gbind m (\<lambda>x. gbind (f x) g)"
  by (cases m) auto

lemma gbind_cong [fundef_cong]:
  "m = m' \<Longrightarrow> (\<And>x. m' = Ret x \<Longrightarrow> f x = g x) \<Longrightarrow> gbind m f = gbind m' g"
  by (cases m') auto

lemma gbind_not_Panic:
  "m \<noteq> Panic \<Longrightarrow> (\<And>x. m = Ret x \<Longrightarrow> f x \<noteq> Panic) \<Longrightarrow> gbind m f \<noteq> Panic"
  by (cases m) auto

section \<open>Unsigned 64-bit arithmetic\<close>

definition uadd :: "nat \<Rightarrow> nat \<Rightarrow> nat" where
  "uadd a b = (a + b) mod 2 ^ 64"

definition usub :: "nat \<Rightarrow> nat \<Rightarrow> nat" where
  "usub a b = (a + (2 ^ 64 - b mod 2 ^ 64)) mod 2 ^ 64"

lemma uadd_small [go_simps]: "a + b < 2 ^ 64 \<Longrightarrow> uadd a b = a + b"
  by (simp add: uadd_def)

lemma usub_small [go_simps]: "b \<le> a \<Longrightarrow> a < 2 ^ 64 \<Longrightarrow> usub a b = a - b"
proof -
  assume le: "b \<le> a" and lt: "a < 2 ^ 64"
  then have "a + (2 ^ 64 - b mod 2 ^ 64) = (a - b) + 2 ^ 64" by simp
  moreover have "((a - b) + 2 ^ 64) mod 2 ^ 64 = a - b"
    using lt by (simp only: mod_add_self2) simp
  ultimately show ?thesis by (simp add: usub_def)
qed

lemma usub_underflow [go_simps]:
  "a < b \<Longrightarrow> b < 2 ^ 64 \<Longrightarrow> usub a b = 2 ^ 64 - (b - a)"
  by (simp add: usub_def)

section \<open>Slices\<close>

definition idx :: "'a list \<Rightarrow> nat \<Rightarrow> ('e, 'a) go" where
  "idx xs i = (if i < length xs then Ret (xs ! i) else Panic)"

definition upd :: "'a list \<Rightarrow> nat \<Rightarrow> 'a \<Rightarrow> ('e, 'a list) go" where
  "upd xs i v = (if i < length xs then Ret (xs[i := v]) else Panic)"

definition gslice :: "'a list \<Rightarrow> nat \<Rightarrow> nat \<Rightarrow> ('e, 'a list) go" where
  "gslice xs i j = (if i \<le> j \<and> j \<le> length xs then Ret (take (j - i) (drop i xs)) else Panic)"

definition copy_at :: "'a list \<Rightarrow> nat \<Rightarrow> 'a list \<Rightarrow> ('e, 'a list) go" where
  "copy_at d i s =
     (if i \<le> length d
      then Ret (take i d @ take (length d - i) s @ drop (i + length s) d)
      else Panic)"

definition gmake :: "nat \<Rightarrow> 'a \<Rightarrow> ('e, 'a list) go" where
  "gmake n zero = (if n < 2 ^ 63 then Ret (replicate n zero) else Panic)"

fun map_range :: "('a \<Rightarrow> 'a) \<Rightarrow> 'a list \<Rightarrow> nat \<Rightarrow> nat \<Rightarrow> ('e, 'a list) go" where
  "map_range f xs i 0 = Ret xs"
| "map_range f xs i (Suc k) = gbind (idx xs i) (\<lambda>x. map_range f (xs[i := f x]) (i + 1) k)"

lemma idx_in_range [go_simps]: "i < length xs \<Longrightarrow> idx xs i = Ret (xs ! i)"
  by (simp add: idx_def)

lemma upd_in_range [go_simps]: "i < length xs \<Longrightarrow> upd xs i v = Ret (xs[i := v])"
  by (simp add: upd_def)

lemma gslice_in_range [go_simps]:
  "i \<le> j \<Longrightarrow> j \<le> length xs \<Longrightarrow> gslice xs i j = Ret (take (j - i) (drop i xs))"
  by (simp add: gslice_def)

lemma gmake_small [go_simps]: "n < 2 ^ 63 \<Longrightarrow> gmake n zero = Ret (replicate n zero)"
  by (simp add: gmake_def)

lemma map_range_eq [go_simps]:
  "i + k \<le> length xs \<Longrightarrow>
   (map_range f xs i k :: ('e, 'a list) go)
   = Ret (take i xs @ map f (take k (drop i xs)) @ drop (i + k) xs)"
proof (induction k arbitrary: i xs)
  case 0
  then show ?case by simp
next
  case (Suc k)
  then have i: "i < length xs" by simp
  let ?ys = "xs[i := f (xs ! i)]"
  have "(map_range f ?ys (i + 1) k :: ('e, 'a list) go)
      = Ret (take (i + 1) ?ys @ map f (take k (drop (i + 1) ?ys)) @ drop (i + 1 + k) ?ys)"
    using Suc.prems by (intro Suc.IH) simp
  moreover have "take (i + 1) ?ys = take i xs @ [f (xs ! i)]"
    using i by (simp add: take_Suc_conv_app_nth)
  moreover have "map f (take (Suc k) (drop i xs)) = f (xs ! i) # map f (take k (drop (i + 1) xs))"
    using i by (simp flip: Cons_nth_drop_Suc)
  ultimately show ?case using i by (simp add: idx_def)
qed

lemma copy_at_length: "copy_at d i s = Ret r \<Longrightarrow> length r = length d"
  by (auto simp: copy_at_def split: if_splits)

lemma copy_at_append:
  assumes "length d = length p + length s + length q"
    and "take (length p) d = p" and "drop (length p + length s) d = q"
  shows "copy_at d (length p) s = Ret (p @ s @ q)"
  using assms by (simp add: copy_at_def)

lemma idx_append_left [simp]: "i < length xs \<Longrightarrow> idx (xs @ ys) i = idx xs i"
  by (simp add: idx_def nth_append)

lemma idx_append_right [simp]: "idx (xs @ ys) (length xs) = idx ys 0"
  by (simp add: idx_def nth_append)

lemma idx_Cons_0 [simp]: "idx (x # xs) 0 = Ret x"
  by (simp add: idx_def)

lemma idx_Cons_Suc [simp]: "idx (x # xs) (Suc i) = idx xs i"
  by (simp add: idx_def)

lemma idx_beyond [simp]: "length xs \<le> i \<Longrightarrow> idx xs i = Panic"
  by (simp add: idx_def)

section \<open>Bytes\<close>

type_synonym byte = "8 word"
type_synonym u16 = "16 word"
type_synonym u32 = "32 word"

lemma unat_byte_less: "unat (b :: byte) < 256"
  using unsigned_less [of b] by simp

lemma unat_word_of_nat_byte [simp]: "n < 256 \<Longrightarrow> unat (word_of_nat n :: byte) = n"
  by (simp add: unat_of_nat take_bit_eq_mod)

lemma word_of_nat_byte_eq_iff:
  "m < 256 \<Longrightarrow> n < 256 \<Longrightarrow> (word_of_nat m :: byte) = word_of_nat n \<longleftrightarrow> m = n"
  by (metis unat_word_of_nat_byte)

lemma word_of_nat_byte_eq_0_iff [simp]:
  "n < 256 \<Longrightarrow> (word_of_nat n :: byte) = 0 \<longleftrightarrow> n = 0"
  using word_of_nat_byte_eq_iff [of n 0] by simp

lemma word_of_nat_diff_byte:
  "n \<le> m \<Longrightarrow> (word_of_nat m :: byte) - word_of_nat n = word_of_nat (m - n)"
  by simp

lemma drop_plus: "drop (p + k) xs = drop k (drop p xs)"
  by (simp add: add.commute)

lemma unat_word_of_nat_u16 [simp]: "n < 65536 \<Longrightarrow> unat (word_of_nat n :: u16) = n"
  by (simp add: unat_of_nat take_bit_nat_eq_self)

lemma unat_Suc_u16: "Suc n < 65536 \<Longrightarrow> unat (word_of_nat n + 1 :: u16) = Suc n"
  using unat_word_of_nat_u16 [of "Suc n"] by (simp add: add.commute)

lemma unat_u16_less: "unat (w :: u16) < 65536"
  using unsigned_less [of w] by simp

lemma unat_u16_eqD: "unat (w :: u16) = k \<Longrightarrow> w = word_of_nat k"
  using unat_u16_less [of w] by (simp add: word_unat_eq_iff)

lemma unat_ucast_byte [simp]: "unat (ucast (b :: byte) :: u16) = unat b"
  using unat_byte_less [of b] by (simp add: unsigned_ucast_eq take_bit_nat_eq_self)

lemma unat_sub_u16: "k \<le> unat (ll :: u16) \<Longrightarrow> unat (ll - word_of_nat k) = unat ll - k"
  using unat_u16_less [of ll] unat_sub [of "word_of_nat k" ll] by (simp add: word_le_nat_alt)

end
