(* ===== verification/Buffer.thy ===== *)
theory Buffer
  imports Go_Prelude
begin

unbundle bit_operations_syntax

text \<open>
  \<open>src/g53/util/buffer.go\<close>: the cursor the wire decoders read from (\<open>InputBuffer\<close>) and the
  growing byte slice the encoders write to (\<open>OutputBuffer\<close>), the errors of the \<open>g53\<close>
  packages, and the contract of a wire codec as a locale that the integer reads and writes
  of this theory, and the name and record codecs of later ones, implement.
\<close>

section \<open>Errors of the g53 packages\<close>

text \<open>One constructor per error value or \<open>errors.New\<close> text of the modelled functions.\<close>

datatype g53_error =
    ReadBeyondEnd | BufferOverflow | OutOfRange | TrimTooLarge | WriteInvalidPos
  | NonTerminatingEmptyLabel | DuplicatePeriod | TooLongLabel | InvalidLabelType
  | MixedEscape | EscapeTooLarge | TooLongName | IncompleteText
  | UnknownLabelCharacter | BadCompressionPointer | IncompleteWire
  | ConcatTooLong | ConcatTooManyLabels | SplitRangeInvalid | StripTooMany
  | HeaderTooShort | DataIsTooShort | StringIsTooLong | ExtraData | UnimplementedType
  | DuplicateRdata | Nsec3TypesInvalid | UnknownFamily | EdnsNotOpt
  | Base64Corrupt | NoSuchAlgorithm | ErrSig | ErrTime

section \<open>InputBuffer\<close>

record InputBuffer =
  pos :: nat
  data :: "byte list"
  datalen :: nat

definition NewInputBuffer :: "byte list \<Rightarrow> InputBuffer" where
  "NewInputBuffer bytes = \<lparr>pos = 0, data = bytes, datalen = length bytes\<rparr>"

definition SetPosition :: "InputBuffer \<Rightarrow> nat \<Rightarrow> (g53_error, InputBuffer) go" where
  "SetPosition buf p = (if p > datalen buf then Err BufferOverflow else Ret (buf\<lparr>pos := p\<rparr>))"

definition ReadUint8 :: "InputBuffer \<Rightarrow> (g53_error, byte \<times> InputBuffer) go" where
  "ReadUint8 buf =
     (if uadd (pos buf) 1 > datalen buf then Err ReadBeyondEnd
      else gbind (idx (data buf) (pos buf)) (\<lambda>b.
        Ret (b, buf\<lparr>pos := uadd (pos buf) 1\<rparr>)))"

definition ReadUint16 :: "InputBuffer \<Rightarrow> (g53_error, u16 \<times> InputBuffer) go" where
  "ReadUint16 buf =
     (if uadd (pos buf) 2 > datalen buf then Err ReadBeyondEnd
      else let p = pos buf in
        gbind (idx (data buf) p) (\<lambda>b0.
        gbind (idx (data buf) (uadd p 1)) (\<lambda>b1.
        Ret (push_bit 8 (ucast b0) OR ucast b1, buf\<lparr>pos := uadd p 2\<rparr>))))"

definition ReadUint32 :: "InputBuffer \<Rightarrow> (g53_error, u32 \<times> InputBuffer) go" where
  "ReadUint32 buf =
     (if uadd (pos buf) 4 > datalen buf then Err ReadBeyondEnd
      else let p = pos buf in
        gbind (idx (data buf) p) (\<lambda>b0.
        gbind (idx (data buf) (uadd p 1)) (\<lambda>b1.
        gbind (idx (data buf) (uadd p 2)) (\<lambda>b2.
        gbind (idx (data buf) (uadd p 3)) (\<lambda>b3.
        Ret (push_bit 24 (ucast b0) OR push_bit 16 (ucast b1) OR push_bit 8 (ucast b2) OR ucast b3,
             buf\<lparr>pos := uadd p 4\<rparr>))))))"

definition ReadBytes :: "InputBuffer \<Rightarrow> nat \<Rightarrow> (g53_error, byte list \<times> InputBuffer) go" where
  "ReadBytes buf len =
     (if uadd (pos buf) len > datalen buf then Err ReadBeyondEnd
      else let p = pos buf in
        gbind (gslice (data buf) p (uadd p len)) (\<lambda>d.
        Ret (d, buf\<lparr>pos := uadd p len\<rparr>)))"

text \<open>
  A call whose error result is dropped, \<open>b, _ := buf.ReadUint8()\<close>: on an error the value is
  the zero value and the cursor stays.
\<close>

definition drop_err :: "'a \<Rightarrow> 'b \<Rightarrow> ('e, 'a \<times> 'b) go \<Rightarrow> ('e, 'a \<times> 'b) go" where
  "drop_err z b r = (case r of Err _ \<Rightarrow> Ret (z, b) | _ \<Rightarrow> r)"

section \<open>OutputBuffer\<close>

text \<open>
  The slice's contents and its capacity. \<open>append\<close> keeps the capacity while it suffices; how
  far Go over-allocates when it does not is left to the runtime, and the model takes the
  least capacity that fits. Only \<open>Skip\<close> looks at the capacity, and its result does not
  depend on it.
\<close>

record OutputBuffer =
  odata :: "byte list"
  ocap :: nat

definition NewOutputBuffer :: "nat \<Rightarrow> OutputBuffer" where
  "NewOutputBuffer len = \<lparr>odata = [], ocap = len\<rparr>"

definition append_data :: "OutputBuffer \<Rightarrow> byte list \<Rightarrow> OutputBuffer" where
  "append_data out xs =
     out\<lparr>odata := odata out @ xs, ocap := max (ocap out) (length (odata out @ xs))\<rparr>"

definition Out_At :: "OutputBuffer \<Rightarrow> nat \<Rightarrow> (g53_error, byte) go" where
  "Out_At out p = (if p < length (odata out) then Ret (odata out ! p) else Err OutOfRange)"

function double_cap :: "nat \<Rightarrow> nat \<Rightarrow> nat" where
  "double_cap c len = (if 0 < c \<and> c < len then double_cap (c * 2) len else c)"
  by pat_completeness auto
termination by (relation "measure (\<lambda>(c, len). len - c)") auto

declare double_cap.simps [simp del]

definition ensureSpace :: "OutputBuffer \<Rightarrow> nat \<Rightarrow> OutputBuffer" where
  "ensureSpace out len =
     (let c = ocap out in
      if c < len then
        let c = (if c = 0 then 1024 else c);
            c = double_cap c len
        in out\<lparr>odata := take len (odata out) @ replicate (len - length (odata out)) 0, ocap := c\<rparr>
      else out)"

fun append_zeros :: "nat \<Rightarrow> OutputBuffer \<Rightarrow> OutputBuffer" where
  "append_zeros 0 out = out"
| "append_zeros (Suc n) out = append_zeros n (append_data out [0])"

definition Out_Skip :: "OutputBuffer \<Rightarrow> nat \<Rightarrow> OutputBuffer" where
  "Out_Skip out len =
     (let l = uadd (length (odata out)) len;
          out = ensureSpace out l
      in append_zeros (l - length (odata out)) out)"

definition Out_Trim :: "OutputBuffer \<Rightarrow> nat \<Rightarrow> (g53_error, OutputBuffer) go" where
  "Out_Trim out len =
     (if len > length (odata out) then Err TrimTooLarge
      else Ret (out\<lparr>odata := take (length (odata out) - len) (odata out)\<rparr>))"

definition Out_Clear :: "OutputBuffer \<Rightarrow> OutputBuffer" where
  "Out_Clear out = out\<lparr>odata := []\<rparr>"

definition WriteUint8 :: "OutputBuffer \<Rightarrow> byte \<Rightarrow> OutputBuffer" where
  "WriteUint8 out d = append_data out [d]"

definition WriteUint8At :: "OutputBuffer \<Rightarrow> byte \<Rightarrow> nat \<Rightarrow> (g53_error, OutputBuffer) go" where
  "WriteUint8At out d p =
     (if uadd p 1 > length (odata out) then Err WriteInvalidPos
      else gbind (upd (odata out) p d) (\<lambda>xs. Ret (out\<lparr>odata := xs\<rparr>)))"

definition WriteUint16 :: "OutputBuffer \<Rightarrow> u16 \<Rightarrow> OutputBuffer" where
  "WriteUint16 out d =
     append_data out [ucast (drop_bit 8 (d AND 0xff00)), ucast (d AND 0x00ff)]"

definition WriteUint16At :: "OutputBuffer \<Rightarrow> u16 \<Rightarrow> nat \<Rightarrow> (g53_error, OutputBuffer) go" where
  "WriteUint16At out d p =
     (if uadd p 2 > length (odata out) then Err WriteInvalidPos
      else gbind (upd (odata out) p (ucast (drop_bit 8 (d AND 0xff00)))) (\<lambda>xs.
           gbind (upd xs (uadd p 1) (ucast (d AND 0x00ff))) (\<lambda>xs.
           Ret (out\<lparr>odata := xs\<rparr>))))"

definition WriteUint32 :: "OutputBuffer \<Rightarrow> u32 \<Rightarrow> OutputBuffer" where
  "WriteUint32 out d =
     append_data out
       [ucast (drop_bit 24 (d AND 0xff000000)), ucast (drop_bit 16 (d AND 0x00ff0000)),
        ucast (drop_bit 8 (d AND 0x0000ff00)), ucast (d AND 0x000000ff)]"

definition WriteData :: "OutputBuffer \<Rightarrow> byte list \<Rightarrow> OutputBuffer" where
  "WriteData out xs = append_data out xs"

section \<open>The bytes of an integer\<close>

definition be16 :: "u16 \<Rightarrow> byte list" where
  "be16 d = [ucast (drop_bit 8 d), ucast d]"

definition be32 :: "u32 \<Rightarrow> byte list" where
  "be32 d = [ucast (drop_bit 24 d), ucast (drop_bit 16 d), ucast (drop_bit 8 d), ucast d]"

lemma length_be16 [simp]: "length (be16 d) = 2"
  by (simp add: be16_def)

lemma length_be32 [simp]: "length (be32 d) = 4"
  by (simp add: be32_def)

lemma u16_split: "push_bit 8 (ucast (ucast (drop_bit 8 d) :: byte)) OR ucast (ucast d :: byte) = (d :: u16)"
  by (rule bit_word_eqI) (auto simp: bit_simps)

lemma u32_split:
  "push_bit 24 (ucast (ucast (drop_bit 24 d) :: byte)) OR push_bit 16 (ucast (ucast (drop_bit 16 d) :: byte))
   OR push_bit 8 (ucast (ucast (drop_bit 8 d) :: byte)) OR ucast (ucast d :: byte) = (d :: u32)"
proof (rule bit_word_eqI)
  fix n :: nat
  consider "n < 8" | "8 \<le> n" "n < 16" | "16 \<le> n" "n < 24" | "24 \<le> n" by linarith
  then show "bit (push_bit 24 (ucast (ucast (drop_bit 24 d) :: byte)) OR push_bit 16 (ucast (ucast (drop_bit 16 d) :: byte))
    OR push_bit 8 (ucast (ucast (drop_bit 8 d) :: byte)) OR ucast (ucast d :: byte) :: u32) n = bit d n"
    if "n < LENGTH(32)"
    using that by cases (auto simp: bit_simps)
qed

lemma byte_masks:
  "(0xff00 :: u16) = push_bit 8 (mask 8)" "(0x00ff :: u16) = mask 8"
  "(0xff000000 :: u32) = push_bit 24 (mask 8)" "(0x00ff0000 :: u32) = push_bit 16 (mask 8)"
  "(0x0000ff00 :: u32) = push_bit 8 (mask 8)" "(0x000000ff :: u32) = mask 8"
  by (simp_all add: mask_eq_exp_minus_1 push_bit_eq_mult)

lemma masked_bytes16:
  "ucast (drop_bit 8 (d AND 0xff00)) = (ucast (drop_bit 8 d) :: byte)"
  "ucast (d AND 0x00ff) = (ucast d :: byte)" for d :: u16
  unfolding byte_masks by (rule bit_word_eqI, auto simp: bit_simps)+

lemma masked_bytes32:
  "ucast (drop_bit 24 (d AND 0xff000000)) = (ucast (drop_bit 24 d) :: byte)"
  "ucast (drop_bit 16 (d AND 0x00ff0000)) = (ucast (drop_bit 16 d) :: byte)"
  "ucast (drop_bit 8 (d AND 0x0000ff00)) = (ucast (drop_bit 8 d) :: byte)"
  "ucast (d AND 0x000000ff) = (ucast d :: byte)" for d :: u32
  unfolding byte_masks by (rule bit_word_eqI, auto simp: bit_simps)+

lemma WriteUint16_eq: "WriteUint16 out d = append_data out (be16 d)"
  by (simp only: WriteUint16_def be16_def masked_bytes16)

lemma WriteUint32_eq: "WriteUint32 out d = append_data out (be32 d)"
  by (simp only: WriteUint32_def be32_def masked_bytes32)

lemma odata_append_data [simp]: "odata (append_data out xs) = odata out @ xs"
  by (simp add: append_data_def)

lemma odata_WriteUint8 [simp]: "odata (WriteUint8 out d) = odata out @ [d]"
  by (simp add: WriteUint8_def)

lemma odata_WriteUint16 [simp]: "odata (WriteUint16 out d) = odata out @ be16 d"
  by (simp add: WriteUint16_eq)

lemma odata_WriteUint32 [simp]: "odata (WriteUint32 out d) = odata out @ be32 d"
  by (simp add: WriteUint32_eq)

lemma odata_WriteData [simp]: "odata (WriteData out xs) = odata out @ xs"
  by (simp add: WriteData_def)

lemma odata_append_zeros: "odata (append_zeros n out) = odata out @ replicate n 0"
  by (induction n out rule: append_zeros.induct) (simp_all add: replicate_app_Cons_same)

text \<open>\<open>Skip\<close> appends zeros, whatever the capacity was.\<close>

lemma odata_Out_Skip:
  assumes "length (odata out) + len < 2 ^ 64"
  shows "odata (Out_Skip out len) = odata out @ replicate len 0"
  using assms by (simp add: Out_Skip_def uadd_small ensureSpace_def Let_def odata_append_zeros)

lemma double_cap_ge: "0 < c \<Longrightarrow> len \<le> double_cap c len"
proof (induction c len rule: double_cap.induct)
  case (1 c len)
  then show ?case by (cases "c < len") (simp_all add: double_cap.simps [of c len])
qed

lemma WriteUint16At_mid:
  assumes "length xs + 2 + length ys < 2 ^ 64" "length old = 2" "odata out = xs @ old @ ys"
  shows "\<exists>out'. WriteUint16At out d (length xs) = Ret out' \<and> odata out' = xs @ be16 d @ ys"
proof -
  obtain a b where old: "old = [a, b]"
    using assms(2) by (cases old; cases "tl old") auto
  show ?thesis
    using assms(1,3) unfolding old
    by (simp add: WriteUint16At_def uadd_small upd_def be16_def list_update_append masked_bytes16 [simplified])
qed

section \<open>A cursor inside a byte string\<close>

text \<open>
  \<open>input pre rest\<close>: a buffer over the bytes \<open>pre @ rest\<close> whose cursor stands between the two.
  \<open>input_ok\<close> bounds the total length by Go's \<open>int\<close> (slice lengths are at most \<open>2 ^ 63 - 1\<close>).
\<close>

definition input :: "byte list \<Rightarrow> byte list \<Rightarrow> InputBuffer" where
  "input pre rest = \<lparr>pos = length pre, data = pre @ rest, datalen = length pre + length rest\<rparr>"

definition input_ok :: "byte list \<Rightarrow> byte list \<Rightarrow> bool" where
  "input_ok pre rest \<longleftrightarrow> length pre + length rest < 2 ^ 63"

lemma input_simps [simp]:
  "pos (input pre rest) = length pre" "data (input pre rest) = pre @ rest"
  "datalen (input pre rest) = length pre + length rest"
  by (simp_all add: input_def)

lemma input_move: "(input pre (xs @ rest))\<lparr>pos := length pre + length xs\<rparr> = input (pre @ xs) rest"
  by (simp add: input_def)

lemma input_ok_move [simp]: "input_ok (pre @ xs) rest \<longleftrightarrow> input_ok pre (xs @ rest)"
  by (simp add: input_ok_def add.assoc)

lemma NewInputBuffer_input: "NewInputBuffer bytes = input [] bytes"
  by (simp add: NewInputBuffer_def input_def)

lemma ReadUint8_input:
  assumes "input_ok pre (b # rest)"
  shows "ReadUint8 (input pre (b # rest)) = Ret (b, input (pre @ [b]) rest)"
  using assms input_move [of pre "[b]" rest]
  by (simp add: ReadUint8_def input_ok_def uadd_small idx_def)

lemma ReadUint16_input:
  assumes "input_ok pre (be16 d @ rest)"
  shows "ReadUint16 (input pre (be16 d @ rest)) = Ret (d, input (pre @ be16 d) rest)"
  using assms input_move [of pre "be16 d" rest] u16_split [of d]
  by (simp add: ReadUint16_def input_ok_def uadd_small idx_def nth_append) (simp add: be16_def)

lemma ReadUint32_input:
  assumes "input_ok pre (be32 d @ rest)"
  shows "ReadUint32 (input pre (be32 d @ rest)) = Ret (d, input (pre @ be32 d) rest)"
  using assms input_move [of pre "be32 d" rest] u32_split [of d]
  by (simp add: ReadUint32_def input_ok_def uadd_small idx_def nth_append) (simp add: be32_def)

lemma ReadBytes_input:
  assumes "input_ok pre (xs @ rest)"
  shows "ReadBytes (input pre (xs @ rest)) (length xs) = Ret (xs, input (pre @ xs) rest)"
  using assms input_move [of pre xs rest]
  by (simp add: ReadBytes_def input_ok_def uadd_small gslice_def)

lemma ReadUint16_short:
  assumes "input_ok pre rest" "length rest < 2"
  shows "ReadUint16 (input pre rest) = Err ReadBeyondEnd"
  using assms by (simp add: ReadUint16_def input_ok_def uadd_small)

section \<open>The contract of a wire codec\<close>

text \<open>
  What every decoder of the wire format promises of the encoder it is paired with: started
  in front of the encoding of a value it accepts, it returns that value and leaves the cursor
  right behind it, whatever surrounds the encoding.
\<close>

locale wire_codec =
  fixes enc :: "'a \<Rightarrow> byte list"
    and dec :: "InputBuffer \<Rightarrow> (g53_error, 'a \<times> InputBuffer) go"
    and ok :: "'a \<Rightarrow> bool"
  assumes dec_enc:
    "ok x \<Longrightarrow> input_ok pre (enc x @ post) \<Longrightarrow>
     dec (input pre (enc x @ post)) = Ret (x, input (pre @ enc x) post)"
begin

lemma dec_then:
  assumes "ok x" "input_ok pre (enc x @ post)"
  shows "gbind (dec (input pre (enc x @ post))) f = f (x, input (pre @ enc x) post)"
  using assms by (simp add: dec_enc)

lemma enc_inj:
  assumes "ok x" "ok y" "enc x @ s = enc y @ t" "length (enc x @ s) < 2 ^ 63"
  shows "x = y \<and> s = t"
proof -
  have "dec (input [] (enc x @ s)) = Ret (x, input (enc x) s)"
    using dec_enc [of x "[]" s] assms by (simp add: input_ok_def)
  moreover have "dec (input [] (enc y @ t)) = Ret (y, input (enc y) t)"
    using dec_enc [of y "[]" t] assms by (simp add: input_ok_def)
  ultimately show ?thesis using assms(3) by simp
qed

end

text \<open>Two codecs one after the other, as the composite decoders call them.\<close>

locale wire_codec_pair = a: wire_codec enc_a dec_a ok_a + b: wire_codec enc_b dec_b ok_b
  for enc_a :: "'a \<Rightarrow> byte list" and dec_a ok_a
    and enc_b :: "'b \<Rightarrow> byte list" and dec_b ok_b
begin

lemma dec_pair:
  assumes "ok_a x" "ok_b y" "input_ok pre (enc_a x @ enc_b y @ post)"
  shows "gbind (dec_a (input pre (enc_a x @ enc_b y @ post))) (\<lambda>(x, buf).
         gbind (dec_b buf) (\<lambda>(y, buf). f x y buf)) = f x y (input (pre @ enc_a x @ enc_b y) post)"
  using assms a.dec_enc [of x pre "enc_b y @ post"] b.dec_enc [of y "pre @ enc_a x" post]
  by simp

end

interpretation u8: wire_codec "\<lambda>b. [b]" ReadUint8 "\<lambda>_. True"
  by unfold_locales (simp add: ReadUint8_input)

interpretation u16: wire_codec be16 ReadUint16 "\<lambda>_. True"
  by unfold_locales (simp add: ReadUint16_input)

interpretation u32: wire_codec be32 ReadUint32 "\<lambda>_. True"
  by unfold_locales (simp add: ReadUint32_input)

interpretation octets: wire_codec "\<lambda>xs. xs" "\<lambda>buf. ReadBytes buf n" "\<lambda>xs. length xs = n" for n
  by unfold_locales (auto simp: ReadBytes_input)

interpretation u16_u16: wire_codec_pair be16 ReadUint16 "\<lambda>_. True" be16 ReadUint16 "\<lambda>_. True"
  by unfold_locales

end
