(* ===== verification/Name.thy ===== *)
theory Name
  imports Buffer "HOL-Library.List_Lexorder"
begin

text \<open>
  \<open>src/g53/name.go\<close> and \<open>src/g53/name_ref.go\<close>: domain names in wire form, with the comparison,
  the structural operations (\<open>Concat\<close>, \<open>Split\<close>, \<open>StripLeft\<close>, \dots) and the hash. The text and wire
  parsers of the same file are in \<open>Name_Text\<close> and \<open>Name_Wire\<close>.

  A \<open>Name\<close> is kept as the code keeps it: the raw wire bytes, the offset of every label, and the
  two cached counts. The abstract view is the list of its labels without the root; \<open>name_of\<close>
  builds the representation of a label list, \<open>labels\<close> reads it back, and \<open>wf_name\<close> (executable)
  says that a record is the representation of a list of non-empty labels of at most 63 bytes
  whose wire form has at most 255. Every operation is shown to act on the labels as its name
  says, and not to panic.
\<close>

section \<open>Constants and tables\<close>

abbreviation MAX_WIRE :: nat where "MAX_WIRE \<equiv> 255"
abbreviation MAX_LABELS :: nat where "MAX_LABELS \<equiv> 128"
abbreviation MAX_LABEL_LEN :: nat where "MAX_LABEL_LEN \<equiv> 63"

datatype NameRelation = SUPERDOMAIN | SUBDOMAIN | EQUAL | COMMONANCESTOR | NONE

definition maptolower_table :: "byte list" where
  "maptolower_table =
    [0x00, 0x01, 0x02, 0x03, 0x04, 0x05, 0x06, 0x07, 0x08, 0x09, 0x0a, 0x0b, 0x0c, 0x0d, 0x0e, 0x0f,
     0x10, 0x11, 0x12, 0x13, 0x14, 0x15, 0x16, 0x17, 0x18, 0x19, 0x1a, 0x1b, 0x1c, 0x1d, 0x1e, 0x1f,
     0x20, 0x21, 0x22, 0x23, 0x24, 0x25, 0x26, 0x27, 0x28, 0x29, 0x2a, 0x2b, 0x2c, 0x2d, 0x2e, 0x2f,
     0x30, 0x31, 0x32, 0x33, 0x34, 0x35, 0x36, 0x37, 0x38, 0x39, 0x3a, 0x3b, 0x3c, 0x3d, 0x3e, 0x3f,
     0x40, 0x61, 0x62, 0x63, 0x64, 0x65, 0x66, 0x67, 0x68, 0x69, 0x6a, 0x6b, 0x6c, 0x6d, 0x6e, 0x6f,
     0x70, 0x71, 0x72, 0x73, 0x74, 0x75, 0x76, 0x77, 0x78, 0x79, 0x7a, 0x5b, 0x5c, 0x5d, 0x5e, 0x5f,
     0x60, 0x61, 0x62, 0x63, 0x64, 0x65, 0x66, 0x67, 0x68, 0x69, 0x6a, 0x6b, 0x6c, 0x6d, 0x6e, 0x6f,
     0x70, 0x71, 0x72, 0x73, 0x74, 0x75, 0x76, 0x77, 0x78, 0x79, 0x7a, 0x7b, 0x7c, 0x7d, 0x7e, 0x7f,
     0x80, 0x81, 0x82, 0x83, 0x84, 0x85, 0x86, 0x87, 0x88, 0x89, 0x8a, 0x8b, 0x8c, 0x8d, 0x8e, 0x8f,
     0x90, 0x91, 0x92, 0x93, 0x94, 0x95, 0x96, 0x97, 0x98, 0x99, 0x9a, 0x9b, 0x9c, 0x9d, 0x9e, 0x9f,
     0xa0, 0xa1, 0xa2, 0xa3, 0xa4, 0xa5, 0xa6, 0xa7, 0xa8, 0xa9, 0xaa, 0xab, 0xac, 0xad, 0xae, 0xaf,
     0xb0, 0xb1, 0xb2, 0xb3, 0xb4, 0xb5, 0xb6, 0xb7, 0xb8, 0xb9, 0xba, 0xbb, 0xbc, 0xbd, 0xbe, 0xbf,
     0xc0, 0xc1, 0xc2, 0xc3, 0xc4, 0xc5, 0xc6, 0xc7, 0xc8, 0xc9, 0xca, 0xcb, 0xcc, 0xcd, 0xce, 0xcf,
     0xd0, 0xd1, 0xd2, 0xd3, 0xd4, 0xd5, 0xd6, 0xd7, 0xd8, 0xd9, 0xda, 0xdb, 0xdc, 0xdd, 0xde, 0xdf,
     0xe0, 0xe1, 0xe2, 0xe3, 0xe4, 0xe5, 0xe6, 0xe7, 0xe8, 0xe9, 0xea, 0xeb, 0xec, 0xed, 0xee, 0xef,
     0xf0, 0xf1, 0xf2, 0xf3, 0xf4, 0xf5, 0xf6, 0xf7, 0xf8, 0xf9, 0xfa, 0xfb, 0xfc, 0xfd, 0xfe, 0xff]"

definition maptolower :: "byte \<Rightarrow> byte" where
  "maptolower c = maptolower_table ! unat c"

section \<open>The record and its operations\<close>

record NameComparisonResult =
  Order :: int
  CommonLabelCount :: nat
  Relation :: NameRelation

record Name =
  raw :: "byte list"
  offsets :: "byte list"
  name_length :: nat
  labelCount :: nat

definition Root :: Name where
  "Root = \<lparr>raw = [0], offsets = [0], name_length = 1, labelCount = 1\<rparr>"

definition IsRoot :: "Name \<Rightarrow> bool" where
  "IsRoot name = (labelCount name = 1)"

text \<open>
  \<open>Compare\<close>: the inner loop over the bytes of one label (\<open>Some d\<close> when a difference \<open>d\<close> ends the
  comparison), then the loop over the labels from the root inwards.
\<close>

fun compare_chars ::
  "bool \<Rightarrow> byte list \<Rightarrow> byte list \<Rightarrow> byte \<Rightarrow> byte \<Rightarrow> nat \<Rightarrow> (g53_error, int option) go" where
  "compare_chars caseSensitive r1 r2 ps1 ps2 0 = Ret None"
| "compare_chars caseSensitive r1 r2 ps1 ps2 (Suc mincount) =
     gbind (idx r1 (unat ps1)) (\<lambda>label1.
     gbind (idx r2 (unat ps2)) (\<lambda>label2.
       let chdiff = (if caseSensitive then int (unat label1) - int (unat label2)
                     else int (unat (maptolower label1)) - int (unat (maptolower label2)))
       in if chdiff \<noteq> 0 then Ret (Some chdiff)
          else compare_chars caseSensitive r1 r2 (ps1 + 1) (ps2 + 1) mincount))"

fun compare_labels ::
  "Name \<Rightarrow> Name \<Rightarrow> bool \<Rightarrow> int \<Rightarrow> nat \<Rightarrow> nat \<Rightarrow> nat \<Rightarrow> nat
   \<Rightarrow> (g53_error, NameComparisonResult) go" where
  "compare_labels n1 n2 caseSensitive ldiff 0 l1 l2 nlabels =
     Ret \<lparr>Order = ldiff, CommonLabelCount = nlabels,
          Relation = (if ldiff < 0 then SUPERDOMAIN else if ldiff > 0 then SUBDOMAIN else EQUAL)\<rparr>"
| "compare_labels n1 n2 caseSensitive ldiff (Suc minl) l1 l2 nlabels =
     (let l1 = usub l1 1; l2 = usub l2 1 in
      gbind (idx (offsets n1) l1) (\<lambda>ps1.
      gbind (idx (offsets n2) l2) (\<lambda>ps2.
      gbind (idx (raw n1) (unat ps1)) (\<lambda>c1.
      gbind (idx (raw n2) (unat ps2)) (\<lambda>c2.
        let cdiff = int (unat c1) - int (unat c2);
            mincount = min (unat c1) (unat c2)
        in gbind (compare_chars caseSensitive (raw n1) (raw n2) (ps1 + 1) (ps2 + 1) mincount) (\<lambda>r.
           case r of
             Some chdiff \<Rightarrow>
               Ret \<lparr>Order = chdiff, CommonLabelCount = nlabels, Relation = COMMONANCESTOR\<rparr>
           | None \<Rightarrow>
               if cdiff \<noteq> 0 then
                 Ret \<lparr>Order = cdiff, CommonLabelCount = nlabels,
                      Relation = (if nlabels = 0 then NONE else COMMONANCESTOR)\<rparr>
               else compare_labels n1 n2 caseSensitive ldiff minl l1 l2 (nlabels + 1)))))))"

definition Compare :: "Name \<Rightarrow> Name \<Rightarrow> bool \<Rightarrow> (g53_error, NameComparisonResult) go" where
  "Compare n1 n2 caseSensitive =
     (let l1 = labelCount n1; l2 = labelCount n2; ldiff = int l1 - int l2 in
      compare_labels n1 n2 caseSensitive ldiff (min l1 l2) l1 l2 0)"

definition CaseSensitiveEquals :: "Name \<Rightarrow> Name \<Rightarrow> bool" where
  "CaseSensitiveEquals n1 n2 =
     (if name_length n1 \<noteq> name_length n2 \<or> labelCount n1 \<noteq> labelCount n2 then False
      else raw n1 = raw n2)"

fun equal_chars :: "byte list \<Rightarrow> byte list \<Rightarrow> nat \<Rightarrow> nat \<Rightarrow> (g53_error, bool) go" where
  "equal_chars r1 r2 p 0 = Ret True"
| "equal_chars r1 r2 p (Suc count) =
     gbind (idx r1 p) (\<lambda>a.
     gbind (idx r2 p) (\<lambda>b.
       if maptolower a \<noteq> maptolower b then Ret False else equal_chars r1 r2 (p + 1) count))"

fun equal_labels :: "byte list \<Rightarrow> byte list \<Rightarrow> nat \<Rightarrow> nat \<Rightarrow> (g53_error, bool) go" where
  "equal_labels r1 r2 p 0 = Ret True"
| "equal_labels r1 r2 p (Suc l) =
     gbind (idx r1 p) (\<lambda>count.
     gbind (idx r2 p) (\<lambda>count2.
       if count \<noteq> count2 then Ret False
       else gbind (equal_chars r1 r2 (p + 1) (unat count)) (\<lambda>same.
         if \<not> same then Ret False else equal_labels r1 r2 (p + 1 + unat count) l)))"

definition Equals :: "Name \<Rightarrow> Name \<Rightarrow> (g53_error, bool) go" where
  "Equals n1 n2 =
     (if name_length n1 \<noteq> name_length n2 \<or> labelCount n1 \<noteq> labelCount n2 then Ret False
      else equal_labels (raw n1) (raw n2) 0 (labelCount n1))"

definition IsWildCard :: "Name \<Rightarrow> (g53_error, bool) go" where
  "IsWildCard name =
     (if name_length name \<ge> 2
      then gbind (idx (raw name) 0) (\<lambda>a.
           if a = 1 then gbind (idx (raw name) 1) (\<lambda>b. Ret (b = 0x2A)) else Ret False)
      else Ret False)"

text \<open>\<open>Concat\<close>: the loops over the suffixes copy the raw bytes and then shift the offsets.\<close>

fun concat_raw :: "byte list \<Rightarrow> nat \<Rightarrow> Name list \<Rightarrow> (g53_error, byte list \<times> nat) go" where
  "concat_raw r copyedLen [] = Ret (r, copyedLen)"
| "concat_raw r copyedLen (suffix # suffixes) =
     gbind (gslice (raw suffix) 0 (usub (name_length suffix) 1)) (\<lambda>src.
     gbind (copy_at r copyedLen src) (\<lambda>r.
     concat_raw r (uadd copyedLen (usub (name_length suffix) 1)) suffixes))"

fun concat_offsets :: "byte list \<Rightarrow> nat \<Rightarrow> Name list \<Rightarrow> (g53_error, byte list) go" where
  "concat_offsets offs copyedLen [] = Ret offs"
| "concat_offsets offs copyedLen (suffix # suffixes) =
     gbind (idx offs (usub copyedLen 1)) (\<lambda>lastOffset.
     gbind (gslice (offsets suffix) 1 (labelCount suffix)) (\<lambda>src.
     gbind (copy_at offs copyedLen src) (\<lambda>offs.
     gbind (map_range (\<lambda>o'. o' + lastOffset) offs copyedLen (usub (labelCount suffix) 1)) (\<lambda>offs.
     concat_offsets offs (uadd copyedLen (usub (labelCount suffix) 1)) suffixes))))"

definition Concat :: "Name \<Rightarrow> Name list \<Rightarrow> (g53_error, Name) go" where
  "Concat name suffixes =
     (if length suffixes = 1 \<and> IsRoot (hd suffixes) then Ret name
      else
        let finalLength =
              fold (\<lambda>suffix n. uadd n (usub (name_length suffix) 1)) suffixes (name_length name);
            finalLabelCount =
              fold (\<lambda>suffix n. uadd n (usub (labelCount suffix) 1)) suffixes (labelCount name)
        in if finalLength > MAX_WIRE then Err ConcatTooLong
           else if finalLabelCount > MAX_LABELS then Err ConcatTooManyLabels
           else
             gbind (gmake finalLength 0) (\<lambda>r.
             gbind (gslice (raw name) 0 (usub (name_length name) 1)) (\<lambda>src.
             gbind (copy_at r 0 src) (\<lambda>r.
             if suffixes = [] then Panic
             else
               gbind (concat_raw r (usub (name_length name) 1) (butlast suffixes)) (\<lambda>(r, copyedLen).
               gbind (copy_at r copyedLen (raw (last suffixes))) (\<lambda>r.
               gbind (gmake finalLabelCount 0) (\<lambda>offs.
               gbind (copy_at offs 0 (offsets name)) (\<lambda>offs.
               gbind (concat_offsets offs (labelCount name) suffixes) (\<lambda>offs.
               Ret \<lparr>raw = r, offsets = offs, name_length = length r, labelCount = length offs\<rparr>)))))))))"

definition Split :: "Name \<Rightarrow> nat \<Rightarrow> nat \<Rightarrow> (g53_error, Name) go" where
  "Split name startLabel count =
     (if count = 0 \<or> count > labelCount name \<or> uadd startLabel count > labelCount name
      then Err SplitRangeInvalid
      else if uadd startLabel count = labelCount name then
        (if startLabel = 0 then Ret name
         else
           gbind (gmake count 0) (\<lambda>offs.
           gbind (idx (offsets name) startLabel) (\<lambda>firstOffset.
           gbind (gslice (offsets name) startLabel (length (offsets name))) (\<lambda>src.
           gbind (copy_at offs 0 src) (\<lambda>offs.
           gbind (idx offs 0) (\<lambda>o0.
           gbind (gslice (raw name) (unat o0) (name_length name)) (\<lambda>r.
           gbind (map_range (\<lambda>o'. o' - firstOffset) offs 0 count) (\<lambda>offs.
           Ret \<lparr>raw = r, offsets = offs, name_length = length r, labelCount = count\<rparr>))))))))
      else
        gbind (gmake (uadd count 1) 0) (\<lambda>offs.
        gbind (idx (offsets name) startLabel) (\<lambda>firstOffset.
        gbind (gslice (offsets name) startLabel (uadd (uadd startLabel count) 1)) (\<lambda>src.
        gbind (copy_at offs 0 src) (\<lambda>offs.
        gbind (idx offs count) (\<lambda>oc.
        gbind (idx offs 0) (\<lambda>o0.
        gbind (gmake (unat (oc - o0 + 1)) 0) (\<lambda>r.
        gbind (gslice (raw name) (unat o0) (unat oc)) (\<lambda>src.
        gbind (copy_at r 0 src) (\<lambda>r.
        gbind (map_range (\<lambda>o'. o' - firstOffset) offs 0 (uadd count 1)) (\<lambda>offs.
        gbind (idx offs count) (\<lambda>oc.
        gbind (upd r (unat oc) 0) (\<lambda>r.
        Ret \<lparr>raw = r, offsets = offs, name_length = length r, labelCount = uadd count 1\<rparr>)))))))))))))"

definition Subtract :: "Name \<Rightarrow> Name \<Rightarrow> (g53_error, Name) go" where
  "Subtract name suffix = Split name 0 (usub (labelCount name) (labelCount suffix))"

definition Parent :: "Name \<Rightarrow> nat \<Rightarrow> (g53_error, Name) go" where
  "Parent name level = Split name level (usub (labelCount name) level)"

fun reverse_loop ::
  "Name \<Rightarrow> nat \<Rightarrow> byte list \<Rightarrow> byte list \<Rightarrow> byte \<Rightarrow> (g53_error, byte list \<times> byte list \<times> byte) go" where
  "reverse_loop name 0 r offs labelLen = Ret (r, offs, labelLen)"
| "reverse_loop name (Suc i) r offs labelLen =
     gbind (idx (offsets name) i) (\<lambda>labelStart.
     gbind (idx (offsets name) (i + 1)) (\<lambda>labelEnd.
     gbind (gslice (raw name) (unat labelStart) (unat labelEnd)) (\<lambda>src.
     gbind (copy_at r (unat labelLen) src) (\<lambda>r.
     reverse_loop name i r (offs @ [labelLen]) (labelLen + (labelEnd - labelStart))))))"

definition Reverse :: "Name \<Rightarrow> (g53_error, Name) go" where
  "Reverse name =
     (if labelCount name = 1 then Ret Root
      else
        gbind (gmake (usub (name_length name) 1) 0) (\<lambda>r.
        gbind (reverse_loop name (labelCount name - 1) r [] 0) (\<lambda>(r, offs, labelLen).
        Ret \<lparr>raw = r @ [0], offsets = offs @ [labelLen],
             name_length = name_length name, labelCount = labelCount name\<rparr>)))"

fun downcase_chars :: "byte list \<Rightarrow> nat \<Rightarrow> nat \<Rightarrow> (g53_error, byte list) go" where
  "downcase_chars r p 0 = Ret r"
| "downcase_chars r p (Suc ll) =
     gbind (idx r p) (\<lambda>c. downcase_chars (r[p := maptolower c]) (p + 1) ll)"

fun downcase_labels :: "byte list \<Rightarrow> nat \<Rightarrow> nat \<Rightarrow> (g53_error, byte list) go" where
  "downcase_labels r p 0 = Ret r"
| "downcase_labels r p (Suc lc) =
     gbind (idx r p) (\<lambda>ll.
     gbind (downcase_chars r (p + 1) (unat ll)) (\<lambda>r.
     downcase_labels r (p + 1 + unat ll) lc))"

definition Downcase :: "Name \<Rightarrow> (g53_error, Name) go" where
  "Downcase name = gbind (downcase_labels (raw name) 0 (labelCount name)) (\<lambda>r. Ret (name\<lparr>raw := r\<rparr>))"

definition StripLeft :: "Name \<Rightarrow> nat \<Rightarrow> (g53_error, Name) go" where
  "StripLeft name c =
     (if c \<ge> labelCount name then Err StripTooMany
      else if c = 0 then Ret name
      else
        gbind (idx (offsets name) c) (\<lambda>startPos.
        let newLabelCount = usub (labelCount name) c in
        gbind (gmake newLabelCount 0) (\<lambda>offs.
        gbind (gslice (offsets name) c (length (offsets name))) (\<lambda>src.
        gbind (copy_at offs 0 src) (\<lambda>offs.
        gbind (map_range (\<lambda>o'. o' - startPos) offs 0 newLabelCount) (\<lambda>offs.
        gbind (gslice (raw name) (unat startPos) (length (raw name))) (\<lambda>r.
        Ret \<lparr>raw = r, offsets = offs, name_length = usub (name_length name) (unat startPos),
             labelCount = length offs\<rparr>)))))))"

definition StripRight :: "Name \<Rightarrow> nat \<Rightarrow> (g53_error, Name) go" where
  "StripRight name c =
     (if c \<ge> labelCount name then Err StripTooMany
      else if c = 0 then Ret name
      else
        let labelIndex = usub (usub (labelCount name) c) 1 in
        gbind (idx (offsets name) labelIndex) (\<lambda>endPos.
        gbind (gmake (unat (endPos + 1)) 0) (\<lambda>r.
        gbind (gslice (raw name) 0 (unat endPos)) (\<lambda>src.
        gbind (copy_at r 0 src) (\<lambda>r.
        gbind (upd r (unat endPos) 0) (\<lambda>r.
        gbind (gslice (offsets name) 0 (uadd labelIndex 1)) (\<lambda>offs.
        Ret \<lparr>raw = r, offsets = offs, name_length = unat (endPos + 1),
             labelCount = usub (labelCount name) c\<rparr>)))))))"

fun hashRaw_from :: "u32 \<Rightarrow> byte list \<Rightarrow> bool \<Rightarrow> u32" where
  "hashRaw_from hash [] caseSensitive = hash"
| "hashRaw_from hash (c # cs) caseSensitive =
     hashRaw_from
       (hash XOR (ucast (if caseSensitive then c else maptolower c) + 0x9e3779b9 + push_bit 6 hash
                  + drop_bit 2 hash))
       cs caseSensitive"

definition hashRaw :: "byte list \<Rightarrow> bool \<Rightarrow> u32" where
  "hashRaw r caseSensitive = hashRaw_from 0 r caseSensitive"

definition Hash :: "Name \<Rightarrow> bool \<Rightarrow> u32" where
  "Hash name caseSensitive = hashRaw (raw name) caseSensitive"

definition Name_ToWire :: "Name \<Rightarrow> OutputBuffer \<Rightarrow> OutputBuffer" where
  "Name_ToWire name buf = WriteData buf (raw name)"

fun subdomain_loop :: "byte list \<Rightarrow> byte list \<Rightarrow> nat \<Rightarrow> nat \<Rightarrow> (g53_error, bool) go" where
  "subdomain_loop r pr i 0 = Ret True"
| "subdomain_loop r pr i (Suc j) =
     gbind (idx pr (Suc j)) (\<lambda>a.
     gbind (idx r i) (\<lambda>b.
     if maptolower a \<noteq> maptolower b then Ret False else subdomain_loop r pr (usub i 1) j))"

definition IsSubDomain :: "Name \<Rightarrow> Name \<Rightarrow> (g53_error, bool) go" where
  "IsSubDomain name parent =
     (if name_length name < name_length parent \<or> labelCount name < labelCount parent then Ret False
      else subdomain_loop (raw name) (raw parent) (usub (name_length name) 1)
             (usub (name_length parent) 1))"

text \<open>\<open>NameRef\<close>: a name and the number of labels to skip.\<close>

record NameRef =
  inner :: Name
  parentLevel :: nat

definition fromName :: "Name \<Rightarrow> NameRef" where
  "fromName name = \<lparr>inner = name, parentLevel = 0\<rparr>"

definition Ref_Parent :: "NameRef \<Rightarrow> NameRef" where
  "Ref_Parent r = r\<lparr>parentLevel := parentLevel r + 1\<rparr>"

definition Ref_Raw :: "NameRef \<Rightarrow> (g53_error, byte list) go" where
  "Ref_Raw r =
     gbind (idx (offsets (inner r)) (parentLevel r)) (\<lambda>o'.
     gslice (raw (inner r)) (unat o') (length (raw (inner r))))"

definition Ref_IsRoot :: "NameRef \<Rightarrow> bool" where
  "Ref_IsRoot r = (parentLevel r + 1 = labelCount (inner r))"

definition Ref_Hash :: "NameRef \<Rightarrow> bool \<Rightarrow> (g53_error, u32) go" where
  "Ref_Hash r caseSensitive = gbind (Ref_Raw r) (\<lambda>bs. Ret (hashRaw bs caseSensitive))"

section \<open>The abstract view\<close>

type_synonym label = "byte list"

definition wire_label :: "label \<Rightarrow> byte list" where
  "wire_label l = word_of_nat (length l) # l"

definition wire_labels :: "label list \<Rightarrow> byte list" where
  "wire_labels ls = concat (map wire_label ls)"

definition wire :: "label list \<Rightarrow> byte list" where
  "wire ls = wire_labels ls @ [0]"

fun offs_from :: "nat \<Rightarrow> label list \<Rightarrow> nat list" where
  "offs_from b [] = [b]"
| "offs_from b (l # ls) = b # offs_from (b + 1 + length l) ls"

definition name_of :: "label list \<Rightarrow> Name" where
  "name_of ls =
     \<lparr>raw = wire ls, offsets = map word_of_nat (offs_from 0 ls),
      name_length = length (wire ls), labelCount = length ls + 1\<rparr>"

definition valid_labels :: "label list \<Rightarrow> bool" where
  "valid_labels ls \<longleftrightarrow> (\<forall>l \<in> set ls. l \<noteq> [] \<and> length l \<le> MAX_LABEL_LEN) \<and> length (wire ls) \<le> MAX_WIRE"

function unwire :: "byte list \<Rightarrow> label list" where
  "unwire [] = []"
| "unwire (c # cs) = (if c = 0 then [] else take (unat c) cs # unwire (drop (unat c) cs))"
  by pat_completeness auto
termination by (relation "measure length") auto

definition labels :: "Name \<Rightarrow> label list" where
  "labels name = unwire (raw name)"

definition wf_name :: "Name \<Rightarrow> bool" where
  "wf_name name \<longleftrightarrow> valid_labels (labels name) \<and> name_of (labels name) = name"

section \<open>The case map\<close>

lemma maptolower_table_eq:
  "maptolower_table = map word_of_nat [0..<65] @ map (\<lambda>n. word_of_nat n + 0x20) [65..<91]
     @ map word_of_nat [91..<256]"
proof -
  have "[0..<65] = (0::nat) # 1 # [2..<65]"
    by (subst upt_conv_Cons, simp, subst upt_conv_Cons, simp, simp only: One_nat_def numeral_2_eq_2)
  then show ?thesis unfolding maptolower_table_def by simp
qed

lemma maptolower_eq: "maptolower c = (if 65 \<le> unat c \<and> unat c < 91 then c + 0x20 else c)"
proof -
  have "unat c < 256" by (rule unat_byte_less)
  moreover have "word_of_nat (unat c) = c" by simp
  ultimately show ?thesis
    unfolding maptolower_def maptolower_table_eq by (auto simp: nth_append simp del: upt_rec_numeral)
qed

lemma unat_maptolower: "unat (maptolower c) = (if 65 \<le> unat c \<and> unat c < 91 then unat c + 32 else unat c)"
  by (simp add: maptolower_eq unat_word_ariths)

lemma maptolower_idem [simp]: "maptolower (maptolower c) = maptolower c"
  by (simp add: maptolower_eq [of "maptolower c"]) (auto simp: unat_maptolower)

lemma maptolower_small: "unat c < 65 \<Longrightarrow> maptolower c = c"
  by (simp add: maptolower_eq)

section \<open>Facts on the wire form\<close>

lemma length_wire_label [simp]: "length (wire_label l) = length l + 1"
  by (simp add: wire_label_def)

lemma wire_labels_simps [simp]:
  "wire_labels [] = []" "wire_labels (l # ls) = wire_label l @ wire_labels ls"
  "wire_labels (ls @ ms) = wire_labels ls @ wire_labels ms"
  by (simp_all add: wire_labels_def)

lemma length_wire [simp]: "length (wire ls) = length (wire_labels ls) + 1"
  by (simp add: wire_def)

lemma length_wire_labels: "length (wire_labels ls) = sum_list (map length ls) + length ls"
  by (induction ls) simp_all

lemma length_offs_from [simp]: "length (offs_from b ls) = length ls + 1"
  by (induction ls arbitrary: b) simp_all

lemma offs_from_nth: "i \<le> length ls \<Longrightarrow> offs_from b ls ! i = b + length (wire_labels (take i ls))"
proof (induction ls arbitrary: b i)
  case Nil
  then show ?case by simp
next
  case (Cons l ls)
  then show ?case by (cases i) simp_all
qed

lemma offs_from_eq_map:
  "offs_from b ls = map (\<lambda>i. b + length (wire_labels (take i ls))) [0..<length ls + 1]"
  by (rule nth_equalityI) (simp_all add: offs_from_nth del: upt_Suc)

lemma offs_from_shift: "offs_from (b + c) ls = map (\<lambda>o'. o' + c) (offs_from b ls)"
  by (rule nth_equalityI) (simp_all add: offs_from_nth)

lemma take_offs_from: "i \<le> length ls \<Longrightarrow> take (i + 1) (offs_from b ls) = offs_from b (take i ls)"
  by (rule nth_equalityI) (auto simp: offs_from_nth min_absorb2 min_absorb1)

lemma drop_offs_from:
  "i \<le> length ls \<Longrightarrow>
   drop i (offs_from b ls) = offs_from (b + length (wire_labels (take i ls))) (drop i ls)"
proof (rule nth_equalityI)
  fix j assume "i \<le> length ls" "j < length (drop i (offs_from b ls))"
  then show "drop i (offs_from b ls) ! j
      = offs_from (b + length (wire_labels (take i ls))) (drop i ls) ! j"
    by (simp add: offs_from_nth take_add)
qed simp

lemma offs_from_append:
  "offs_from b (ls @ ms) = offs_from b ls @ tl (offs_from (b + length (wire_labels ls)) ms)"
proof (rule nth_equalityI)
  fix j assume "j < length (offs_from b (ls @ ms))"
  then show "offs_from b (ls @ ms) ! j
      = (offs_from b ls @ tl (offs_from (b + length (wire_labels ls)) ms)) ! j"
    by (auto simp: offs_from_nth nth_append nth_tl Suc_diff_Suc not_less)
qed simp

lemma length_wire_labels_take: "length (wire_labels (take i ls)) \<le> length (wire_labels ls)"
  by (metis append_take_drop_id length_append le_add1 wire_labels_simps(3))

lemma take_wire_labels:
  "take (length (wire_labels (take i ls))) (wire_labels ls @ xs) = wire_labels (take i ls)"
proof -
  have "wire_labels ls @ xs = wire_labels (take i ls) @ wire_labels (drop i ls) @ xs"
    by (simp flip: wire_labels_simps(3) append_assoc)
  then show ?thesis by simp
qed

lemma drop_wire_labels:
  "drop (length (wire_labels (take i ls))) (wire_labels ls @ xs) = wire_labels (drop i ls) @ xs"
proof -
  have "wire_labels ls @ xs = wire_labels (take i ls) @ wire_labels (drop i ls) @ xs"
    by (simp flip: wire_labels_simps(3) append_assoc)
  then show ?thesis by simp
qed

lemma drop_wire: "drop (length (wire_labels (take i ls))) (wire ls) = wire (drop i ls)"
  by (simp only: wire_def drop_wire_labels)

section \<open>Well-formed names\<close>

lemma valid_labelsD:
  assumes "valid_labels ls"
  shows "length (wire_labels ls) \<le> 254" "l \<in> set ls \<Longrightarrow> l \<noteq> []" "l \<in> set ls \<Longrightarrow> length l \<le> 63"
  using assms by (auto simp: valid_labels_def)

lemma valid_labels_Nil [simp]: "valid_labels []"
  by (simp add: valid_labels_def)

lemma valid_labels_Cons:
  "valid_labels (l # ls) \<longleftrightarrow>
     valid_labels ls \<and> l \<noteq> [] \<and> length l \<le> 63 \<and> length l + length (wire_labels ls) \<le> 253"
  by (auto simp: valid_labels_def)

lemma valid_labels_take: "valid_labels ls \<Longrightarrow> valid_labels (take i ls)"
  using length_wire_labels_take [of i ls] by (auto simp: valid_labels_def dest: in_set_takeD)

lemma valid_labels_drop: "valid_labels ls \<Longrightarrow> valid_labels (drop i ls)"
proof -
  have "length (wire_labels (drop i ls)) \<le> length (wire_labels ls)"
    by (metis append_take_drop_id length_append le_add2 wire_labels_simps(3))
  then show "valid_labels ls \<Longrightarrow> valid_labels (drop i ls)"
    by (auto simp: valid_labels_def dest: in_set_dropD)
qed

lemma length_labels_le: "valid_labels ls \<Longrightarrow> length ls \<le> 127"
proof -
  assume v: "valid_labels ls"
  have "(\<forall>l \<in> set ls. l \<noteq> []) \<Longrightarrow> 2 * length ls \<le> length (wire_labels ls)" for ls :: "label list"
    by (induction ls) (auto simp: neq_Nil_conv)
  then have "2 * length ls \<le> length (wire_labels ls)"
    using v by (auto simp: valid_labels_def)
  with valid_labelsD(1) [OF v] show ?thesis by linarith
qed

lemma unwire_wire:
  assumes "\<forall>l \<in> set ls. l \<noteq> [] \<and> length l \<le> 63"
  shows "unwire (wire ls @ xs) = ls"
  using assms by (induction ls) (auto simp: wire_def wire_label_def)

lemma labels_name_of: "valid_labels ls \<Longrightarrow> labels (name_of ls) = ls"
  using unwire_wire [of ls "[]"] by (auto simp: labels_def name_of_def valid_labels_def)

lemma wf_name_iff: "wf_name n \<longleftrightarrow> (\<exists>ls. valid_labels ls \<and> n = name_of ls)"
  by (metis labels_name_of wf_name_def)

lemma wf_name_of: "valid_labels ls \<Longrightarrow> wf_name (name_of ls)"
  by (auto simp: wf_name_iff)

lemma wf_nameE:
  assumes "wf_name n"
  obtains ls where "valid_labels ls" "n = name_of ls" "labels n = ls"
  using assms labels_name_of by (auto simp: wf_name_iff)

lemma name_of_simps [simp]:
  "raw (name_of ls) = wire ls" "offsets (name_of ls) = map word_of_nat (offs_from 0 ls)"
  "name_length (name_of ls) = length (wire_labels ls) + 1" "labelCount (name_of ls) = length ls + 1"
  by (simp_all add: name_of_def)

lemma name_of_inj: "valid_labels ls \<Longrightarrow> valid_labels ms \<Longrightarrow> name_of ls = name_of ms \<longleftrightarrow> ls = ms"
  by (metis labels_name_of)

lemma Root_name_of: "Root = name_of []"
  by (simp add: Root_def name_of_def wire_def)

lemma offset_name_of:
  "i \<le> length ls \<Longrightarrow> idx (offsets (name_of ls)) i = Ret (word_of_nat (length (wire_labels (take i ls))))"
  by (simp add: idx_def offs_from_nth)

lemma unat_offset:
  assumes "valid_labels ls"
  shows "unat (word_of_nat (length (wire_labels (take i ls))) :: byte) = length (wire_labels (take i ls))"
  using valid_labelsD(1) [OF assms] length_wire_labels_take [of i ls] by simp

lemma map_sub_offsets:
  assumes "length (wire_labels ls) + b \<le> 255"
  shows "map (\<lambda>o'. o' - word_of_nat b) (map word_of_nat (offs_from b ls))
         = (map word_of_nat (offs_from 0 ls) :: byte list)"
proof -
  have "offs_from b ls = map (\<lambda>o'. o' + b) (offs_from 0 ls)"
    using offs_from_shift [of 0 b ls] by simp
  then show ?thesis by simp
qed

section \<open>Structural operations act on the labels\<close>

lemma copy_at_all: "length s = length d \<Longrightarrow> copy_at d 0 s = Ret s"
  by (simp add: copy_at_def)

lemma copy_at_fresh: "copy_at (z # replicate (length s) z) 0 s = Ret (s @ [z])"
proof -
  have "z # replicate (length s) z = replicate (length s) z @ [z]" by (simp add: replicate_append_same)
  then show ?thesis by (simp add: copy_at_def)
qed

lemma upd_last: "upd (xs @ [x]) (length xs) y = Ret (xs @ [y])"
  by (simp add: upd_def)

lemma upd_wire: "upd (wire ls) (length (wire_labels ls)) 0 = Ret (wire ls)"
  by (simp add: wire_def upd_last)

lemma gslice_drop: "i \<le> length xs \<Longrightarrow> gslice xs i (length xs) = Ret (drop i xs)"
  by (simp add: gslice_def)

lemma idx_offsets:
  "i \<le> length ls \<Longrightarrow>
   idx (map word_of_nat (offs_from b ls)) i = Ret (word_of_nat (b + length (wire_labels (take i ls))))"
  by (simp add: idx_def offs_from_nth)

lemma take_offs_from_Suc: "i \<le> length ls \<Longrightarrow> take (Suc i) (offs_from b ls) = offs_from b (take i ls)"
  using take_offs_from [of i ls b] by simp

lemma gslice_offsets_tail:
  "i \<le> length ls \<Longrightarrow> gslice (map word_of_nat (offs_from 0 ls)) i (Suc (length ls))
     = Ret (map word_of_nat (offs_from (length (wire_labels (take i ls))) (drop i ls)))"
  by (simp add: gslice_def drop_map drop_offs_from)

lemma gslice_offsets_middle:
  "i + c \<le> length ls \<Longrightarrow> gslice (map word_of_nat (offs_from 0 ls)) i (Suc (i + c))
     = Ret (map word_of_nat (offs_from (length (wire_labels (take i ls))) (take c (drop i ls))))"
  by (simp add: gslice_def drop_map take_map drop_offs_from take_offs_from_Suc)

lemma wire_labels_split:
  "length (wire_labels (take i ls)) + length (wire_labels (drop i ls)) = length (wire_labels ls)"
  by (metis append_take_drop_id length_append wire_labels_simps(3))

lemma gslice_wire_tail:
  "i \<le> length ls \<Longrightarrow>
   gslice (wire ls) (length (wire_labels (take i ls))) (Suc (length (wire_labels ls)))
     = Ret (wire (drop i ls))"
  using wire_labels_split [of i ls] by (simp add: gslice_def drop_wire)

lemma gslice_wire_middle:
  "gslice (wire ls) (length (wire_labels (take i ls))) (length (wire_labels (take (i + c) ls)))
     = Ret (wire_labels (take c (drop i ls)))"
proof -
  have "wire ls = wire_labels (take (i + c) ls) @ wire_labels (drop (i + c) ls) @ [0]"
    by (simp add: wire_def flip: wire_labels_simps(3) append_assoc)
  then show ?thesis by (simp add: gslice_def take_add)
qed

lemma sub_offsets_range:
  assumes "length (wire_labels ls) + b \<le> 255" "c = Suc (length ls)"
  shows "map_range (\<lambda>o'. o' - word_of_nat b) (map word_of_nat (offs_from b ls)) 0 c
       = Ret (map word_of_nat (offs_from 0 ls) :: byte list)"
  using assms by (simp add: map_range_eq map_sub_offsets del: map_map map_range.simps)

lemma Split_tail:
  assumes v: "valid_labels ls" and i: "0 < i" "i \<le> length ls"
  shows "Split (name_of ls) i (Suc (length ls - i)) = Ret (name_of (drop i ls))"
proof -
  have n: "length ls \<le> 127" by (rule length_labels_le [OF v])
  have le: "length (wire_labels ls) \<le> 254" by (rule valid_labelsD(1) [OF v])
  show ?thesis
    using i n le wire_labels_split [of i ls] unfolding Split_def
    by (simp add: uadd_small gmake_small idx_offsets gslice_offsets_tail copy_at_all
          unat_offset [OF v] gslice_wire_tail sub_offsets_range name_of_def del: map_range.simps)
qed

lemma Split_middle:
  assumes v: "valid_labels ls" and c: "0 < c" "i + c \<le> length ls"
  shows "Split (name_of ls) i c = Ret (name_of (take c (drop i ls)))"
proof -
  let ?o = "length (wire_labels (take i ls))" and ?m = "take c (drop i ls)"
  have n: "length ls \<le> 127" by (rule length_labels_le [OF v])
  have e: "length (wire_labels (take (i + c) ls)) = ?o + length (wire_labels ?m)"
    by (simp add: take_add)
  have le: "?o + length (wire_labels ?m) \<le> 254"
    using valid_labelsD(1) [OF v] length_wire_labels_take [of "i + c" ls] e by linarith
  have lm: "length ?m = c" using c by simp
  have raw: "gslice (wire ls) ?o (?o + length (wire_labels ?m))
      = (Ret (wire_labels ?m) :: (g53_error, byte list) go)"
    using gslice_wire_middle [of ls i c] e by simp
  have sz: "unat (word_of_nat (length (wire_labels ?m)) + 1 :: byte) = Suc (length (wire_labels ?m))"
    using le by (simp add: add.commute flip: of_nat_Suc)
  have ud: "word_of_nat (?o + length (wire_labels ?m)) - word_of_nat ?o
      = (word_of_nat (length (wire_labels ?m)) :: byte)" by simp
  have uo: "unat (word_of_nat ?o :: byte) = ?o"
    "unat (word_of_nat (?o + length (wire_labels ?m)) :: byte) = ?o + length (wire_labels ?m)"
    "unat (word_of_nat (length (wire_labels ?m)) :: byte) = length (wire_labels ?m)"
    using le by (simp_all del: of_nat_add)
  show ?thesis
    using c n lm le unfolding Split_def
    by (simp add: uadd_small gmake_small idx_offsets gslice_offsets_middle copy_at_all ud sz uo raw
          sub_offsets_range name_of_def copy_at_fresh upd_wire
          del: map_range.simps of_nat_add flip: wire_def)
qed

theorem Split_labels:
  assumes v: "valid_labels ls" and c: "0 < c" "i + c \<le> length ls + 1"
  shows "Split (name_of ls) i c = Ret (name_of (take c (drop i ls)))"
proof -
  consider "i = 0" "c = length ls + 1" | "0 < i" "c = length ls + 1 - i" | "i + c \<le> length ls"
    using c by linarith
  then show ?thesis
  proof cases
    case 1
    then show ?thesis using length_labels_le [OF v] by (simp add: Split_def uadd_small)
  next
    case 2
    then show ?thesis using c Split_tail [OF v, of i] by (simp add: Suc_diff_le)
  next
    case 3
    then show ?thesis using c Split_middle [OF v, of c i] by simp
  qed
qed

lemma Split_error:
  assumes "valid_labels ls" "i < 2 ^ 63" "c < 2 ^ 63" "c = 0 \<or> length ls + 1 < i + c"
  shows "Split (name_of ls) i c = Err SplitRangeInvalid"
  using assms by (auto simp: Split_def uadd_small)

lemma Parent_labels:
  assumes "valid_labels ls" "i \<le> length ls"
  shows "Parent (name_of ls) i = Ret (name_of (drop i ls))"
  using assms length_labels_le [of ls] Split_labels [of ls "Suc (length ls) - i" i]
  by (simp add: Parent_def usub_small)

lemma Parent_error:
  assumes "valid_labels ls" "length ls < i" "i < 2 ^ 63"
  shows "Parent (name_of ls) i = Err SplitRangeInvalid"
proof (cases "i = Suc (length ls)")
  case True
  then show ?thesis using length_labels_le [OF assms(1)] by (simp add: Parent_def usub_small Split_def)
next
  case False
  then have big: "Suc (length ls) < usub (Suc (length ls)) i"
    using assms length_labels_le [OF assms(1)] by (simp add: usub_underflow)
  show ?thesis
    using assms by (simp add: Parent_def Split_def big)
qed

theorem Subtract_labels:
  assumes "valid_labels (ls @ ms)" "ls \<noteq> []"
  shows "Subtract (name_of (ls @ ms)) (name_of ms) = Ret (name_of ls)"
  using assms length_labels_le [of "ls @ ms"] Split_labels [of "ls @ ms" "length ls" 0]
  by (simp add: Subtract_def usub_small)

theorem StripLeft_labels:
  assumes v: "valid_labels ls" and i: "i \<le> length ls"
  shows "StripLeft (name_of ls) i = Ret (name_of (drop i ls))"
proof (cases "i = 0")
  case False
  have n: "length ls \<le> 127" by (rule length_labels_le [OF v])
  have le: "length (wire_labels ls) \<le> 254" by (rule valid_labelsD(1) [OF v])
  have len: "usub (Suc (length (wire_labels ls))) (length (wire_labels (take i ls)))
      = Suc (length (wire_labels (drop i ls)))"
    using le wire_labels_split [of i ls] by (simp add: usub_small)
  show ?thesis
    using False i n le wire_labels_split [of i ls] unfolding StripLeft_def
    by (simp add: usub_small gmake_small idx_offsets gslice_offsets_tail copy_at_all Let_def
          unat_offset [OF v] gslice_wire_tail sub_offsets_range name_of_def len Suc_diff_le
          del: map_range.simps)
qed (simp add: StripLeft_def)

theorem StripRight_labels:
  assumes v: "valid_labels ls" and i: "i \<le> length ls"
  shows "StripRight (name_of ls) i = Ret (name_of (take (length ls - i) ls))"
proof (cases "i = 0")
  case False
  let ?m = "take (length ls - i) ls"
  have n: "length ls \<le> 127" by (rule length_labels_le [OF v])
  have le: "length (wire_labels ?m) \<le> 254"
    using valid_labelsD(1) [OF v] length_wire_labels_take [of "length ls - i" ls] by linarith
  have sz: "unat (word_of_nat (length (wire_labels ?m)) + 1 :: byte) = Suc (length (wire_labels ?m))"
    using le by (simp add: add.commute flip: of_nat_Suc)
  have raw: "gslice (wire ls) 0 (length (wire_labels ?m))
      = (Ret (wire_labels ?m) :: (g53_error, byte list) go)"
    using gslice_wire_middle [of ls 0 "length ls - i"] by simp
  have offs: "gslice (map word_of_nat (offs_from 0 ls)) 0 (Suc (length ls - i))
      = (Ret (map word_of_nat (offs_from 0 ?m)) :: (g53_error, byte list) go)"
    using gslice_offsets_middle [of 0 "length ls - i" ls] by simp
  show ?thesis
    using False i n le unfolding StripRight_def
    by (simp add: usub_small uadd_small gmake_small idx_offsets Let_def sz raw offs
          copy_at_fresh upd_wire name_of_def Suc_diff_le flip: wire_def)
qed (simp add: StripRight_def)

lemma Strip_error:
  "length ls < i \<Longrightarrow> StripLeft (name_of ls) i = Err StripTooMany"
  "length ls < i \<Longrightarrow> StripRight (name_of ls) i = Err StripTooMany"
  by (simp_all add: StripLeft_def StripRight_def)

lemma copy_at_zeros:
  "length s \<le> k \<Longrightarrow> copy_at (p @ replicate k z) (length p) s = Ret (p @ s @ replicate (k - length s) z)"
  by (simp add: copy_at_def)

lemma offs_from_not_Nil [simp]: "offs_from b ls \<noteq> []"
  by (cases ls) simp_all

lemma last_offs_from: "last (offs_from b ls) = b + length (wire_labels ls)"
  by (simp add: last_conv_nth offs_from_nth)

lemma map_offs_from_snoc:
  "map f (butlast (offs_from b ls)) @ [f (b + length (wire_labels ls))] = map f (offs_from b ls)"
  by (metis append_butlast_last_id last_offs_from list.simps(8,9) map_append offs_from_not_Nil)

lemma length_wire_labels_rev: "length (wire_labels (rev ls)) = length (wire_labels ls)"
  by (simp add: length_wire_labels sum_list_rev flip: rev_map)

lemma reverse_loop_name_of:
  assumes v: "valid_labels ls" and i: "i \<le> length ls"
  shows "reverse_loop (name_of ls) i
      (wire_labels (rev (drop i ls)) @ replicate (length (wire_labels (take i ls))) 0)
      (map word_of_nat (butlast (offs_from 0 (rev (drop i ls)))))
      (word_of_nat (length (wire_labels (drop i ls))))
    = Ret (wire_labels (rev ls), map word_of_nat (butlast (offs_from 0 (rev ls))),
           word_of_nat (length (wire_labels ls)))"
  using i
proof (induction i)
  case 0
  then show ?case by simp
next
  case (Suc i)
  let ?l = "ls ! i" and ?d = "rev (drop (Suc i) ls)"
  have tk: "take (Suc i) ls = take i ls @ [?l]" and dr: "drop i ls = ?l # drop (Suc i) ls"
    using Suc.prems by (simp_all add: take_Suc_conv_app_nth Cons_nth_drop_Suc)
  have raw: "gslice (wire ls) (length (wire_labels (take i ls)))
      (length (wire_labels (take (Suc i) ls))) = (Ret (wire_label ?l) :: (g53_error, byte list) go)"
    using gslice_wire_middle [of ls i 1] Suc.prems by (simp add: take_Suc_conv_app_nth flip: dr)
  have len: "length (wire_labels ?d) = length (wire_labels (drop (Suc i) ls))"
    by (rule length_wire_labels_rev)
  have le: "length (wire_labels (drop (Suc i) ls)) \<le> 254"
    using valid_labelsD(1) [OF v] wire_labels_split [of "Suc i" ls] by linarith
  have cp: "copy_at (wire_labels ?d @ replicate (length (wire_labels (take (Suc i) ls))) 0)
      (length (wire_labels (drop (Suc i) ls))) (wire_label ?l)
      = (Ret (wire_labels (rev (drop i ls)) @ replicate (length (wire_labels (take i ls))) 0)
         :: (g53_error, byte list) go)"
    unfolding len [symmetric] by (subst copy_at_zeros) (simp_all add: tk dr)
  have offs: "map word_of_nat (butlast (offs_from 0 ?d)) @ [word_of_nat (length (wire_labels (drop (Suc i) ls)))]
      = (map word_of_nat (butlast (offs_from 0 (rev (drop i ls)))) :: byte list)"
    using map_offs_from_snoc [of word_of_nat 0 ?d] by (simp add: dr offs_from_append len butlast_append)
  have step: "word_of_nat (length (wire_labels (drop (Suc i) ls)))
      + (word_of_nat (length (wire_labels (take (Suc i) ls))) - word_of_nat (length (wire_labels (take i ls))))
      = (word_of_nat (length (wire_labels (drop i ls))) :: byte)"
    by (simp add: tk dr)
  show ?case
    using Suc.prems le Suc.IH
    by (simp add: idx_offsets unat_offset [OF v] raw cp offs step del: of_nat_add)
qed

theorem Reverse_labels:
  assumes v: "valid_labels ls"
  shows "Reverse (name_of ls) = Ret (name_of (rev ls))"
proof (cases "ls = []")
  case False
  have le: "length (wire_labels ls) \<le> 254" by (rule valid_labelsD(1) [OF v])
  have len: "length (wire_labels (rev ls)) = length (wire_labels ls)"
    by (rule length_wire_labels_rev)
  have last: "map word_of_nat (butlast (offs_from 0 (rev ls))) @ [word_of_nat (length (wire_labels ls))]
      = (map word_of_nat (offs_from 0 (rev ls)) :: byte list)"
    using map_offs_from_snoc [of word_of_nat 0 "rev ls"] by (simp add: len)
  show ?thesis
    using False le reverse_loop_name_of [OF v, of "length ls"]
    by (simp add: Reverse_def usub_small gmake_small last len name_of_def flip: wire_def)
qed (simp add: Reverse_def Root_name_of)

lemma concat_raw_name_of:
  assumes "\<forall>ms \<in> set mss. length (wire_labels ms) \<le> 254"
    and "length p + length (wire_labels (concat mss)) + k < 2 ^ 63"
  shows "concat_raw (p @ replicate (length (wire_labels (concat mss)) + k) 0) (length p) (map name_of mss)
    = Ret (p @ wire_labels (concat mss) @ replicate k 0, length p + length (wire_labels (concat mss)))"
  using assms
proof (induction mss arbitrary: p)
  case Nil
  then show ?case by simp
next
  case (Cons ms mss)
  have raw: "gslice (wire ms) 0 (length (wire_labels ms)) = (Ret (wire_labels ms) :: (g53_error, byte list) go)"
    using gslice_wire_middle [of ms 0 "length ms"] by simp
  have cp: "copy_at (p @ replicate (length (wire_labels (concat (ms # mss))) + k) 0) (length p) (wire_labels ms)
      = (Ret ((p @ wire_labels ms) @ replicate (length (wire_labels (concat mss)) + k) 0) :: (g53_error, byte list) go)"
    by (subst copy_at_zeros) simp_all
  have "concat_raw ((p @ wire_labels ms) @ replicate (length (wire_labels (concat mss)) + k) 0)
      (length (p @ wire_labels ms)) (map name_of mss)
    = Ret ((p @ wire_labels ms) @ wire_labels (concat mss) @ replicate k 0,
           length (p @ wire_labels ms) + length (wire_labels (concat mss)))"
    using Cons.prems by (intro Cons.IH) auto
  then show ?case
    using Cons.prems cp raw by (simp add: usub_small uadd_small algebra_simps)
qed

lemma concat_offsets_step:
  assumes "length (wire_labels (ls @ ms)) \<le> 254" "length (ls @ ms) \<le> 127"
  shows "concat_offsets (map word_of_nat (offs_from 0 ls) @ replicate (length ms + k) 0) (Suc (length ls)) (name_of ms # ss)
    = concat_offsets (map word_of_nat (offs_from 0 (ls @ ms)) @ replicate k 0) (Suc (length (ls @ ms))) ss"
proof -
  let ?O = "map word_of_nat (offs_from 0 ls) :: byte list"
  let ?T = "map word_of_nat (tl (offs_from 0 ms)) :: byte list"
  have last: "idx (?O @ replicate (length ms + k) 0) (length ls)
      = (Ret (word_of_nat (length (wire_labels ls))) :: (g53_error, byte) go)"
    using idx_offsets [of "length ls" ls 0] by simp
  have src: "gslice (map word_of_nat (offs_from 0 ms)) (Suc 0) (Suc (length ms)) = (Ret ?T :: (g53_error, byte list) go)"
    by (simp add: gslice_def drop_map drop_Suc)
  have cp: "copy_at (?O @ replicate (length ms + k) 0) (Suc (length ls)) ?T
      = (Ret (?O @ ?T @ replicate k 0) :: (g53_error, byte list) go)"
    using copy_at_zeros [of ?T "length ms + k" ?O 0] by simp
  have "tl (offs_from (length (wire_labels ls)) ms) = map (\<lambda>o'. o' + length (wire_labels ls)) (tl (offs_from 0 ms))"
    using offs_from_shift [of 0 "length (wire_labels ls)" ms] by (simp add: map_tl)
  then have shift: "map (\<lambda>o'. o' + word_of_nat (length (wire_labels ls))) ?T
      = (map word_of_nat (tl (offs_from (length (wire_labels ls)) ms)) :: byte list)"
    by simp
  have rng: "map_range (\<lambda>o'. o' + word_of_nat (length (wire_labels ls))) (?O @ ?T @ replicate k 0) (Suc (length ls)) (length ms)
      = (Ret (map word_of_nat (offs_from 0 (ls @ ms)) @ replicate k 0) :: (g53_error, byte list) go)"
    using shift by (simp add: map_range_eq offs_from_append del: map_map map_range.simps)
  show ?thesis
    using assms by (simp add: usub_small uadd_small last src cp rng del: map_range.simps)
qed

lemma concat_offsets_name_of:
  assumes "length (wire_labels (ls @ concat mss)) \<le> 254" "length (ls @ concat mss) \<le> 127"
  shows "concat_offsets (map word_of_nat (offs_from 0 ls) @ replicate (length (concat mss)) 0)
      (Suc (length ls)) (map name_of mss)
    = Ret (map word_of_nat (offs_from 0 (ls @ concat mss)))"
  using assms
proof (induction mss arbitrary: ls)
  case (Cons ms mss)
  then show ?case
    using Cons.IH [of "ls @ ms"] concat_offsets_step [of ls ms "length (concat mss)" "map name_of mss"]
    by simp
qed simp

lemma fold_lengths:
  assumes "\<forall>ms \<in> set mss. length (wire_labels ms) \<le> 254" "n + length (wire_labels (concat mss)) < 2 ^ 63"
  shows "fold (\<lambda>s n. uadd n (usub (name_length s) 1)) (map name_of mss) n = n + length (wire_labels (concat mss))"
  using assms by (induction mss arbitrary: n) (auto simp: usub_small uadd_small)

lemma fold_counts:
  assumes "\<forall>ms \<in> set mss. length ms \<le> 127" "n + length (concat mss) < 2 ^ 63"
  shows "fold (\<lambda>s n. uadd n (usub (labelCount s) 1)) (map name_of mss) n = n + length (concat mss)"
  using assms by (induction mss arbitrary: n) (auto simp: usub_small uadd_small)

lemma valid_labels_concat:
  assumes "valid_labels ls" "\<forall>ms \<in> set mss. valid_labels ms"
  shows "valid_labels (ls @ concat mss) \<longleftrightarrow> length (wire_labels (ls @ concat mss)) \<le> 254"
  using assms by (auto simp: valid_labels_def)

lemma concat_totals:
  assumes v: "valid_labels ls" "\<forall>ms \<in> set mss. valid_labels ms" and len: "length mss < 2 ^ 32"
  shows "fold (\<lambda>s n. uadd n (usub (name_length s) 1)) (map name_of mss) (Suc (length (wire_labels ls)))
      = Suc (length (wire_labels (ls @ concat mss)))"
    and "fold (\<lambda>s n. uadd n (usub (labelCount s) 1)) (map name_of mss) (Suc (length ls))
      = Suc (length (ls @ concat mss))"
proof -
  have bound: "\<forall>ms \<in> set mss. f ms \<le> 254 \<Longrightarrow> sum_list (map f mss) \<le> 254 * length mss"
    for f :: "label list \<Rightarrow> nat"
    by (induction mss) auto
  have each: "\<forall>ms \<in> set mss. length (wire_labels ms) \<le> 254" "\<forall>ms \<in> set mss. length ms \<le> 127"
    using v(2) valid_labelsD(1) length_labels_le by blast+
  have "length (wire_labels (concat mss)) = sum_list (map (\<lambda>ms. length (wire_labels ms)) mss)"
    by (induction mss) simp_all
  then have b1: "length (wire_labels (concat mss)) \<le> 254 * length mss" using bound each(1) by simp
  have b2: "length (concat mss) \<le> 254 * length mss"
    using bound [of length] each(2) by (force simp: length_concat)
  have l: "length (wire_labels ls) \<le> 254" "length ls \<le> 127"
    using v(1) valid_labelsD(1) length_labels_le by blast+
  show "fold (\<lambda>s n. uadd n (usub (name_length s) 1)) (map name_of mss) (Suc (length (wire_labels ls)))
      = Suc (length (wire_labels (ls @ concat mss)))"
    using fold_lengths [OF each(1), of "Suc (length (wire_labels ls))"] b1 l len by simp
  show "fold (\<lambda>s n. uadd n (usub (labelCount s) 1)) (map name_of mss) (Suc (length ls))
      = Suc (length (ls @ concat mss))"
    using fold_counts [OF each(2), of "Suc (length ls)"] b2 l len by simp
qed

lemma Concat_fits:
  assumes v: "valid_labels ls" "\<forall>ms \<in> set mss. valid_labels ms" and len: "length mss < 2 ^ 32"
    and mss: "mss = nss @ [ms]" and root: "\<not> (length mss = 1 \<and> IsRoot (hd (map name_of mss)))"
    and va: "valid_labels (ls @ concat mss)"
  shows "Concat (name_of ls) (map name_of mss) = Ret (name_of (ls @ concat mss))"
proof -
  let ?all = "ls @ concat mss"
  let ?w = "length (wire_labels ls)" and ?n = "length (wire_labels (concat nss))"
  let ?m = "length (wire_labels ms)"
  have all: "length (wire_labels ?all) \<le> 254" "length ?all \<le> 127"
    using va valid_labelsD(1) length_labels_le by blast+
  have each: "\<forall>ms \<in> set nss. length (wire_labels ms) \<le> 254"
    using v(2) valid_labelsD(1) mss by auto
  have w: "length (wire_labels (concat mss)) = ?n + ?m" by (simp add: mss)
  have src: "gslice (wire ls) 0 ?w = (Ret (wire_labels ls) :: (g53_error, byte list) go)"
    using gslice_wire_middle [of ls 0 "length ls"] by simp
  have c0: "copy_at (replicate (Suc (?w + (?n + ?m))) 0) 0 (wire_labels ls)
      = (Ret (wire_labels ls @ replicate (Suc (?n + ?m)) 0) :: (g53_error, byte list) go)"
    using copy_at_zeros [of "wire_labels ls" "Suc (?w + (?n + ?m))" "[]" 0] by simp
  have c1: "concat_raw (wire_labels ls @ replicate (Suc (?n + ?m)) 0) ?w (map name_of nss)
      = Ret (wire_labels ls @ wire_labels (concat nss) @ replicate (Suc ?m) 0, ?w + ?n)"
    using concat_raw_name_of [OF each, of "wire_labels ls" "Suc ?m"] all w by simp
  have c2: "copy_at (wire_labels ls @ wire_labels (concat nss) @ replicate (Suc ?m) 0) (?w + ?n) (wire ms)
      = (Ret (wire ?all) :: (g53_error, byte list) go)"
    using copy_at_zeros [of "wire ms" "Suc ?m" "wire_labels ls @ wire_labels (concat nss)" 0]
    by (simp add: mss wire_def)
  have c3: "copy_at (replicate (Suc (length ls + length (concat mss))) 0) 0 (map word_of_nat (offs_from 0 ls))
      = (Ret (map word_of_nat (offs_from 0 ls) @ replicate (length (concat mss)) 0) :: (g53_error, byte list) go)"
    using copy_at_zeros [of "map word_of_nat (offs_from 0 ls)" "Suc (length ?all)" "[]" 0] by simp
  have c4: "concat_offsets (map word_of_nat (offs_from 0 ls) @ replicate (length (concat mss)) 0)
      (Suc (length ls)) (map name_of mss) = Ret (map word_of_nat (offs_from 0 ?all))"
    using all by (intro concat_offsets_name_of)
  have bl: "butlast (map name_of mss) = map name_of nss" "last (map name_of mss) = name_of ms" "mss \<noteq> []"
    by (simp_all add: mss)
  have root': "(length (map name_of mss) = 1 \<and> IsRoot (hd (map name_of mss))) = False"
    using root by (simp only: length_map)
  show ?thesis
    unfolding Concat_def Let_def root' if_False using all w
    by (simp add: concat_totals [OF v len, simplified] gmake_small src c0 c1 c2 c3 c4 bl usub_small
          name_of_def del: replicate.simps map_map)
qed

theorem Concat_labels:
  assumes v: "valid_labels ls" "\<forall>ms \<in> set mss. valid_labels ms" and ne: "mss \<noteq> []"
    and len: "length mss < 2 ^ 32"
  shows "Concat (name_of ls) (map name_of mss) =
    (if valid_labels (ls @ concat mss) then Ret (name_of (ls @ concat mss)) else Err ConcatTooLong)"
proof (cases "length mss = 1 \<and> IsRoot (hd (map name_of mss))")
  case True
  then have "mss = [[]]" by (cases mss) (auto simp: IsRoot_def)
  then show ?thesis using v by (simp add: Concat_def IsRoot_def)
next
  case False
  obtain nss ms where mss: "mss = nss @ [ms]" using ne by (metis append_butlast_last_id)
  show ?thesis
  proof (cases "valid_labels (ls @ concat mss)")
    case True
    then show ?thesis using Concat_fits [OF v len mss False] by simp
  next
    case long: False
    then have "254 < length (wire_labels (ls @ concat mss))"
      using v by (simp add: valid_labels_concat)
    then show ?thesis
      using False long concat_totals(1) [OF v len, simplified] by (simp add: Concat_def Let_def)
  qed
qed

section \<open>Equality and case folding\<close>

definition fold_case :: "label list \<Rightarrow> label list" where
  "fold_case ls = map (map maptolower) ls"

lemma fold_case_simps [simp]:
  "fold_case [] = []" "fold_case (l # ls) = map maptolower l # fold_case ls"
  "fold_case (ls @ ms) = fold_case ls @ fold_case ms" "length (fold_case ls) = length ls"
  "fold_case (rev ls) = rev (fold_case ls)" "fold_case (fold_case ls) = fold_case ls"
  by (simp_all add: fold_case_def rev_map comp_def)

lemma equal_chars_append:
  assumes "length a = length b" "length p1 = length p2"
  shows "equal_chars (p1 @ a @ q1) (p2 @ b @ q2) (length p1) (length a) = Ret (map maptolower a = map maptolower b)"
  using assms
proof (induction a b arbitrary: p1 p2 rule: list_induct2)
  case Nil
  then show ?case by simp
next
  case (Cons x xs y ys)
  have "equal_chars ((p1 @ [x]) @ xs @ q1) ((p2 @ [y]) @ ys @ q2) (length (p1 @ [x])) (length xs)
      = Ret (map maptolower xs = map maptolower ys)"
    using Cons.prems by (intro Cons.IH) simp
  then show ?case using Cons.prems by (simp add: idx_def nth_append)
qed

lemma equal_labels_wire:
  assumes "length ls = length ms" "length p1 = length p2"
    "\<forall>l \<in> set ls. length l \<le> 63" "\<forall>l \<in> set ms. length l \<le> 63"
  shows "equal_labels (p1 @ wire ls) (p2 @ wire ms) (length p1) (Suc (length ls)) = Ret (fold_case ls = fold_case ms)"
  using assms
proof (induction ls ms arbitrary: p1 p2 rule: list_induct2)
  case Nil
  then show ?case by (simp add: wire_def idx_def nth_append)
next
  case (Cons l ls m ms)
  have eq: "p1 @ wire (l # ls) = (p1 @ wire_label l) @ wire ls" "p2 @ wire (m # ms) = (p2 @ wire_label m) @ wire ms"
    by (simp_all add: wire_def)
  have hd: "idx (p1 @ wire (l # ls)) (length p1) = (Ret (word_of_nat (length l)) :: (g53_error, byte) go)"
    "idx (p2 @ wire (m # ms)) (length p1) = (Ret (word_of_nat (length m)) :: (g53_error, byte) go)"
    using Cons.prems by (simp_all add: idx_def wire_def wire_label_def nth_append)
  show ?case
  proof (cases "length l = length m")
    case False
    then have "(word_of_nat (length l) :: byte) \<noteq> word_of_nat (length m)"
      using Cons.prems by (simp add: word_of_nat_byte_eq_iff)
    moreover have "map maptolower l \<noteq> map maptolower m" using False by (metis length_map)
    ultimately show ?thesis using hd by simp
  next
    case True
    have ch: "equal_chars (p1 @ wire (l # ls)) (p2 @ wire (m # ms)) (Suc (length p1)) (length l)
        = Ret (map maptolower l = map maptolower m)"
      using equal_chars_append [OF True, of "p1 @ [word_of_nat (length l)]" "p2 @ [word_of_nat (length m)]" "wire ls" "wire ms"]
        Cons.prems by (simp add: wire_def wire_label_def)
    have "equal_labels ((p1 @ wire_label l) @ wire ls) ((p2 @ wire_label m) @ wire ms)
        (length (p1 @ wire_label l)) (Suc (length ls)) = Ret (fold_case ls = fold_case ms)"
      using Cons.prems True by (intro Cons.IH) auto
    then have rest: "equal_labels (p1 @ wire (l # ls)) (p2 @ wire (m # ms)) (Suc (length p1 + length l)) (Suc (length ls))
        = Ret (fold_case ls = fold_case ms)"
      by (simp add: eq)
    show ?thesis
      using hd ch rest Cons.prems True by (simp del: equal_labels.simps(2) add: equal_labels.simps(2) [of _ _ _ "Suc (length ls)"])
  qed
qed

lemma fold_case_eqD:
  assumes "fold_case ls = fold_case ms"
  shows "length ls = length ms" "length (wire_labels ls) = length (wire_labels ms)"
proof -
  have m: "map length ls = map length ms"
    using arg_cong [OF assms, of "map length"] by (simp add: fold_case_def comp_def)
  show "length ls = length ms" using arg_cong [OF m, of length] by simp
  with m show "length (wire_labels ls) = length (wire_labels ms)" by (simp add: length_wire_labels)
qed

theorem Equals_labels:
  assumes "valid_labels ls" "valid_labels ms"
  shows "Equals (name_of ls) (name_of ms) = Ret (fold_case ls = fold_case ms)"
proof (cases "length (wire_labels ls) = length (wire_labels ms) \<and> length ls = length ms")
  case True
  then show ?thesis
    using equal_labels_wire [of ls ms "[]" "[]"] assms by (simp add: Equals_def valid_labels_def)
next
  case False
  then show ?thesis using fold_case_eqD [of ls ms] by (auto simp: Equals_def)
qed

lemma downcase_chars_append:
  "downcase_chars (p @ a @ q) (length p) (length a) = Ret (p @ map maptolower a @ q)"
proof (induction a arbitrary: p)
  case Nil
  then show ?case by simp
next
  case (Cons x xs)
  have "downcase_chars ((p @ [maptolower x]) @ xs @ q) (length (p @ [maptolower x])) (length xs)
      = Ret ((p @ [maptolower x]) @ map maptolower xs @ q)"
    by (rule Cons.IH)
  then show ?case by (simp add: idx_def)
qed

lemma downcase_labels_wire:
  assumes "\<forall>l \<in> set ls. length l \<le> 63"
  shows "downcase_labels (p @ wire ls) (length p) (Suc (length ls)) = Ret (p @ wire (fold_case ls))"
  using assms
proof (induction ls arbitrary: p)
  case Nil
  then show ?case by (simp add: wire_def idx_def)
next
  case (Cons l ls)
  have hd: "idx (p @ wire (l # ls)) (length p) = (Ret (word_of_nat (length l)) :: (g53_error, byte) go)"
    by (simp add: idx_def wire_def wire_label_def nth_append)
  have ch: "downcase_chars (p @ wire (l # ls)) (Suc (length p)) (length l)
      = Ret ((p @ wire_label (map maptolower l)) @ wire ls)"
    using downcase_chars_append [of "p @ [word_of_nat (length l)]" l "wire ls"]
    by (simp add: wire_def wire_label_def)
  have "downcase_labels ((p @ wire_label (map maptolower l)) @ wire ls) (length (p @ wire_label (map maptolower l))) (Suc (length ls))
      = Ret ((p @ wire_label (map maptolower l)) @ wire (fold_case ls))"
    using Cons.prems by (intro Cons.IH) simp
  then show ?case
    using hd ch Cons.prems
    by (simp del: downcase_labels.simps(2) add: downcase_labels.simps(2) [of _ _ "Suc (length ls)"] wire_def)
qed

lemma length_wire_labels_fold_case [simp]: "length (wire_labels (fold_case ls)) = length (wire_labels ls)"
  by (simp add: length_wire_labels fold_case_def comp_def)

lemma offs_from_fold_case [simp]: "offs_from b (fold_case ls) = offs_from b ls"
  by (induction ls arbitrary: b) simp_all

lemma valid_labels_fold_case [simp]: "valid_labels (fold_case ls) \<longleftrightarrow> valid_labels ls"
  by (simp add: valid_labels_def length_wire_labels_fold_case) (simp add: fold_case_def)

theorem Downcase_labels:
  assumes "valid_labels ls"
  shows "Downcase (name_of ls) = Ret (name_of (fold_case ls))"
  using downcase_labels_wire [of ls "[]"] assms
  by (simp add: Downcase_def valid_labels_def name_of_def del: downcase_labels.simps)

section \<open>The hash respects equality\<close>

lemma hashRaw_from_cong:
  "map maptolower xs = map maptolower ys \<Longrightarrow> hashRaw_from h xs False = hashRaw_from h ys False"
proof (induction xs arbitrary: h ys)
  case (Cons x xs)
  then obtain y zs where ys: "ys = y # zs" "maptolower x = maptolower y" "map maptolower xs = map maptolower zs"
    by (cases ys) simp_all
  show ?case unfolding ys(1) hashRaw_from.simps ys(2) if_False by (rule Cons.IH [OF ys(3)])
qed simp

lemma map_maptolower_wire:
  assumes "\<forall>l \<in> set ls. length l \<le> 63"
  shows "map maptolower (wire ls) = wire (fold_case ls)"
  using assms by (induction ls) (auto simp: wire_def wire_label_def maptolower_small)

theorem Hash_fold_case:
  assumes "valid_labels ls" "valid_labels ms" "fold_case ls = fold_case ms"
  shows "Hash (name_of ls) False = Hash (name_of ms) False"
proof -
  have "map maptolower (wire ls) = map maptolower (wire ms)"
    using assms map_maptolower_wire by (simp add: valid_labels_def)
  then show ?thesis unfolding Hash_def hashRaw_def name_of_simps by (rule hashRaw_from_cong)
qed

section \<open>Comparison is the canonical order of domain names\<close>

definition case_key :: "bool \<Rightarrow> label list \<Rightarrow> label list" where
  "case_key caseSensitive ls = map (map (if caseSensitive then id else maptolower)) (rev ls)"

fun chars_diff :: "byte list \<Rightarrow> byte list \<Rightarrow> int option" where
  "chars_diff (x # xs) (y # ys) =
     (if x = y then chars_diff xs ys else Some (int (unat x) - int (unat y)))"
| "chars_diff _ _ = None"

fun labels_diff :: "int \<Rightarrow> nat \<Rightarrow> label list \<Rightarrow> label list \<Rightarrow> NameComparisonResult" where
  "labels_diff ldiff n (x # xs) (y # ys) =
     (case chars_diff x y of
        Some d \<Rightarrow> \<lparr>Order = d, CommonLabelCount = n, Relation = COMMONANCESTOR\<rparr>
      | None \<Rightarrow>
          if length x \<noteq> length y then
            \<lparr>Order = int (length x) - int (length y), CommonLabelCount = n,
             Relation = (if n = 0 then NONE else COMMONANCESTOR)\<rparr>
          else labels_diff ldiff (n + 1) xs ys)"
| "labels_diff ldiff n _ _ =
     \<lparr>Order = ldiff, CommonLabelCount = n,
      Relation = (if ldiff < 0 then SUPERDOMAIN else if ldiff > 0 then SUBDOMAIN else EQUAL)\<rparr>"

lemma compare_chars_eq:
  fixes cs :: bool
  defines "f \<equiv> (if cs then id else maptolower)"
  assumes "k \<le> length a" "k \<le> length b" "length p1 + k \<le> 255" "length p2 + k \<le> 255"
    and "unat ps1 = length p1" "unat ps2 = length p2"
  shows "compare_chars cs (p1 @ a @ q1) (p2 @ b @ q2) ps1 ps2 k
       = Ret (chars_diff (map f (take k a)) (map f (take k b)))"
  using assms(2-)
proof (induction k arbitrary: a b p1 p2 ps1 ps2)
  case 0
  then show ?case by simp
next
  case (Suc k)
  obtain x xs where a: "a = x # xs" using Suc.prems by (cases a) auto
  obtain y ys where b: "b = y # ys" using Suc.prems by (cases b) auto
  have "compare_chars cs ((p1 @ [x]) @ xs @ q1) ((p2 @ [y]) @ ys @ q2) (ps1 + 1) (ps2 + 1) k
      = Ret (chars_diff (map f (take k xs)) (map f (take k ys)))"
    using Suc.prems a b by (intro Suc.IH) (auto simp: unat_word_ariths)
  moreover have "(int (unat (f x)) - int (unat (f y)) \<noteq> 0) = (f x \<noteq> f y)"
    by (simp add: word_uint_eq_iff)
  ultimately show ?case
    using Suc.prems unfolding a b f_def
    by (cases cs; cases "x = y") (simp_all add: idx_def nth_append Let_def)
qed

lemma chars_diff_take:
  "chars_diff (take (min (length a) (length b)) a) (take (min (length a) (length b)) b) = chars_diff a b"
  by (induction a b rule: chars_diff.induct) auto

text \<open>The labels with the root at the end, as the offsets table has them.\<close>

lemma wire_rooted: "wire ls = wire_labels (ls @ [[]])"
  by (simp add: wire_def wire_label_def)

lemma rooted_at:
  assumes v: "valid_labels ls" and i: "i \<le> length ls"
  defines "L \<equiv> ls @ [[]]"
  defines "o' \<equiv> length (wire_labels (take i ls))"
  shows "wire ls = (wire_labels (take i ls) @ [word_of_nat (length (L ! i))]) @ L ! i @ wire_labels (drop (Suc i) L)"
    and "idx (offsets (name_of ls)) i = (Ret (word_of_nat o') :: (g53_error, byte) go)"
    and "idx (wire ls) o' = (Ret (word_of_nat (length (L ! i))) :: (g53_error, byte) go)"
    and "unat (word_of_nat o' + 1 :: byte) = o' + 1" "unat (word_of_nat o' :: byte) = o'"
    and "o' + 1 + length (L ! i) \<le> 255" "length (L ! i) \<le> 63"
proof -
  have L: "L = take i ls @ L ! i # drop (Suc i) L"
    using id_take_nth_drop [of i L] i by (simp add: L_def)
  then have "wire_labels L = wire_labels (take i ls @ L ! i # drop (Suc i) L)" by simp
  then show w: "wire ls = (wire_labels (take i ls) @ [word_of_nat (length (L ! i))]) @ L ! i @ wire_labels (drop (Suc i) L)"
    by (simp add: wire_rooted L_def [symmetric] wire_label_def)
  then have "length (wire ls) = o' + 1 + length (L ! i) + length (wire_labels (drop (Suc i) L))"
    by (simp add: o'_def)
  then show b: "o' + 1 + length (L ! i) \<le> 255"
    using v by (simp add: valid_labels_def)
  show "length (L ! i) \<le> 63"
    using v i by (cases "i < length ls") (auto simp: L_def nth_append valid_labels_def)
  show "idx (offsets (name_of ls)) i = (Ret (word_of_nat o') :: (g53_error, byte) go)"
    using i by (simp add: idx_offsets o'_def)
  show "idx (wire ls) o' = (Ret (word_of_nat (length (L ! i))) :: (g53_error, byte) go)"
    by (subst w) (simp add: idx_def o'_def nth_append)
  show "unat (word_of_nat o' :: byte) = o'" using b by simp
  show "unat (word_of_nat o' + 1 :: byte) = o' + 1"
    using b by (simp add: add.commute flip: of_nat_Suc)
qed

lemma compare_labels_eq:
  fixes cs :: bool
  defines "f \<equiv> (if cs then id else maptolower)"
  assumes v: "valid_labels ls" "valid_labels ms"
    and "l1 \<le> length ls + 1" "l2 \<le> length ms + 1" "k = min l1 l2"
  shows "compare_labels (name_of ls) (name_of ms) cs ldiff k l1 l2 n
    = Ret (labels_diff ldiff n (map (map f) (rev (take l1 (ls @ [[]])))) (map (map f) (rev (take l2 (ms @ [[]])))))"
  using assms(4-)
proof (induction k arbitrary: l1 l2 n)
  case 0
  then have "l1 = 0 \<or> l2 = 0" by auto
  then show ?case by (cases "l1 = 0") (auto split: list.splits intro: labels_diff.cases)
next
  case (Suc k)
  obtain i j where ij: "l1 = Suc i" "l2 = Suc j" "i \<le> length ls" "j \<le> length ms" "k = min i j"
    using Suc.prems by (cases l1; cases l2) auto
  let ?L = "ls @ [[]]" and ?M = "ms @ [[]]"
  note ri = rooted_at [OF v(1) ij(3)] and rj = rooted_at [OF v(2) ij(4)]
  have n: "length ls \<le> 127" "length ms \<le> 127" using v length_labels_le by blast+
  have sub: "usub l1 1 = i" "usub l2 1 = j" using ij n by (simp_all add: usub_small)
  let ?k = "min (length (?L ! i)) (length (?M ! j))"
  have ch: "compare_chars cs (wire ls) (wire ms) (word_of_nat (length (wire_labels (take i ls))) + 1)
      (word_of_nat (length (wire_labels (take j ms))) + 1) ?k
      = Ret (chars_diff (map f (?L ! i)) (map f (?M ! j)))"
  proof -
    have "compare_chars cs (wire ls) (wire ms) (word_of_nat (length (wire_labels (take i ls))) + 1)
        (word_of_nat (length (wire_labels (take j ms))) + 1) ?k
      = Ret (chars_diff (map f (take ?k (?L ! i))) (map f (take ?k (?M ! j))))"
      unfolding f_def
      by (subst ri(1), subst rj(1), rule compare_chars_eq) (use ri(4,6) rj(4,6) in simp_all)
    then show ?thesis
      using chars_diff_take [of "map f (?L ! i)" "map f (?M ! j)"] by (simp add: take_map)
  qed
  have tk: "rev (take l1 ?L) = ?L ! i # rev (take i ?L)" "rev (take l2 ?M) = ?M ! j # rev (take j ?M)"
    using ij take_Suc_conv_app_nth [of i ?L] take_Suc_conv_app_nth [of j ?M] by (simp_all del: take_append)
  have len: "unat (word_of_nat (length (?L ! i)) :: byte) = length (?L ! i)"
    "unat (word_of_nat (length (?M ! j)) :: byte) = length (?M ! j)"
    using ri(7) rj(7) by simp_all
  have IH: "compare_labels (name_of ls) (name_of ms) cs ldiff k i j (n + 1)
      = Ret (labels_diff ldiff (n + 1) (map (map f) (rev (take i ?L))) (map (map f) (rev (take j ?M))))"
    using ij by (intro Suc.IH) auto
  show ?case
    unfolding compare_labels.simps sub Let_def ri(2) rj(2) gbind.simps ri(5) rj(5) name_of_simps(1) ri(3) rj(3) len ch tk IH
    by (auto split: option.splits)
qed

lemma Compare_labels_diff:
  assumes v: "valid_labels ls" "valid_labels ms"
  shows "Compare (name_of ls) (name_of ms) cs
    = Ret (labels_diff (int (length ls) - int (length ms)) 1 (case_key cs ls) (case_key cs ms))"
proof -
  have "Compare (name_of ls) (name_of ms) cs
    = Ret (labels_diff (int (length ls) - int (length ms)) 0 ([] # case_key cs ls) ([] # case_key cs ms))"
    using compare_labels_eq [OF v, of "length ls + 1" "length ms + 1" "min (length ls + 1) (length ms + 1)" cs
        "int (length ls) - int (length ms)" 0]
    by (simp add: Compare_def case_key_def rev_map del: compare_labels.simps)
  then show ?thesis by simp
qed

text \<open>What the result of \<open>Compare\<close> means for the two label sequences, root first.\<close>

fun common :: "'a list \<Rightarrow> 'a list \<Rightarrow> nat" where
  "common (x # xs) (y # ys) = (if x = y then Suc (common xs ys) else 0)"
| "common _ _ = 0"

lemma Nil_less_iff: "[] < v \<longleftrightarrow> v \<noteq> []" for v :: "'a :: order list"
  by (cases v) auto

lemma chars_diff_less:
  "chars_diff x y = Some d \<Longrightarrow> d \<noteq> 0 \<and> (d < 0 \<longleftrightarrow> x < y) \<and> x \<noteq> y"
proof (induction x y rule: chars_diff.induct)
  case (1 x xs y ys)
  then show ?case
    by (cases "x = y") (auto simp: word_less_def word_uint_eq_iff)
qed auto

lemma chars_diff_None:
  "chars_diff x y = None \<Longrightarrow> (length x < length y \<longleftrightarrow> x < y) \<and> (length x = length y \<longleftrightarrow> x = y)"
proof (induction x y rule: chars_diff.induct)
  case (1 x xs y ys)
  then show ?case by (cases "x = y") auto
qed (auto simp: Nil_less_iff)

definition compares :: "label list \<Rightarrow> label list \<Rightarrow> NameComparisonResult \<Rightarrow> bool" where
  "compares k1 k2 r \<longleftrightarrow>
     (Order r < 0 \<longleftrightarrow> k1 < k2) \<and> (Order r = 0 \<longleftrightarrow> k1 = k2) \<and>
     CommonLabelCount r = common k1 k2 + 1 \<and>
     Relation r = (if k1 = k2 then EQUAL
                   else if common k1 k2 = length k2 then SUBDOMAIN
                   else if common k1 k2 = length k1 then SUPERDOMAIN
                   else COMMONANCESTOR)"

lemma common_le: "common xs ys \<le> length xs" "common xs ys \<le> length ys"
  by (induction xs ys rule: common.induct) auto

lemma labels_diff_compares_gen:
  assumes "ldiff = int (length k1) - int (length k2)" "0 < n" "r = labels_diff ldiff n k1 k2"
  shows "(Order r < 0 \<longleftrightarrow> k1 < k2) \<and> (Order r = 0 \<longleftrightarrow> k1 = k2) \<and>
     CommonLabelCount r = common k1 k2 + n \<and>
     Relation r = (if k1 = k2 then EQUAL
                   else if common k1 k2 = length k2 then SUBDOMAIN
                   else if common k1 k2 = length k1 then SUPERDOMAIN
                   else COMMONANCESTOR)"
  using assms
proof (induction ldiff n k1 k2 rule: labels_diff.induct)
  case (1 ldiff n x xs y ys)
  show ?case
  proof (cases "chars_diff x y")
    case (Some d)
    then have "d \<noteq> 0" "d < 0 \<longleftrightarrow> x < y" "x \<noteq> y" using chars_diff_less by blast+
    with Some "1.prems" show ?thesis by auto
  next
    case None
    note nd = chars_diff_None [OF None]
    show ?thesis
    proof (cases "length x = length y")
      case True
      then have xy: "x = y" using nd by simp
      have "labels_diff ldiff n (x # xs) (y # ys) = labels_diff ldiff (n + 1) xs ys"
        using None True by simp
      with "1.IH" [OF None] "1.prems" True xy show ?thesis by simp
    next
      case False
      then have "x \<noteq> y" "length x < length y \<longleftrightarrow> x < y" using nd by auto
      with None False "1.prems" show ?thesis by auto
    qed
  qed
qed (auto simp: Nil_less_iff)

theorem Compare_labels:
  assumes "valid_labels ls" "valid_labels ms"
  shows "\<exists>r. Compare (name_of ls) (name_of ms) cs = Ret r \<and> compares (case_key cs ls) (case_key cs ms) r"
proof -
  have "length (case_key cs ls) = length ls" "length (case_key cs ms) = length ms"
    by (simp_all add: case_key_def)
  then show ?thesis
    using Compare_labels_diff [OF assms, of cs] labels_diff_compares_gen [OF _ _ refl, of _ "case_key cs ls" "case_key cs ms" 1]
    by (simp add: compares_def)
qed

section \<open>The subdomain test\<close>

lemma subdomain_loop_eq:
  assumes "j \<le> n" "n < length pr" "length pr \<le> length r" "length r < 2 ^ 63"
    "d = length r - length pr"
  shows "subdomain_loop r pr (d + j) j
       = Ret (map maptolower (take j (drop 1 pr)) = map maptolower (take j (drop (d + 1) r)))"
  using assms
proof (induction j)
  case 0
  then show ?case by simp
next
  case (Suc j)
  have "take (Suc j) (drop 1 pr) = take j (drop 1 pr) @ [pr ! Suc j]"
    "take (Suc j) (drop (d + 1) r) = take j (drop (d + 1) r) @ [r ! (d + Suc j)]"
    using Suc.prems by (simp_all add: take_Suc_conv_app_nth)
  moreover have "usub (d + Suc j) 1 = d + j"
    using Suc.prems by (simp add: usub_small)
  ultimately show ?case
    using Suc.prems Suc.IH by (auto simp: idx_def)
qed

theorem IsSubDomain_raw:
  assumes v: "valid_labels ls" "valid_labels ms"
  shows "IsSubDomain (name_of ls) (name_of ms) =
    Ret (length (wire ms) \<le> length (wire ls) \<and> length ms \<le> length ls \<and>
         map maptolower (tl (wire ms)) = map maptolower (drop (length (wire ls) - length (wire ms) + 1) (wire ls)))"
proof (cases "length (wire ms) \<le> length (wire ls) \<and> length ms \<le> length ls")
  case True
  have le: "length (wire_labels ls) \<le> 254" by (rule valid_labelsD(1) [OF v(1)])
  let ?j = "length (wire_labels ms)" and ?d = "length (wire_labels ls) - length (wire_labels ms)"
  have "subdomain_loop (wire ls) (wire ms) (?d + ?j) ?j
       = Ret (map maptolower (take ?j (drop 1 (wire ms))) = map maptolower (take ?j (drop (?d + 1) (wire ls))))"
    using True le by (intro subdomain_loop_eq [where n = ?j]) auto
  then show ?thesis
    using True le by (simp add: IsSubDomain_def usub_small drop_Suc not_less)
next
  case False
  then show ?thesis by (auto simp: IsSubDomain_def)
qed

theorem IsSubDomain_complete:
  assumes v: "valid_labels (as @ ls)" "valid_labels ms" and eq: "fold_case ls = fold_case ms"
  shows "IsSubDomain (name_of (as @ ls)) (name_of ms) = Ret True"
proof -
  have vl: "valid_labels ls" using v(1) valid_labels_drop [of "as @ ls" "length as"] by simp
  have len: "length ls = length ms" "length (wire_labels ls) = length (wire_labels ms)"
    using fold_case_eqD [OF eq] by auto
  have "wire (as @ ls) = wire_labels as @ wire ls" by (simp add: wire_def)
  moreover have "map maptolower (wire ls) = map maptolower (wire ms)"
    using eq vl v(2) map_maptolower_wire by (simp add: valid_labels_def)
  moreover from this have "map maptolower (tl (wire ls)) = map maptolower (tl (wire ms))"
    by (metis map_tl)
  ultimately show ?thesis
    using IsSubDomain_raw [OF v] len by (simp add: drop_Suc)
qed

section \<open>References into a name\<close>

lemma Ref_Raw_labels:
  assumes v: "valid_labels ls" and i: "i \<le> length ls"
  shows "Ref_Raw \<lparr>inner = name_of ls, parentLevel = i\<rparr> = Ret (wire (drop i ls))"
  using i unat_offset [OF v, of i] gslice_wire_tail [OF i]
  by (simp add: Ref_Raw_def idx_offsets)

lemma Ref_Hash_labels:
  assumes v: "valid_labels ls" and i: "i \<le> length ls"
  shows "Ref_Hash \<lparr>inner = name_of ls, parentLevel = i\<rparr> cs = Ret (Hash (name_of (drop i ls)) cs)"
  using Ref_Raw_labels [OF v i] by (simp add: Ref_Hash_def Hash_def)

section \<open>Properties\<close>

text \<open>C9. \<open>Split\<close> cuts a run of labels: on a well-formed name, a non-empty range of its labels (the
  root counted) gives the well-formed name of exactly these labels, without a panic.\<close>

theorem Split_spec:
  assumes "wf_name n" "0 < c" "i + c \<le> labelCount n"
  shows "\<exists>m. Split n i c = Ret m \<and> wf_name m \<and> labels m = take c (drop i (labels n))"
  using assms(1)
proof (rule wf_nameE)
  fix ls assume "valid_labels ls" "n = name_of ls" "labels n = ls"
  then show ?thesis
    using assms Split_labels [of ls c i] valid_labels_take valid_labels_drop
    by (auto simp: wf_name_of labels_name_of)
qed

theorem Split_spec_witness:
  "\<exists>m. Split (name_of [[119, 119], [99]]) 1 1 = Ret m \<and> wf_name m \<and> labels m = [[99]]"
  using Split_spec [of "name_of [[119, 119], [99]]" 1 1]
  by (simp add: wf_name_def labels_name_of valid_labels_def wire_def)

text \<open>C8. \<open>Concat\<close> on well-formed names gives the name of all their labels in order when that
  name fits the wire limit of 255 bytes, and the error \<open>ConcatTooLong\<close> exactly when it does not;
  it never panics and never returns a malformed name.\<close>

theorem Concat_spec:
  assumes "wf_name n" "\<forall>m \<in> set ms. wf_name m" "ms \<noteq> []" "length ms < 2 ^ 32"
  shows "Concat n ms =
    (let ls = labels n @ concat (map labels ms)
     in if length (wire ls) \<le> MAX_WIRE then Ret (name_of ls) else Err ConcatTooLong)"
proof -
  let ?mss = "map labels ms"
  have n: "n = name_of (labels n)" "valid_labels (labels n)" using assms(1) by (auto simp: wf_name_def)
  have ms: "ms = map name_of ?mss" "\<forall>l \<in> set ?mss. valid_labels l"
    using assms(2) by (auto simp: wf_name_def comp_def intro!: nth_equalityI [symmetric])
  have "valid_labels (labels n @ concat ?mss) \<longleftrightarrow> length (wire (labels n @ concat ?mss)) \<le> MAX_WIRE"
    using n(2) ms(2) by (auto simp: valid_labels_def)
  moreover have "Concat (name_of (labels n)) (map name_of ?mss) =
    (if valid_labels (labels n @ concat ?mss) then Ret (name_of (labels n @ concat ?mss)) else Err ConcatTooLong)"
    using assms n(2) ms(2) by (intro Concat_labels) auto
  ultimately show ?thesis using n(1) ms(1) by (simp add: Let_def)
qed

theorem Concat_spec_witness:
  "Concat (name_of [[119]]) [name_of [[99]], name_of []] = Ret (name_of [[119], [99]])"
  using Concat_spec [of "name_of [[119]]" "[name_of [[99]], name_of []]"]
  by (simp add: wf_name_def labels_name_of valid_labels_def wire_def)

text \<open>C7. \<open>Compare\<close> is the canonical order of domain names (RFC 4034): on well-formed names it
  returns the sign of the lexicographic comparison of the reversed label lists (each label folded to
  lower case unless the comparison is case sensitive), the number of common labels counted from the
  root, and the relation (equal, subdomain, superdomain, common ancestor) these imply.\<close>

theorem Compare_spec:
  assumes "wf_name n" "wf_name m"
  shows "\<exists>r. Compare n m cs = Ret r \<and> compares (case_key cs (labels n)) (case_key cs (labels m)) r"
  using assms Compare_labels [of "labels n" "labels m" cs] by (auto simp: wf_name_def)

theorem Compare_spec_witness:
  "\<exists>r. Compare (name_of [[119], [99]]) (name_of [[67]]) False = Ret r \<and>
       compares [[99], [119]] [[99]] r"
  using Compare_spec [of "name_of [[119], [99]]" "name_of [[67]]" False]
  by (simp add: wf_name_def labels_name_of valid_labels_def wire_def case_key_def maptolower_def maptolower_table_def)

text \<open>C10. \<open>Equals\<close> decides equality of domain names up to the case of letters, it agrees with a
  zero \<open>Order\<close> of the case-insensitive \<open>Compare\<close>, and the case-insensitive \<open>Hash\<close> respects it.\<close>

theorem Equals_spec:
  assumes "wf_name n" "wf_name m"
  shows "Equals n m = Ret (fold_case (labels n) = fold_case (labels m)) \<and>
    (\<exists>r. Compare n m False = Ret r \<and> Equals n m = Ret (Order r = 0)) \<and>
    (Equals n m = Ret True \<longrightarrow> Hash n False = Hash m False)"
proof (intro conjI)
  have v: "valid_labels (labels n)" "valid_labels (labels m)" "name_of (labels n) = n" "name_of (labels m) = m"
    using assms by (auto simp: wf_name_def)
  show e: "Equals n m = Ret (fold_case (labels n) = fold_case (labels m))"
    using Equals_labels [OF v(1,2)] v(3,4) by simp
  have "case_key False (labels n) = case_key False (labels m) \<longleftrightarrow> fold_case (labels n) = fold_case (labels m)"
    by (simp add: case_key_def fold_case_def rev_map [symmetric])
  then show "\<exists>r. Compare n m False = Ret r \<and> Equals n m = Ret (Order r = 0)"
    using Compare_labels [OF v(1,2), of False] v(3,4) e by (auto simp: compares_def)
  show "Equals n m = Ret True \<longrightarrow> Hash n False = Hash m False"
    using Hash_fold_case [OF v(1,2)] v(3,4) e by auto
qed

theorem Equals_spec_witness:
  "Equals (name_of [[67]]) (name_of [[99]]) = Ret True \<and> Hash (name_of [[67]]) False = Hash (name_of [[99]]) False"
  using Equals_spec [of "name_of [[67]]" "name_of [[99]]"]
  by (simp add: wf_name_def labels_name_of valid_labels_def wire_def maptolower_def maptolower_table_def)

text \<open>C11. Taking a name apart is the inverse of putting it together: a name without its first or
  last \<open>i\<close> labels (\<open>StripLeft\<close>, \<open>StripRight\<close>), its reversal (\<open>Reverse\<close>) and its lower-case
  form (\<open>Downcase\<close>) are the well-formed names of the expected labels, and concatenating what
  \<open>StripRight\<close> and \<open>StripLeft\<close> leave gives the name back.\<close>

theorem Strip_spec:
  assumes "wf_name n" "i < labelCount n"
  shows "StripLeft n i = Ret (name_of (drop i (labels n))) \<and>
    StripRight n i = Ret (name_of (take (labelCount n - 1 - i) (labels n))) \<and>
    Reverse n = Ret (name_of (rev (labels n))) \<and>
    Downcase n = Ret (name_of (fold_case (labels n))) \<and>
    gbind (StripRight n (labelCount n - 1 - i)) (\<lambda>l. gbind (StripLeft n i) (\<lambda>r. Concat l [r])) = Ret n"
proof (intro conjI)
  have v: "valid_labels (labels n)" "name_of (labels n) = n" "labelCount n = length (labels n) + 1"
    using assms(1) by (auto elim: wf_nameE)
  have i: "i \<le> length (labels n)" using assms(2) v(3) by simp
  show l: "StripLeft n i = Ret (name_of (drop i (labels n)))"
    using StripLeft_labels [OF v(1) i] v(2) by simp
  have r: "StripRight n j = Ret (name_of (take (length (labels n) - j) (labels n)))" if "j \<le> length (labels n)" for j
    using StripRight_labels [OF v(1) that] v(2) by simp
  show "StripRight n i = Ret (name_of (take (labelCount n - 1 - i) (labels n)))"
    using r [OF i] v(3) by simp
  show "Reverse n = Ret (name_of (rev (labels n)))" using Reverse_labels [OF v(1)] v(2) by simp
  show "Downcase n = Ret (name_of (fold_case (labels n)))" using Downcase_labels [OF v(1)] v(2) by simp
  show "gbind (StripRight n (labelCount n - 1 - i)) (\<lambda>l. gbind (StripLeft n i) (\<lambda>r. Concat l [r])) = Ret n"
    using l r [of "labelCount n - 1 - i"] i v
      Concat_labels [of "take i (labels n)" "[drop i (labels n)]"] valid_labels_take valid_labels_drop
    by simp
qed

theorem Strip_spec_witness:
  "StripLeft (name_of [[119], [99]]) 1 = Ret (name_of [[99]]) \<and> StripRight (name_of [[119], [99]]) 1 = Ret (name_of [[119]])"
  using Strip_spec [of "name_of [[119], [99]]" 1]
  by (simp add: wf_name_def labels_name_of valid_labels_def wire_def)

text \<open>C12. \<open>IsSubDomain\<close> accepts every name below the parent (case ignored), and the labels a
  subdomain has over its parent are what \<open>Subtract\<close> returns.\<close>

theorem IsSubDomain_spec:
  assumes "wf_name n" "wf_name p" "fold_case (drop k (labels n)) = fold_case (labels p)" "0 < k" "k \<le> length (labels n)"
  shows "IsSubDomain n p = Ret True \<and> Subtract n (name_of (drop k (labels n))) = Ret (name_of (take k (labels n)))"
proof -
  have v: "valid_labels (take k (labels n) @ drop k (labels n))" "name_of (labels n) = n"
    "valid_labels (labels p)" "name_of (labels p) = p"
    using assms by (auto simp: wf_name_def)
  show ?thesis
    using IsSubDomain_complete [OF v(1,3) assms(3)] Subtract_labels [OF v(1)] v(2,4) assms(4,5) by fastforce
qed

theorem IsSubDomain_spec_witness:
  "IsSubDomain (name_of [[119], [99]]) (name_of [[67]]) = Ret True"
  using IsSubDomain_spec [of "name_of [[119], [99]]" "name_of [[67]]" 1]
  by (simp add: wf_name_def labels_name_of valid_labels_def wire_def maptolower_def maptolower_table_def)

text \<open>C18. \<open>IsSubDomain\<close> also accepts names that are not below the parent: the loop runs over the
  last bytes of the wire form but never compares the parent's first length byte, so a parent whose
  first label is the tail of a longer label is accepted (\<open>abc.com\<close> under \<open>bc.com\<close>), although
  \<open>Compare\<close> reports only a common ancestor.\<close>

theorem IsSubDomain_accepts_sibling:
  "wf_name (name_of [[97, 98, 99], [99, 111, 109]]) \<and> wf_name (name_of [[98, 99], [99, 111, 109]]) \<and>
   IsSubDomain (name_of [[97, 98, 99], [99, 111, 109]]) (name_of [[98, 99], [99, 111, 109]]) = Ret True \<and>
   (\<exists>r. Compare (name_of [[97, 98, 99], [99, 111, 109]]) (name_of [[98, 99], [99, 111, 109]]) False = Ret r
        \<and> Relation r = COMMONANCESTOR)"
proof (intro conjI)
  show wf: "wf_name (name_of [[97, 98, 99], [99, 111, 109]])" "wf_name (name_of [[98, 99], [99, 111, 109]])"
    by (simp_all add: wf_name_def labels_name_of valid_labels_def wire_def)
  then have v: "valid_labels [[97, 98, 99], [99, 111, 109]]" "valid_labels [[98, 99], [99, 111, 109]]"
    by (simp_all add: wf_name_def labels_name_of valid_labels_def wire_def)
  show "IsSubDomain (name_of [[97, 98, 99], [99, 111, 109]]) (name_of [[98, 99], [99, 111, 109]]) = Ret True"
    using IsSubDomain_raw [OF v] by (simp add: wire_def wire_label_def)
  show "\<exists>r. Compare (name_of [[97, 98, 99], [99, 111, 109]]) (name_of [[98, 99], [99, 111, 109]]) False = Ret r
        \<and> Relation r = COMMONANCESTOR"
    using Compare_labels [OF v, of False]
    by (auto simp: compares_def case_key_def maptolower_def maptolower_table_def)
qed

end
