(* ===== verification/Name_Wire.thy ===== *)
theory Name_Wire
  imports Name
begin

unbundle bit_operations_syntax

text \<open>
  \<open>NameFromWire\<close> of \<open>src/g53/name.go\<close>: the decoder of domain names with compression pointers.

  The loop of the code is \<open>fw_loop\<close> over the record of its local variables; it is a total
  function because every pointer it follows is strictly below the previous one
  (\<open>biggestPointer\<close>) and every other iteration moves the cursor forward. \<open>name_at\<close> says, as an
  inductive relation on the bytes, what a compressed name denotes, and the decoder is shown to
  return exactly the names it describes, leaving the cursor behind the part stored in place.
\<close>

section \<open>The decoder\<close>

datatype fwState = fwStart | fwOrdinary | fwNewCurrent

record wire_state =
  fw_n :: nat
  fw_nused :: nat
  fw_done :: bool
  fw_offsets :: "byte list"
  fw_raw :: "byte list"
  fw_seenPointer :: bool
  fw_state :: fwState
  fw_cused :: nat
  fw_current :: nat
  fw_biggestPointer :: nat
  fw_newCurrent :: nat
  fw_buf :: InputBuffer

definition SetPosition_ignore :: "InputBuffer \<Rightarrow> nat \<Rightarrow> InputBuffer" where
  "SetPosition_ignore buf p = (case SetPosition buf p of Ret b \<Rightarrow> b | _ \<Rightarrow> buf)"

text \<open>One iteration of the loop, after its condition has been found true.\<close>

definition fw_step :: "bool \<Rightarrow> wire_state \<Rightarrow> (g53_error, wire_state) go" where
  "fw_step downcase s =
     gbind (drop_err 0 (fw_buf s) (ReadUint8 (fw_buf s))) (\<lambda>(c, buf).
     let s = s\<lparr>fw_buf := buf, fw_current := fw_current s + 1\<rparr>;
         s = (if \<not> fw_seenPointer s then s\<lparr>fw_cused := fw_cused s + 1\<rparr> else s)
     in case fw_state s of
       fwStart \<Rightarrow>
         if unat c \<le> MAX_LABEL_LEN then
           let s = s\<lparr>fw_offsets := fw_offsets s @ [word_of_nat (fw_nused s)]\<rparr> in
           if fw_nused s + unat c + 1 > MAX_WIRE then Err TooLongName
           else Ret (s\<lparr>fw_nused := fw_nused s + unat c + 1, fw_raw := fw_raw s @ [c],
                       fw_done := (if c = 0 then True else fw_done s),
                       fw_n := unat c, fw_state := fwOrdinary\<rparr>)
         else if c AND 0xc0 = 0xc0 then
           Ret (s\<lparr>fw_newCurrent := unat (c AND NOT 0xc0), fw_n := 1, fw_state := fwNewCurrent\<rparr>)
         else Err UnknownLabelCharacter
     | fwOrdinary \<Rightarrow>
         let c = (if downcase then maptolower c else c);
             s = s\<lparr>fw_raw := fw_raw s @ [c], fw_n := usub (fw_n s) 1\<rparr>
         in Ret (if fw_n s = 0 then s\<lparr>fw_state := fwStart\<rparr> else s)
     | fwNewCurrent \<Rightarrow>
         let s = s\<lparr>fw_newCurrent := fw_newCurrent s * 256 + unat c, fw_n := usub (fw_n s) 1\<rparr> in
         if fw_n s \<noteq> 0 then Ret s
         else if fw_newCurrent s \<ge> fw_biggestPointer s then Err BadCompressionPointer
         else Ret (s\<lparr>fw_biggestPointer := fw_newCurrent s, fw_current := fw_newCurrent s,
                     fw_buf := SetPosition_ignore (fw_buf s) (fw_newCurrent s),
                     fw_seenPointer := True, fw_state := fwStart\<rparr>))"

lemma drop_err_ReadUint8:
  "drop_err 0 buf (ReadUint8 buf) = Ret (c, buf') \<Longrightarrow> datalen buf' = datalen buf \<and> data buf' = data buf"
  by (auto simp: drop_err_def ReadUint8_def idx_def split: go.splits if_splits)

lemma fw_step_shrinks:
  assumes "fw_step downcase s = Ret s'" "fw_current s < datalen (fw_buf s)"
  shows "datalen (fw_buf s') = datalen (fw_buf s)"
    and "fw_biggestPointer s' < fw_biggestPointer s \<or>
         fw_biggestPointer s' = fw_biggestPointer s \<and> fw_current s' = fw_current s + 1"
proof -
  obtain c buf where rd: "drop_err 0 (fw_buf s) (ReadUint8 (fw_buf s)) = Ret (c, buf)"
    using assms(1) by (auto simp: fw_step_def gbind_eq_Ret_iff)
  note d = drop_err_ReadUint8 [OF rd]
  have sp: "datalen (SetPosition_ignore buf p) = datalen buf" for p
    by (simp add: SetPosition_ignore_def SetPosition_def)
  show "datalen (fw_buf s') = datalen (fw_buf s)"
    and "fw_biggestPointer s' < fw_biggestPointer s \<or>
         fw_biggestPointer s' = fw_biggestPointer s \<and> fw_current s' = fw_current s + 1"
    using assms(1) rd d sp
    by (auto simp: fw_step_def Let_def split: fwState.splits if_splits)
qed

function fw_loop :: "bool \<Rightarrow> wire_state \<Rightarrow> (g53_error, wire_state) go" where
  "fw_loop downcase s =
     (if fw_current s < datalen (fw_buf s) \<and> \<not> fw_done s
      then gbind (fw_step downcase s) (\<lambda>s. fw_loop downcase s)
      else Ret s)"
  by pat_completeness auto
termination
proof (relation "measures [\<lambda>(_, s). fw_biggestPointer s, \<lambda>(_, s). datalen (fw_buf s) - fw_current s]", goal_cases)
  case 1
  then show ?case by simp
next
  case (2 downcase s s')
  then show ?case using fw_step_shrinks [of downcase s s'] by auto
qed

declare fw_loop.simps [simp del]

definition NameFromWire :: "InputBuffer \<Rightarrow> bool \<Rightarrow> (g53_error, Name \<times> InputBuffer) go" where
  "NameFromWire buf downcase =
     (let posBegin = pos buf in
      gbind (fw_loop downcase
              \<lparr>fw_n = 0, fw_nused = 0, fw_done = False, fw_offsets = [], fw_raw = [],
               fw_seenPointer = False, fw_state = fwStart, fw_cused = 0, fw_current = posBegin,
               fw_biggestPointer = posBegin, fw_newCurrent = 0, fw_buf = buf\<rparr>) (\<lambda>s.
      if \<not> fw_done s then Err IncompleteWire
      else Ret (\<lparr>raw = fw_raw s, offsets = fw_offsets s, name_length = length (fw_raw s),
                 labelCount = length (fw_offsets s)\<rparr>,
                SetPosition_ignore (fw_buf s) (posBegin + fw_cused s))))"


section \<open>What a compressed name denotes\<close>

text \<open>
  \<open>name_at ds lim p ls nx\<close>: in the message \<open>ds\<close>, the name starting at \<open>p\<close> has the labels \<open>ls\<close>,
  its first pointer (if any) aims below \<open>lim\<close>, every further one below the one before, and the
  part stored at \<open>p\<close> itself ends in front of \<open>nx\<close>.
\<close>

definition pointer_target :: "byte \<Rightarrow> byte \<Rightarrow> nat" where
  "pointer_target c b = unat (c AND NOT 0xc0) * 256 + unat b"

inductive name_at :: "byte list \<Rightarrow> nat \<Rightarrow> nat \<Rightarrow> label list \<Rightarrow> nat \<Rightarrow> bool" for ds where
  root: "drop p ds = 0 # rest \<Longrightarrow> name_at ds lim p [] (Suc p)"
| label: "drop p ds = wire_label l @ rest \<Longrightarrow> l \<noteq> [] \<Longrightarrow> length l \<le> MAX_LABEL_LEN \<Longrightarrow>
    name_at ds lim (Suc (p + length l)) ls nx \<Longrightarrow> name_at ds lim p (l # ls) nx"
| pointer: "drop p ds = c # b # rest \<Longrightarrow> c AND 0xc0 = 0xc0 \<Longrightarrow>
    q = pointer_target c b \<Longrightarrow> q < lim \<Longrightarrow>
    name_at ds q q ls nx \<Longrightarrow> name_at ds lim p ls (Suc (Suc p))"

lemma name_at_lim_mono: "name_at ds lim p ls nx \<Longrightarrow> lim \<le> lim' \<Longrightarrow> name_at ds lim' p ls nx"
  by (induction arbitrary: lim' rule: name_at.induct) (auto intro: name_at.intros dest: less_le_trans)

lemma drop_append_eqI: "drop p ds = y # ys \<Longrightarrow> drop p (ds @ xs) = y # ys @ xs"
  by (metis append_Cons drop_append drop_all drop_eq_Nil diff_is_0_eq' drop0 linorder_linear list.distinct(1))

lemma name_at_append: "name_at ds lim p ls nx \<Longrightarrow> name_at (ds @ xs) lim p ls nx"
proof (induction rule: name_at.induct)
  case (label p l rest lim ls nx)
  then show ?case
    using drop_append_eqI [of p ds] by (auto intro!: name_at.label simp: wire_label_def)
qed (auto intro: name_at.intros drop_append_eqI)

lemma name_at_labels:
  assumes "name_at ds lim p ls nx"
  shows "\<forall>l \<in> set ls. l \<noteq> [] \<and> length l \<le> MAX_LABEL_LEN"
  using assms by induction auto

lemma drop_eq_ConsD:
  assumes "drop p ds = c # rest"
  shows "p < length ds" "ds ! p = c" "drop (Suc p) ds = rest"
proof -
  show p: "p < length ds" using assms by (metis drop_all list.distinct(1) not_less)
  show "ds ! p = c" "drop (Suc p) ds = rest"
    using assms Cons_nth_drop_Suc [OF p] by auto
qed

section \<open>The decoder on one label\<close>

text \<open>A buffer over the message \<open>ds\<close> with the cursor at \<open>p\<close>.\<close>

definition buf_at :: "byte list \<Rightarrow> nat \<Rightarrow> InputBuffer" where
  "buf_at ds p = \<lparr>pos = p, data = ds, datalen = length ds\<rparr>"

lemma buf_at_simps [simp]:
  "pos (buf_at ds p) = p" "data (buf_at ds p) = ds" "datalen (buf_at ds p) = length ds"
  by (simp_all add: buf_at_def)

lemma buf_at_input: "input pre post = buf_at (pre @ post) (length pre)"
  by (simp add: buf_at_def input_def)

lemma ReadUint8_buf_at:
  "drop p ds = c # rest \<Longrightarrow> length ds < 2 ^ 63 \<Longrightarrow>
   ReadUint8 (buf_at ds p) = Ret (c, buf_at ds (Suc p))"
  using drop_eq_ConsD [of p ds c rest]
  by (simp add: ReadUint8_def uadd_small idx_def buf_at_def)

lemma SetPosition_buf_at: "q \<le> length ds \<Longrightarrow> SetPosition_ignore (buf_at ds p) q = buf_at ds q"
  by (simp add: SetPosition_ignore_def SetPosition_def buf_at_def)

text \<open>The loop's variables when it is about to read byte \<open>p\<close>.\<close>

definition reading :: "byte list \<Rightarrow> nat \<Rightarrow> wire_state \<Rightarrow> bool" where
  "reading ds p s \<longleftrightarrow> fw_current s = p \<and> fw_buf s = buf_at ds p \<and> \<not> fw_done s \<and> length ds < 2 ^ 63"

definition moved :: "byte list \<Rightarrow> nat \<Rightarrow> wire_state \<Rightarrow> wire_state" where
  "moved ds k s = s\<lparr>fw_current := fw_current s + k, fw_buf := buf_at ds (fw_current s + k),
                    fw_cused := (if fw_seenPointer s then fw_cused s else fw_cused s + k)\<rparr>"

lemma moved_simps [simp]:
  "fw_n (moved ds k s) = fw_n s" "fw_nused (moved ds k s) = fw_nused s"
  "fw_done (moved ds k s) = fw_done s" "fw_offsets (moved ds k s) = fw_offsets s"
  "fw_raw (moved ds k s) = fw_raw s" "fw_seenPointer (moved ds k s) = fw_seenPointer s"
  "fw_state (moved ds k s) = fw_state s" "fw_biggestPointer (moved ds k s) = fw_biggestPointer s"
  "fw_newCurrent (moved ds k s) = fw_newCurrent s" "fw_current (moved ds k s) = fw_current s + k"
  "fw_buf (moved ds k s) = buf_at ds (fw_current s + k)"
  "fw_cused (moved ds k s) = (if fw_seenPointer s then fw_cused s else fw_cused s + k)"
  by (simp_all add: moved_def)

lemma fw_step_start:
  assumes "reading ds p s" "drop p ds = c # rest" "fw_state s = fwStart"
  shows "unat c \<le> 63 \<Longrightarrow> fw_nused s + unat c \<le> 254 \<Longrightarrow>
      fw_step d s = Ret ((moved ds 1 s)\<lparr>fw_offsets := fw_offsets s @ [word_of_nat (fw_nused s)],
        fw_nused := fw_nused s + unat c + 1, fw_raw := fw_raw s @ [c], fw_done := (c = 0),
        fw_n := unat c, fw_state := fwOrdinary\<rparr>)"
    and "unat c \<le> 63 \<Longrightarrow> 254 < fw_nused s + unat c \<Longrightarrow> fw_step d s = Err TooLongName"
    and "63 < unat c \<Longrightarrow> c AND 0xc0 = 0xc0 \<Longrightarrow>
      fw_step d s = Ret ((moved ds 1 s)\<lparr>fw_newCurrent := unat (c AND NOT 0xc0), fw_n := 1,
        fw_state := fwNewCurrent\<rparr>)"
    and "63 < unat c \<Longrightarrow> c AND 0xc0 \<noteq> 0xc0 \<Longrightarrow> fw_step d s = Err UnknownLabelCharacter"
  using assms ReadUint8_buf_at [OF assms(2)]
  by (simp_all add: fw_step_def reading_def drop_err_def Let_def moved_def)

lemma fw_step_ordinary:
  assumes "reading ds p s" "drop p ds = c # rest" "fw_state s = fwOrdinary" "0 < fw_n s" "fw_n s \<le> 63"
  shows "fw_step d s = Ret ((moved ds 1 s)\<lparr>fw_raw := fw_raw s @ [if d then maptolower c else c],
           fw_n := fw_n s - 1, fw_state := (if fw_n s = 1 then fwStart else fwOrdinary)\<rparr>)"
  using assms ReadUint8_buf_at [OF assms(2)]
  by (cases s) (auto simp add: fw_step_def reading_def drop_err_def Let_def moved_def usub_small)

lemma fw_step_pointer:
  assumes "reading ds p s" "drop p ds = b # rest" "fw_state s = fwNewCurrent" "fw_n s = 1"
  defines "q \<equiv> fw_newCurrent s * 256 + unat b"
  shows "fw_biggestPointer s \<le> q \<Longrightarrow> fw_step d s = Err BadCompressionPointer"
    and "q < fw_biggestPointer s \<Longrightarrow> fw_biggestPointer s \<le> length ds \<Longrightarrow>
      fw_step d s = Ret ((moved ds 1 s)\<lparr>fw_newCurrent := q, fw_n := 0, fw_biggestPointer := q,
        fw_current := q, fw_buf := buf_at ds q, fw_seenPointer := True, fw_state := fwStart\<rparr>)"
  using assms ReadUint8_buf_at [OF assms(2)] SetPosition_buf_at [of q ds "Suc p"]
  by (simp_all add: fw_step_def reading_def drop_err_def Let_def moved_def usub_small)

lemma fw_loop_reading:
  "reading ds p s \<Longrightarrow> p < length ds \<Longrightarrow> fw_loop d s = gbind (fw_step d s) (\<lambda>s. fw_loop d s)"
  "reading ds p s \<Longrightarrow> length ds \<le> p \<Longrightarrow> fw_loop d s = Ret s"
  by (subst fw_loop.simps; simp add: reading_def)+

lemma fw_loop_ordinary:
  assumes "reading ds p s" "drop p ds = xs @ rest" "fw_state s = fwOrdinary" "fw_n s = length xs"
    "xs \<noteq> []" "length xs \<le> 63"
  shows "fw_loop d s = fw_loop d ((moved ds (length xs) s)\<lparr>
           fw_raw := fw_raw s @ map (if d then maptolower else id) xs, fw_n := 0, fw_state := fwStart\<rparr>)"
  using assms
proof (induction xs arbitrary: s p)
  case (Cons x xs)
  note st = fw_step_ordinary [OF Cons.prems(1) _ Cons.prems(3), of x "xs @ rest" d]
  have dr: "drop p ds = x # xs @ rest" "p < length ds" "drop (Suc p) ds = xs @ rest"
    using Cons.prems(2) drop_eq_ConsD [of p ds x "xs @ rest"] by auto
  let ?s = "(moved ds 1 s)\<lparr>fw_raw := fw_raw s @ [if d then maptolower x else x], fw_n := length xs,
              fw_state := (if xs = [] then fwStart else fwOrdinary)\<rparr>"
  have one: "fw_loop d s = fw_loop d ?s"
    using Cons.prems st dr by (simp add: fw_loop_reading)
  show ?case
  proof (cases "xs = []")
    case True
    then show ?thesis using one by (simp add: moved_def)
  next
    case False
    have "reading ds (Suc p) ?s" using Cons.prems(1) by (simp add: reading_def)
    from Cons.IH [OF this dr(3)] False Cons.prems one show ?thesis
      by (simp add: moved_def reading_def)
  qed
qed simp

lemma fw_loop_ordinary_short:
  assumes "reading ds p s" "fw_state s = fwOrdinary" "length ds - p < fw_n s" "fw_n s \<le> 63" 
  shows "\<exists>s'. fw_loop d s = Ret s' \<and> \<not> fw_done s'"
  using assms
proof (induction "length ds - p" arbitrary: s p)
  case 0
  then show ?case by (auto simp: fw_loop_reading(2) reading_def)
next
  case (Suc k)
  then have p: "p < length ds" by simp
  then have dr: "drop p ds = ds ! p # drop (Suc p) ds" by (simp add: Cons_nth_drop_Suc)
  note st = fw_step_ordinary [OF Suc.prems(1) dr Suc.prems(2), of d]
  let ?s = "(moved ds 1 s)\<lparr>fw_raw := fw_raw s @ [if d then maptolower (ds ! p) else ds ! p], fw_n := fw_n s - 1,
              fw_state := fwOrdinary\<rparr>"
  have "fw_loop d s = fw_loop d ?s"
    using Suc.prems Suc.hyps st p by (simp add: fw_loop_reading)
  moreover have "reading ds (Suc p) ?s" using Suc.prems(1) by (simp add: reading_def)
  ultimately show ?case using Suc.hyps(1) [of "Suc p" ?s] Suc.hyps(2) Suc.prems by simp
qed

section \<open>The decoder follows the denotation\<close>

definition cased :: "bool \<Rightarrow> label list \<Rightarrow> label list" where
  "cased downcase ls = (if downcase then fold_case ls else ls)"

lemma cased_simps [simp]:
  "cased d [] = []" "cased d (l # ls) = map (if d then maptolower else id) l # cased d ls"
  "cased False ls = ls" "length (wire_labels (cased d ls)) = length (wire_labels ls)"
  by (simp_all add: cased_def length_wire_labels_fold_case)

definition at_start :: "byte list \<Rightarrow> nat \<Rightarrow> label list \<Rightarrow> wire_state \<Rightarrow> bool" where
  "at_start ds p acc s \<longleftrightarrow> reading ds p s \<and> fw_state s = fwStart \<and> fw_raw s = wire_labels acc \<and>
     fw_offsets s = map word_of_nat (butlast (offs_from 0 acc)) \<and>
     fw_nused s = length (wire_labels acc) \<and> fw_biggestPointer s \<le> length ds"

definition finished :: "byte list \<Rightarrow> label list \<Rightarrow> wire_state \<Rightarrow> bool" where
  "finished ds ls s \<longleftrightarrow> fw_done s \<and> fw_raw s = wire ls \<and>
     fw_offsets s = map word_of_nat (offs_from 0 ls) \<and> (\<exists>p. fw_buf s = buf_at ds p)"

lemma pointer_byte: "c AND 0xc0 = 0xc0 \<Longrightarrow> 63 < unat (c :: byte)"
  using word_and_le1 [of c "0xc0"] word_and_le2 [of c "0xc0"] by (auto simp: word_le_nat_alt)

lemma butlast_offs_from_snoc:
  "butlast (offs_from b (ls @ [l])) = butlast (offs_from b ls) @ [b + length (wire_labels ls)]"
  by (induction ls arbitrary: b) (auto simp: add.assoc)

lemma fw_loop_root:
  assumes "at_start ds p acc s" "drop p ds = 0 # rest" "length (wire_labels acc) \<le> 254"
  shows "\<exists>s'. fw_loop d s = Ret s' \<and> finished ds acc s' \<and>
           fw_cused s' = (if fw_seenPointer s then fw_cused s else Suc (fw_cused s))"
proof -
  have r: "reading ds p s" and p: "p < length ds"
    using assms(1) drop_eq_ConsD [OF assms(2)] by (auto simp: at_start_def)
  note st = fw_step_start(1) [OF r assms(2), of d]
  show ?thesis
    using assms p st fw_loop_reading(1) [OF r p, of d] map_offs_from_snoc [of word_of_nat 0 acc]
    by (auto simp: at_start_def finished_def wire_def map_butlast fw_loop.simps
        [of d "(moved ds (Suc 0) s)\<lparr>fw_offsets := _, fw_nused := _, fw_raw := _, fw_done := True, fw_n := _, fw_state := _\<rparr>"])
qed

lemma fw_loop_label:
  assumes s: "at_start ds p acc s" and dr: "drop p ds = wire_label l @ rest"
    and l: "l \<noteq> []" "length l \<le> 63" "length (wire_labels acc) + length l \<le> 254"
  shows "\<exists>s'. fw_loop d s = fw_loop d s' \<and> at_start ds (Suc (p + length l)) (acc @ cased d [l]) s' \<and>
           fw_biggestPointer s' = fw_biggestPointer s \<and> fw_seenPointer s' = fw_seenPointer s \<and>
           fw_cused s' = (if fw_seenPointer s then fw_cused s else fw_cused s + length l + 1)"
proof -
  have r: "reading ds p s" using s by (simp add: at_start_def)
  have dr': "drop p ds = word_of_nat (length l) # l @ rest" using dr by (simp add: wire_label_def)
  note p = drop_eq_ConsD [OF dr']
  have c: "unat (word_of_nat (length l) :: byte) = length l" "word_of_nat (length l) \<noteq> (0 :: byte)"
    using l by (simp_all add: word_of_nat_byte_eq_0_iff)
  let ?s = "(moved ds 1 s)\<lparr>fw_offsets := fw_offsets s @ [word_of_nat (fw_nused s)],
        fw_nused := fw_nused s + length l + 1, fw_raw := fw_raw s @ [word_of_nat (length l)],
        fw_done := False, fw_n := length l, fw_state := fwOrdinary\<rparr>"
  have one: "fw_loop d s = fw_loop d ?s"
    using fw_step_start(1) [OF r dr', of d] fw_loop_reading(1) [OF r p(1), of d] s l c
    by (simp add: at_start_def)
  have rs: "reading ds (Suc p) ?s" using r by (simp add: reading_def)
  let ?s2 = "(moved ds (length l) ?s)\<lparr>fw_raw := fw_raw ?s @ map (if d then maptolower else id) l,
      fw_n := 0, fw_state := fwStart\<rparr>"
  have "fw_loop d ?s = fw_loop d ?s2"
    using fw_loop_ordinary [OF rs p(3), of d] l by simp
  with one have "fw_loop d s = fw_loop d ?s2" by (rule trans)
  moreover have "at_start ds (Suc (p + length l)) (acc @ cased d [l]) ?s2"
    using s l p(1) r
    by (auto simp: at_start_def reading_def butlast_offs_from_snoc wire_label_def map_butlast)
  ultimately show ?thesis by (intro exI [of _ ?s2]) simp
qed

lemma fw_loop_jump:
  assumes s: "at_start ds p acc s" and dr: "drop p ds = c # b # rest" and c: "c AND 0xc0 = 0xc0"
  defines "q \<equiv> pointer_target c b"
  shows "fw_biggestPointer s \<le> q \<Longrightarrow> fw_loop d s = Err BadCompressionPointer"
    and "q < fw_biggestPointer s \<Longrightarrow> \<exists>s'. fw_loop d s = fw_loop d s' \<and> at_start ds q acc s' \<and>
       fw_biggestPointer s' = q \<and> fw_seenPointer s' \<and>
       fw_cused s' = (if fw_seenPointer s then fw_cused s else fw_cused s + 2)"
proof -
  have r: "reading ds p s" using s by (simp add: at_start_def)
  note p = drop_eq_ConsD [OF dr] and p' = drop_eq_ConsD [OF drop_eq_ConsD(3) [OF dr]]
  let ?s = "(moved ds 1 s)\<lparr>fw_newCurrent := unat (c AND NOT 0xc0), fw_n := 1, fw_state := fwNewCurrent\<rparr>"
  have one: "fw_loop d s = fw_loop d ?s"
    using fw_step_start(3) [OF r dr, of d] fw_loop_reading(1) [OF r p(1), of d] s c pointer_byte [OF c]
    by (simp add: at_start_def)
  have r': "reading ds (Suc p) ?s" using r by (simp add: reading_def)
  note st = fw_step_pointer [OF r' p(3), of d] and lp = fw_loop_reading(1) [OF r' p'(1), of d]
  show "fw_biggestPointer s \<le> q \<Longrightarrow> fw_loop d s = Err BadCompressionPointer"
    using one st lp by (simp add: q_def pointer_target_def)
  assume "q < fw_biggestPointer s"
  with one st lp s show "\<exists>s'. fw_loop d s = fw_loop d s' \<and> at_start ds q acc s' \<and>
       fw_biggestPointer s' = q \<and> fw_seenPointer s' \<and>
       fw_cused s' = (if fw_seenPointer s then fw_cused s else fw_cused s + 2)"
    by (intro exI [of _ "(moved ds 1 ?s)\<lparr>fw_newCurrent := q, fw_n := 0, fw_biggestPointer := q,
        fw_current := q, fw_buf := buf_at ds q, fw_seenPointer := True, fw_state := fwStart\<rparr>"])
      (auto simp: at_start_def reading_def q_def pointer_target_def)
qed

lemma fw_loop_stops:
  assumes s: "at_start ds p acc s" and stop: "length ds \<le> p \<or> (\<exists>c. drop p ds = [c] \<and> c AND 0xc0 = 0xc0)
    \<or> (\<exists>c rest. drop p ds = c # rest \<and> 0 < unat c \<and> unat c \<le> 63 \<and> length rest < unat c \<and> 
         length (wire_labels acc) + unat c \<le> 254)"
  shows "\<exists>s'. fw_loop d s = Ret s' \<and> \<not> fw_done s'"
proof -
  have r: "reading ds p s" using s by (simp add: at_start_def)
  from stop show ?thesis
  proof (elim disjE exE conjE)
    assume "length ds \<le> p"
    then show ?thesis using r fw_loop_reading(2) [OF r] by (auto simp: reading_def)
  next
    fix c assume c: "drop p ds = [c]" "c AND 0xc0 = 0xc0"
    note p = drop_eq_ConsD [OF c(1)]
    have "fw_loop d s = fw_loop d ((moved ds 1 s)\<lparr>fw_newCurrent := unat (c AND NOT 0xc0), fw_n := 1,
        fw_state := fwNewCurrent\<rparr>)" (is "_ = fw_loop d ?s")
      using fw_step_start(3) [OF r c(1), of d] fw_loop_reading(1) [OF r p(1), of d] s c pointer_byte
      by (simp add: at_start_def)
    moreover have "reading ds (Suc p) ?s" using r by (simp add: reading_def)
    ultimately show ?thesis using p fw_loop_reading(2) [of ds "Suc p" ?s] r by (simp add: reading_def)
  next
    fix c rest assume c: "drop p ds = c # rest" "0 < unat c" "unat c \<le> 63" "length rest < unat c"
      "length (wire_labels acc) + unat c \<le> 254"
    note p = drop_eq_ConsD [OF c(1)]
    let ?s = "(moved ds 1 s)\<lparr>fw_offsets := fw_offsets s @ [word_of_nat (fw_nused s)],
        fw_nused := fw_nused s + unat c + 1, fw_raw := fw_raw s @ [c],
        fw_done := False, fw_n := unat c, fw_state := fwOrdinary\<rparr>"
    have "c \<noteq> 0" using c(2) by auto
    then have "fw_loop d s = fw_loop d ?s"
      using fw_step_start(1) [OF r c(1), of d] fw_loop_reading(1) [OF r p(1), of d] s c
      by (auto simp: at_start_def)
    moreover have "reading ds (Suc p) ?s" using r by (simp add: reading_def)
    moreover have "length ds - Suc p < unat c" using p(3) c(4) by (metis length_drop)
    ultimately show ?thesis using fw_loop_ordinary_short [of ds "Suc p" ?s d] c(3) by simp
  qed
qed

lemma name_at_next: "name_at ds lim p ls nx \<Longrightarrow> p < nx"
  by (induction rule: name_at.induct) simp_all

lemma name_at_next_le: "name_at ds lim p ls nx \<Longrightarrow> nx \<le> length ds"
  by (induction rule: name_at.induct) (auto dest: drop_eq_ConsD simp: Suc_le_eq)

lemma fw_loop_complete:
  assumes "name_at ds lim p ls nx" "at_start ds p acc s" "lim = fw_biggestPointer s"
    "length (wire_labels acc) + length (wire_labels ls) \<le> 254"
  shows "\<exists>s'. fw_loop d s = Ret s' \<and> finished ds (acc @ cased d ls) s' \<and>
           fw_cused s' = (if fw_seenPointer s then fw_cused s else fw_cused s + (nx - p))"
  using assms
proof (induction arbitrary: acc s rule: name_at.induct)
  case (root p rest lim)
  then show ?case using fw_loop_root [of ds p acc s rest d] by auto
next
  case (label p l rest lim ls nx)
  obtain s' where s': "fw_loop d s = fw_loop d s'" "at_start ds (Suc (p + length l)) (acc @ cased d [l]) s'"
    "fw_biggestPointer s' = fw_biggestPointer s" "fw_seenPointer s' = fw_seenPointer s"
    "fw_cused s' = (if fw_seenPointer s then fw_cused s else fw_cused s + length l + 1)"
    using fw_loop_label [OF label.prems(1) label.hyps(1-3), of d] label.prems by auto
  show ?case
    using label.IH [OF s'(2)] s' label.prems name_at_next [OF label.hyps(4)] by auto
next
  case (pointer p c b rest q lim ls nx)
  obtain s' where s': "fw_loop d s = fw_loop d s'" "at_start ds q acc s'"
    "fw_biggestPointer s' = q" "fw_seenPointer s'"
    "fw_cused s' = (if fw_seenPointer s then fw_cused s else fw_cused s + 2)"
    using fw_loop_jump(2) [OF pointer.prems(1) pointer.hyps(1,2), of d] pointer.hyps(3,4) pointer.prems
    by auto
  show ?case using pointer.IH [OF s'(2)] s' pointer.prems by auto
qed

text \<open>Whenever the bytes denote no name that fits, the loop ends in an error or without \<open>done\<close>.\<close>

definition no_name :: "(g53_error, wire_state) go \<Rightarrow> bool" where
  "no_name r \<longleftrightarrow> (\<exists>e. r = Err e) \<or> (\<exists>s. r = Ret s \<and> \<not> fw_done s)"

lemma fw_loop_label_or_stop:
  assumes s: "at_start ds p acc s" and dr: "drop p ds = c # rest" and c: "unat c \<le> 63" "c \<noteq> 0"
    and len: "length (wire_labels acc) + unat c \<le> 254"
  shows "no_name (fw_loop d s) \<or> (\<exists>l rest s'. drop p ds = wire_label l @ rest \<and> l \<noteq> [] \<and> length l = unat c \<and>
           fw_loop d s = fw_loop d s' \<and> at_start ds (Suc (p + length l)) (acc @ cased d [l]) s' \<and>
           fw_biggestPointer s' = fw_biggestPointer s)"
proof (cases "length rest < unat c")
  case True
  then show ?thesis
    using fw_loop_stops [OF s, of d] dr c len by (auto simp: no_name_def unat_gt_0)
next
  case False
  define l where "l = take (unat c) rest"
  have l: "length l = unat c" "l \<noteq> []" using False c(2) by (auto simp: l_def unat_eq_zero)
  have dr: "drop p ds = wire_label l @ drop (unat c) rest"
    using dr l(1) by (simp add: wire_label_def) (simp add: l_def)
  have "\<exists>s'. fw_loop d s = fw_loop d s' \<and> at_start ds (Suc (p + length l)) (acc @ cased d [l]) s' \<and>
           fw_biggestPointer s' = fw_biggestPointer s"
    using fw_loop_label [OF s dr l(2), of d] c len l by auto
  then show ?thesis using dr l by blast
qed

lemma fw_loop_pointer_or_stop:
  assumes s: "at_start ds p acc s" and dr: "drop p ds = c # rest" and c: "c AND 0xc0 = 0xc0"
  shows "no_name (fw_loop d s) \<or> (\<exists>b rest s'. drop p ds = c # b # rest \<and>
           fw_loop d s = fw_loop d s' \<and> at_start ds (pointer_target c b) acc s' \<and>
           fw_biggestPointer s' = pointer_target c b \<and> pointer_target c b < fw_biggestPointer s)"
proof (cases rest)
  case Nil
  then show ?thesis using fw_loop_stops [OF s, of d] dr c by (auto simp: no_name_def)
next
  case (Cons b rest')
  then show ?thesis
    using fw_loop_jump [OF s _ c, of b rest' d] dr
    by (cases "pointer_target c b < fw_biggestPointer s") (auto simp: no_name_def not_less)
qed

lemma fw_loop_sound:
  assumes "at_start ds p acc s" "length (wire_labels acc) \<le> 255"
  shows "no_name (fw_loop d s) \<or> (\<exists>ls nx. name_at ds (fw_biggestPointer s) p ls nx \<and>
           length (wire_labels acc) + length (wire_labels ls) \<le> 254)"
  using assms
proof (induction "(fw_biggestPointer s, length ds - p)" arbitrary: p acc s
    rule: wf_induct_rule [OF wf_lex_prod [OF wf_less_than wf_less_than]])
  case 1
  note IH = "1.hyps" and s = "1.prems"(1) and acc = "1.prems"(2)
  have r: "reading ds p s" using s by (simp add: at_start_def)
  show ?case
  proof (cases "drop p ds")
    case Nil
    then show ?thesis using fw_loop_stops [OF s] by (auto simp: no_name_def)
  next
    case (Cons c rest)
    note p = drop_eq_ConsD [OF Cons] and st = fw_step_start [OF r Cons]
    consider "63 < unat c" "c AND 0xc0 \<noteq> 0xc0" | "c AND 0xc0 = 0xc0"
      | "unat c \<le> 63" "254 < length (wire_labels acc) + unat c"
      | "c = 0" "length (wire_labels acc) \<le> 254"
      | "c \<noteq> 0" "unat c \<le> 63" "length (wire_labels acc) + unat c \<le> 254" by fastforce
    then show ?thesis
    proof cases
      case 2
      from fw_loop_pointer_or_stop [OF s Cons 2, of d] show ?thesis
      proof (elim disjE exE conjE)
        fix b rest s' assume l: "drop p ds = c # b # rest" "fw_loop d s = fw_loop d s'"
          "at_start ds (pointer_target c b) acc s'" "fw_biggestPointer s' = pointer_target c b"
          "pointer_target c b < fw_biggestPointer s"
        then show ?thesis
          using IH [OF _ l(3) acc] name_at.pointer [OF l(1) 2 refl l(5)] by fastforce
      qed simp
    next
      case 4
      then show ?thesis using name_at.root [of p ds rest] Cons by fastforce
    next
      case 5
      from fw_loop_label_or_stop [OF s Cons 5(2,1,3), of d] show ?thesis
      proof (elim disjE exE conjE)
        fix l rest s' assume l: "drop p ds = wire_label l @ rest" "l \<noteq> []" "length l = unat c"
          "fw_loop d s = fw_loop d s'" "at_start ds (Suc (p + length l)) (acc @ cased d [l]) s'"
          "fw_biggestPointer s' = fw_biggestPointer s"
        then show ?thesis
          using IH [OF _ l(5)] p(1) 5 name_at.label [OF l(1,2), of "fw_biggestPointer s"] by fastforce
      qed simp
    qed (use st fw_loop_reading(1) [OF r p(1), of d] s in \<open>simp_all add: at_start_def no_name_def\<close>)
  qed
qed

lemma first_byte_cases:
  assumes "length l \<le> 63" "l \<noteq> []"
  shows "(word_of_nat (length l) :: byte) \<noteq> 0" "(word_of_nat (length l) :: byte) AND 0xc0 \<noteq> 0xc0"
  using assms pointer_byte [of "word_of_nat (length l)"] by (auto simp: word_of_nat_byte_eq_0_iff)

lemma name_at_unique:
  "name_at ds lim p ls nx \<Longrightarrow> name_at ds lim p ls' nx' \<Longrightarrow> ls' = ls \<and> nx' = nx"
proof (induction arbitrary: ls' nx' rule: name_at.induct)
  case (root p rest lim)
  from root.prems show ?case
    by (cases rule: name_at.cases) (use root.hyps first_byte_cases in \<open>auto simp: wire_label_def\<close>)
next
  case (label p l rest lim ls nx)
  note fb = first_byte_cases [OF label.hyps(3,2)] and IH = label.IH
  from label.prems show ?case
  proof (cases rule: name_at.cases)
    case (label l2 rest2 ls2)
    then have "length l = length l2 \<and> l @ rest = l2 @ rest2"
      using label.hyps by (simp add: wire_label_def word_of_nat_byte_eq_iff)
    then have "l2 = l" using append_eq_append_conv [of l l2] by auto
    then show ?thesis using label IH [of ls2 nx'] by simp
  qed (use label.hyps(1) fb in \<open>simp_all add: wire_label_def\<close>)
next
  case (pointer p c b rest q lim ls nx)
  note IH = pointer.IH and hyps = pointer.hyps
  from pointer.prems show ?case
  proof (cases rule: name_at.cases)
    case (label l rest' ls')
    then show ?thesis using first_byte_cases [of l] hyps(1,2) by (simp add: wire_label_def)
  next
    case (pointer c' b' rest' q' nx'')
    then show ?thesis using IH [of ls' nx''] hyps(1,3) by simp
  qed (use hyps in simp)
qed

section \<open>The decoder returns exactly the denoted names\<close>

theorem NameFromWire_iff:
  assumes ds: "length ds < 2 ^ 63" and p: "p \<le> length ds"
  shows "NameFromWire (buf_at ds p) d = Ret (n, buf) \<longleftrightarrow>
    (\<exists>ls nx. name_at ds p p ls nx \<and> valid_labels ls \<and> n = name_of (cased d ls) \<and> buf = buf_at ds nx)"
proof -
  let ?s = "\<lparr>fw_n = 0, fw_nused = 0, fw_done = False, fw_offsets = [], fw_raw = [],
               fw_seenPointer = False, fw_state = fwStart, fw_cused = 0, fw_current = p,
               fw_biggestPointer = p, fw_newCurrent = 0, fw_buf = buf_at ds p\<rparr>"
  have s: "at_start ds p [] ?s" using ds p by (simp add: at_start_def reading_def)
  have eq: "NameFromWire (buf_at ds p) d = Ret (name_of (cased d ls), buf_at ds nx)"
    if n: "name_at ds p p ls nx" "length (wire_labels ls) \<le> 254" for ls nx
  proof -
    obtain s' where s': "fw_loop d ?s = Ret s'" "finished ds (cased d ls) s'" "fw_cused s' = nx - p"
      using fw_loop_complete [OF n(1) s, of d] n(2) by auto
    then show ?thesis
      using name_at_next [OF n(1)] name_at_next_le [OF n(1)] 
      by (auto simp: NameFromWire_def finished_def name_of_def SetPosition_buf_at)
  qed
  have "no_name (fw_loop d ?s) \<Longrightarrow> NameFromWire (buf_at ds p) d \<noteq> Ret (n, buf)"
    by (auto simp: no_name_def NameFromWire_def)
  moreover have "length (wire_labels ls) \<le> 254 \<longleftrightarrow> valid_labels ls" if "name_at ds p p ls nx" for ls nx
    using name_at_labels [OF that] by (auto simp: valid_labels_def)
  ultimately show ?thesis
  proof (intro iffI, goal_cases)
    case 1
    then obtain ls nx where "name_at ds p p ls nx" "length (wire_labels ls) \<le> 254"
      using fw_loop_sound [OF s, of d] by auto
    with 1 eq show ?case by fastforce
  next
    case 2
    then show ?case using eq by (auto simp: valid_labels_def)
  qed
qed

lemma NameFromWire_not_Panic:
  assumes "length ds < 2 ^ 63" "p \<le> length ds"
  shows "NameFromWire (buf_at ds p) d \<noteq> Panic"
proof -
  let ?s = "\<lparr>fw_n = 0, fw_nused = 0, fw_done = False, fw_offsets = [], fw_raw = [],
               fw_seenPointer = False, fw_state = fwStart, fw_cused = 0, fw_current = p,
               fw_biggestPointer = p, fw_newCurrent = 0, fw_buf = buf_at ds p\<rparr>"
  have s: "at_start ds p [] ?s" using assms by (simp add: at_start_def reading_def)
  have "fw_loop d ?s \<noteq> Panic"
    using fw_loop_sound [OF s, of d] fw_loop_complete [OF _ s, of p _ _ d] by (auto simp: no_name_def)
  then show ?thesis by (cases "fw_loop d ?s") (auto simp: NameFromWire_def)
qed

lemma name_at_wire:
  assumes "\<forall>l \<in> set ls. l \<noteq> [] \<and> length l \<le> 63"
  shows "name_at (pre @ wire ls @ post) lim (length pre) ls (length pre + length (wire ls))"
  using assms
proof (induction ls arbitrary: pre)
  case Nil
  then show ?case using name_at.root [of "length pre" "pre @ 0 # post" post] by (simp add: wire_def)
next
  case (Cons l ls)
  have "name_at ((pre @ wire_label l) @ wire ls @ post) lim (length (pre @ wire_label l)) ls
          (length (pre @ wire_label l) + length (wire ls))"
    by (rule Cons.IH) (use Cons.prems in auto)
  then show ?case
    using Cons.prems name_at.label [of "length pre" "pre @ wire (l # ls) @ post" l "wire ls @ post" lim ls]
    by (simp add: wire_def add.assoc)
qed

text \<open>The uncompressed encoding is one of the codecs of the wire format.\<close>

definition enc_name :: "Name \<Rightarrow> byte list" where
  "enc_name n = raw n"

interpretation name_codec: wire_codec enc_name "\<lambda>buf. NameFromWire buf False" wf_name
proof
  fix x pre post assume "wf_name x" and ok: "input_ok pre (enc_name x @ post)"
  then obtain ls where ls: "valid_labels ls" "x = name_of ls" by (elim wf_nameE)
  then have n: "name_at (pre @ wire ls @ post) (length pre) (length pre) ls (length pre + length (wire ls))"
    by (intro name_at_wire) (auto simp: valid_labels_def)
  show "NameFromWire (input pre (enc_name x @ post)) False = Ret (x, input (pre @ enc_name x) post)"
    using NameFromWire_iff [of "pre @ wire ls @ post" "length pre" False x] ls n ok
    by (auto simp: buf_at_input enc_name_def input_ok_def)
qed

lemma NameFromWire_total:
  assumes "length ds < 2 ^ 63" "p \<le> length ds"
  shows "(\<exists>n buf. NameFromWire (buf_at ds p) d = Ret (n, buf)) \<or> (\<exists>e. NameFromWire (buf_at ds p) d = Err e)"
proof -
  let ?s = "\<lparr>fw_n = 0, fw_nused = 0, fw_done = False, fw_offsets = [], fw_raw = [],
               fw_seenPointer = False, fw_state = fwStart, fw_cused = 0, fw_current = p,
               fw_biggestPointer = p, fw_newCurrent = 0, fw_buf = buf_at ds p\<rparr>"
  have s: "at_start ds p [] ?s" using assms by (simp add: at_start_def reading_def)
  have "(\<exists>s. fw_loop d ?s = Ret s \<and> (fw_done s \<or> \<not> fw_done s)) \<or> (\<exists>e. fw_loop d ?s = Err e)"
    using fw_loop_sound [OF s, of d] fw_loop_complete [OF _ s, of p _ _ d] by (fastforce simp: no_name_def)
  then show ?thesis by (elim disjE exE conjE) (simp_all add: NameFromWire_def)
qed

section \<open>Properties\<close>

text \<open>C4. \<open>NameFromWire\<close> decodes exactly the names RFC 1035 gives to the bytes of the message: from any
  position, it returns a name and moves on to \<open>nx\<close> if and only if a sequence of labels (literal, or
  reached through compression pointers each of which points strictly below the previous one) of at
  most 255 bytes stands there and ends at \<open>nx\<close>; the name is the well-formed name of these labels, in
  lower case when asked for. It always ends, whatever loops the pointers make, and never panics.\<close>

theorem NameFromWire_spec:
  assumes "length ds < 2 ^ 63" "p \<le> length ds"
  shows "(NameFromWire (buf_at ds p) d = Ret (n, buf) \<longleftrightarrow>
      (\<exists>ls nx. name_at ds p p ls nx \<and> valid_labels ls \<and> n = name_of (cased d ls) \<and> buf = buf_at ds nx)) \<and>
    ((\<exists>n buf. NameFromWire (buf_at ds p) d = Ret (n, buf)) \<or> (\<exists>e. NameFromWire (buf_at ds p) d = Err e))"
  using NameFromWire_iff [OF assms, of d n buf] NameFromWire_total [OF assms, of d] by blast

theorem NameFromWire_spec_witness:
  "NameFromWire (buf_at [1, 99, 0, 1, 119, 0xc0, 0] 3) False = Ret (name_of [[119], [99]], buf_at [1, 99, 0, 1, 119, 0xc0, 0] 7)"
proof -
  let ?ds = "[1, 99, 0, 1, 119, 0xc0, 0] :: byte list"
  have "name_at ?ds 0 2 [] 3"
    using name_at.root [of 2 ?ds "[1, 119, 0xc0, 0]" 0] by (simp add: numeral_3_eq_3)
  then have "name_at ?ds 0 0 [[99]] 3"
    using name_at.label [of 0 ?ds "[99]" "[0, 1, 119, 0xc0, 0]" 0 "[]" 3] by (simp add: wire_label_def numeral_2_eq_2)
  then have "name_at ?ds 3 5 [[99]] 7"
    using name_at.pointer [of 5 ?ds "0xc0" 0 "[]" 0 3 "[[99]]" 3] by (simp add: pointer_target_def)
  then have "name_at ?ds 3 3 [[119], [99]] 7"
    using name_at.label [of 3 ?ds "[119]" "[0xc0, 0]" 3 "[[99]]" 7] by (simp add: wire_label_def)
  moreover have "valid_labels [[119], [99]]" by (simp add: valid_labels_def wire_def)
  ultimately show ?thesis
    using NameFromWire_spec [of ?ds 3 False "name_of [[119], [99]]" "buf_at ?ds 7"] by (auto simp: cased_def)
qed

text \<open>C13. Round trip of the uncompressed form: what \<open>ToWire\<close> appends for a well-formed name is read
  back by \<open>NameFromWire\<close> as the same name, wherever it stands in a message, with the reader left
  right behind it.\<close>

theorem Name_ToWire_FromWire:
  assumes "wf_name n" "length (odata out) + length (raw n) + length post < 2 ^ 63"
  shows "NameFromWire (buf_at (odata (Name_ToWire n out) @ post) (length (odata out))) False
    = Ret (n, buf_at (odata (Name_ToWire n out) @ post) (length (odata (Name_ToWire n out))))"
  using name_codec.dec_enc [of n "odata out" post] assms
  by (simp add: buf_at_input enc_name_def input_ok_def Name_ToWire_def)

theorem Name_ToWire_FromWire_witness:
  "NameFromWire (buf_at (odata (Name_ToWire (name_of [[119]]) (NewOutputBuffer 512)) @ [7]) 0) False
    = Ret (name_of [[119]], buf_at [1, 119, 0, 7] 3)"
  using Name_ToWire_FromWire [of "name_of [[119]]" "NewOutputBuffer 512" "[7]"]
  by (simp add: wf_name_def labels_name_of valid_labels_def wire_def Name_ToWire_def wire_label_def NewOutputBuffer_def)

end
