(* ===== verification/Name_Text.thy ===== *)
theory Name_Text
  imports Name_Wire
begin

unbundle bit_operations_syntax

text \<open>
  The textual form of names: \<open>stringParse\<close>, \<open>NewName\<close>, \<open>NameFromString\<close>, \<open>NameFromStringUnsafe\<close>
  and \<open>String\<close> of \<open>src/g53/name.go\<close>.

  The parser is a state machine over the bytes of the text. Each state is one definition;
  \<open>goto again\<close>, which hands the same character to the next state, is a call of that state's
  definition. \<open>ft_loop\<close> is the loop, \<open>ft_finish\<close> the code behind it. Texts are byte lists, as
  Go's \<open>[]byte(name)\<close>; the runes \<open>String\<close> writes are all below \<open>0x7f\<close>, one byte each.

  The theorems show that parsing what \<open>String\<close> prints gives the name back, and what happens at the
  length limit: a text one label longer than the limit is accepted or makes the parser panic.
\<close>

section \<open>The parser\<close>

definition digitvalue_table :: "int list" where
  "digitvalue_table = [
    -1, -1, -1, -1, -1, -1, -1, -1, -1, -1, -1, -1, -1, -1, -1, -1,
    -1, -1, -1, -1, -1, -1, -1, -1, -1, -1, -1, -1, -1, -1, -1, -1,
    -1, -1, -1, -1, -1, -1, -1, -1, -1, -1, -1, -1, -1, -1, -1, -1,
    0, 1, 2, 3, 4, 5, 6, 7, 8, 9, -1, -1, -1, -1, -1, -1,
    -1, 10, 11, 12, 13, 14, 15, -1, -1, -1, -1, -1, -1, -1, -1, -1,
    -1, -1, -1, -1, -1, -1, -1, -1, -1, -1, -1, -1, -1, -1, -1, -1,
    -1, 10, 11, 12, 13, 14, 15, -1, -1, -1, -1, -1, -1, -1, -1, -1,
    -1, -1, -1, -1, -1, -1, -1, -1, -1, -1, -1, -1, -1, -1, -1, -1,
    -1, -1, -1, -1, -1, -1, -1, -1, -1, -1, -1, -1, -1, -1, -1, -1,
    -1, -1, -1, -1, -1, -1, -1, -1, -1, -1, -1, -1, -1, -1, -1, -1,
    -1, -1, -1, -1, -1, -1, -1, -1, -1, -1, -1, -1, -1, -1, -1, -1,
    -1, -1, -1, -1, -1, -1, -1, -1, -1, -1, -1, -1, -1, -1, -1, -1,
    -1, -1, -1, -1, -1, -1, -1, -1, -1, -1, -1, -1, -1, -1, -1, -1,
    -1, -1, -1, -1, -1, -1, -1, -1, -1, -1, -1, -1, -1, -1, -1, -1,
    -1, -1, -1, -1, -1, -1, -1, -1, -1, -1, -1, -1, -1, -1, -1, -1,
    -1, -1, -1, -1, -1, -1, -1, -1, -1, -1, -1, -1, -1, -1, -1, -1]"

definition digitvalue :: "byte \<Rightarrow> int" where
  "digitvalue c = digitvalue_table ! unat c"

datatype ftState = ftInit | ftStart | ftOrdinary | ftInitialescape | ftEscape | ftEscdecimal

definition isDigit :: "byte \<Rightarrow> bool" where
  "isDigit c \<longleftrightarrow> 48 \<le> c \<and> c \<le> 57"

record text_state =
  ft_data :: "byte list"
  ft_offsets :: "byte list"
  ft_count :: nat
  ft_digits :: nat
  ft_value :: int
  ft_done :: bool
  ft_state :: ftState
  ft_start :: nat

definition ft_char :: "bool \<Rightarrow> byte \<Rightarrow> byte" where
  "ft_char downcase c = (if downcase then maptolower c else c)"

text \<open>\<open>data[offsets[len(offsets)-1]] = byte(count)\<close>\<close>

definition ft_set_length :: "text_state \<Rightarrow> (g53_error, text_state) go" where
  "ft_set_length s =
     gbind (idx (ft_offsets s) (usub (length (ft_offsets s)) 1)) (\<lambda>o'.
     gbind (upd (ft_data s) (unat o') (word_of_nat (ft_count s))) (\<lambda>d.
     Ret (s\<lparr>ft_data := d\<rparr>)))"

definition ft_add_char :: "byte \<Rightarrow> text_state \<Rightarrow> (g53_error, text_state) go" where
  "ft_add_char c s =
     (let s = s\<lparr>ft_count := ft_count s + 1\<rparr> in
      if ft_count s > MAX_LABEL_LEN then Err TooLongLabel
      else Ret (s\<lparr>ft_data := ft_data s @ [c]\<rparr>))"

definition ft_ordinary :: "bool \<Rightarrow> nat \<Rightarrow> byte \<Rightarrow> text_state \<Rightarrow> (g53_error, text_state) go" where
  "ft_ordinary downcase end c s =
     (if c = 0x2e then
        if ft_count s = 0 then Err DuplicatePeriod
        else
          gbind (ft_set_length s) (\<lambda>s.
          let s = s\<lparr>ft_offsets := ft_offsets s @ [word_of_nat (length (ft_data s))]\<rparr>;
              s = (if ft_start s = end then s\<lparr>ft_data := ft_data s @ [0], ft_done := True\<rparr> else s)
          in Ret (s\<lparr>ft_state := ftStart\<rparr>))
      else if c = 0x5c then Ret (s\<lparr>ft_state := ftEscape\<rparr>)
      else ft_add_char (ft_char downcase c) s)"

definition ft_start_label :: "bool \<Rightarrow> nat \<Rightarrow> byte \<Rightarrow> text_state \<Rightarrow> (g53_error, text_state) go" where
  "ft_start_label downcase end c s =
     (let s = s\<lparr>ft_data := ft_data s @ [0], ft_count := 0\<rparr> in
      if c = 0x5c then Ret (s\<lparr>ft_state := ftInitialescape\<rparr>)
      else ft_ordinary downcase end c (s\<lparr>ft_state := ftOrdinary\<rparr>))"

definition ft_init :: "bool \<Rightarrow> nat \<Rightarrow> byte \<Rightarrow> text_state \<Rightarrow> (g53_error, text_state) go" where
  "ft_init downcase end c s =
     (if c = 0x2e \<and> ft_start s \<noteq> end then Err NonTerminatingEmptyLabel
      else if c = 0x2e \<or> c = 0x40 \<and> ft_start s = end then
        Ret (s\<lparr>ft_data := ft_data s @ [0], ft_done := True\<rparr>)
      else ft_start_label downcase end c (s\<lparr>ft_state := ftStart\<rparr>))"

definition ft_escdecimal :: "bool \<Rightarrow> byte \<Rightarrow> text_state \<Rightarrow> (g53_error, text_state) go" where
  "ft_escdecimal downcase c s =
     (if \<not> isDigit (c AND 0xff) then Err MixedEscape
      else
        let s = s\<lparr>ft_value := ft_value s * 10 + digitvalue c, ft_digits := ft_digits s + 1\<rparr> in
        if ft_digits s = 3 then
          if ft_value s > 255 then Err EscapeTooLarge
          else gbind (ft_add_char (ft_char downcase (word_of_int (ft_value s))) s) (\<lambda>s.
               Ret (s\<lparr>ft_state := ftOrdinary\<rparr>))
        else Ret s)"

definition ft_escape :: "bool \<Rightarrow> byte \<Rightarrow> text_state \<Rightarrow> (g53_error, text_state) go" where
  "ft_escape downcase c s =
     (if \<not> isDigit (c AND 0xff) then
        gbind (ft_add_char (ft_char downcase c) s) (\<lambda>s. Ret (s\<lparr>ft_state := ftOrdinary\<rparr>))
      else ft_escdecimal downcase c (s\<lparr>ft_digits := 0, ft_value := 0, ft_state := ftEscdecimal\<rparr>))"

definition ft_initialescape :: "bool \<Rightarrow> byte \<Rightarrow> text_state \<Rightarrow> (g53_error, text_state) go" where
  "ft_initialescape downcase c s =
     (if c = 0x5b then Err InvalidLabelType
      else ft_escape downcase c (s\<lparr>ft_state := ftEscape\<rparr>))"

text \<open>The body of the loop: one character.\<close>

definition ft_step :: "bool \<Rightarrow> nat \<Rightarrow> byte \<Rightarrow> text_state \<Rightarrow> (g53_error, text_state) go" where
  "ft_step downcase end c s =
     (case ft_state s of
        ftInit \<Rightarrow> ft_init downcase end c s
      | ftStart \<Rightarrow> ft_start_label downcase end c s
      | ftOrdinary \<Rightarrow> ft_ordinary downcase end c s
      | ftInitialescape \<Rightarrow> ft_initialescape downcase c s
      | ftEscape \<Rightarrow> ft_escape downcase c s
      | ftEscdecimal \<Rightarrow> ft_escdecimal downcase c s)"

lemma ft_step_start: "ft_step downcase end c s = Ret s' \<Longrightarrow> ft_start s' = ft_start s"
  by (auto simp: ft_step_def ft_init_def ft_start_label_def ft_ordinary_def ft_initialescape_def ft_escape_def
      ft_escdecimal_def ft_add_char_def ft_set_length_def Let_def gbind_eq_Ret_iff
      split: ftState.splits if_splits)

function ft_loop :: "byte list \<Rightarrow> nat \<Rightarrow> bool \<Rightarrow> text_state \<Rightarrow> (g53_error, text_state) go" where
  "ft_loop nameRaw end downcase s =
     (if length (ft_data s) < MAX_WIRE \<and> ft_start s \<noteq> end \<and> \<not> ft_done s then
        gbind (idx nameRaw (ft_start s)) (\<lambda>c.
        gbind (ft_step downcase end c (s\<lparr>ft_start := ft_start s + 1\<rparr>)) (\<lambda>s.
        ft_loop nameRaw end downcase s))
      else Ret s)"
  by pat_completeness auto
termination
  by (relation "measure (\<lambda>(nameRaw, _, _, s). length nameRaw - ft_start s)")
    (auto dest!: ft_step_start simp: idx_def split: if_splits)

declare ft_loop.simps [simp del]

definition ft_finish :: "nat \<Rightarrow> text_state \<Rightarrow> (g53_error, byte list \<times> byte list) go" where
  "ft_finish end s =
     (if \<not> ft_done s then
        if length (ft_data s) = MAX_WIRE then Err TooLongName
        else if ft_start s \<noteq> end then Panic
        else if ft_state s \<noteq> ftOrdinary then Err IncompleteText
        else if ft_count s = 0 then Panic
        else
          gbind (ft_set_length s) (\<lambda>s.
          Ret (ft_data s @ [0], ft_offsets s @ [word_of_nat (length (ft_data s))]))
      else Ret (ft_data s, ft_offsets s))"

definition stringParse :: "byte list \<Rightarrow> nat \<Rightarrow> nat \<Rightarrow> bool \<Rightarrow> (g53_error, byte list \<times> byte list) go" where
  "stringParse nameRaw start end downcase =
     gbind (ft_loop nameRaw end downcase
              \<lparr>ft_data = [], ft_offsets = [0], ft_count = 0, ft_digits = 0, ft_value = 0,
               ft_done = False, ft_state = ftInit, ft_start = start\<rparr>) (ft_finish end)"

definition NewName :: "byte list \<Rightarrow> bool \<Rightarrow> (g53_error, Name) go" where
  "NewName name downcase =
     gbind (stringParse name 0 (length name) downcase) (\<lambda>(r, offs).
     Ret \<lparr>raw = r, offsets = offs, name_length = length r, labelCount = length offs\<rparr>)"

definition NameFromString :: "byte list \<Rightarrow> (g53_error, Name) go" where
  "NameFromString s = NewName s True"

definition NameFromStringUnsafe :: "byte list \<Rightarrow> (g53_error, Name) go" where
  "NameFromStringUnsafe s = (case NewName s True of Err _ \<Rightarrow> Panic | r \<Rightarrow> r)"

section \<open>The printer\<close>

definition print_char :: "byte \<Rightarrow> byte list" where
  "print_char c =
     (if c \<in> {0x22, 0x28, 0x29, 0x2e, 0x3b, 0x5c, 0x40, 0x24} then [0x5c, c]
      else if 0x20 < c \<and> c < 0x7f then [c]
      else [0x5c, 0x30 + c div 100 mod 10, 0x30 + c div 10 mod 10, 0x30 + c mod 10])"

fun print_label :: "byte list \<Rightarrow> nat \<Rightarrow> nat \<Rightarrow> byte list \<Rightarrow> (g53_error, nat \<times> byte list) go" where
  "print_label r i 0 result = Ret (i, result)"
| "print_label r i (Suc count) result =
     gbind (idx r i) (\<lambda>c. print_label r (i + 1) count (result @ print_char c))"

lemma print_label_pos: "print_label r i count result = Ret (i', result') \<Longrightarrow> i' = i + count"
  by (induction r i count result rule: print_label.induct) (auto simp: gbind_eq_Ret_iff)

function print_loop :: "Name \<Rightarrow> bool \<Rightarrow> nat \<Rightarrow> byte list \<Rightarrow> (g53_error, byte list) go" where
  "print_loop name omitFinalDot i result =
     (if i < name_length name then
        gbind (idx (raw name) i) (\<lambda>count.
        if count = 0 then
          Ret (if \<not> omitFinalDot \<or> length result = 0 then result @ [0x2e] else result)
        else if unat count > MAX_LABEL_LEN then Panic
        else
          gbind (print_label (raw name) (i + 1) (unat count)
                   (if length result \<noteq> 0 then result @ [0x2e] else result)) (\<lambda>(i, result).
          print_loop name omitFinalDot i result))
      else Ret result)"
  by pat_completeness auto
termination
  by (relation "measure (\<lambda>(name, _, i, _). name_length name - i)") (auto dest!: print_label_pos)

declare print_loop.simps [simp del]

definition Name_String :: "Name \<Rightarrow> bool \<Rightarrow> (g53_error, byte list) go" where
  "Name_String name omitFinalDot = print_loop name omitFinalDot 0 []"

section \<open>Parsing one printed character\<close>

lemma digit_cases:
  assumes "n < (10 :: nat)"
  shows "isDigit (0x30 + word_of_nat n) \<and> digitvalue (0x30 + word_of_nat n) = int n"
proof -
  have "n \<in> {0, 1, 2, 3, 4, 5, 6, 7, 8, 9}" using assms by auto
  then show ?thesis
    by (elim insertE emptyE) (simp_all add: isDigit_def digitvalue_def digitvalue_table_def)
qed

lemma and_ff [simp]: "c AND 0xff = (c :: byte)"
proof -
  have m: "(0xff :: byte) = - 1" by simp
  show ?thesis unfolding m by (rule and.right_neutral)
qed

definition digit :: "nat \<Rightarrow> byte" where
  "digit n = 0x30 + word_of_nat (n mod 10)"

lemma digit_ok: "isDigit (digit n)" "digitvalue (digit n) = int (n mod 10)" "digit n \<noteq> 0x5b"
  using digit_cases [of "n mod 10"] by (auto simp: digit_def isDigit_def)

lemma print_char_cases:
  obtains (special) "print_char c = [0x5c, c]" "\<not> isDigit c" "c \<noteq> 0x5b"
  | (plain) "print_char c = [c]" "c \<noteq> 0x2e" "c \<noteq> 0x5c" "c \<noteq> 0x40"
  | (decimal) "print_char c = [0x5c, digit (unat c div 100), digit (unat c div 10), digit (unat c)]"
proof -
  have d: "0x30 + c div 100 mod 10 = digit (unat c div 100)" "0x30 + c div 10 mod 10 = digit (unat c div 10)"
    "0x30 + c mod 10 = digit (unat c)"
    using unat_byte_less [of c] unfolding digit_def
    by (simp_all add: word_unat_eq_iff unat_word_ariths unat_div unat_mod)
  consider "c \<in> {0x22, 0x28, 0x29, 0x2e, 0x3b, 0x5c, 0x40, 0x24}"
    | "c \<notin> {0x22, 0x28, 0x29, 0x2e, 0x3b, 0x5c, 0x40, 0x24}" "0x20 < c \<and> c < 0x7f"
    | "c \<notin> {0x22, 0x28, 0x29, 0x2e, 0x3b, 0x5c, 0x40, 0x24}" "\<not> (0x20 < c \<and> c < 0x7f)" by blast
  then show ?thesis
  proof cases
    case 1
    then show ?thesis by (intro special) (auto simp: print_char_def isDigit_def)
  next
    case 2
    then show ?thesis by (intro plain) (auto simp: print_char_def)
  next
    case 3
    then show ?thesis by (intro decimal) (simp add: print_char_def flip: d)
  qed
qed

text \<open>
  Inside a label: \<open>cur\<close> is the part of it read so far, behind the placeholder of its length byte.
\<close>

definition parsing :: "label list \<Rightarrow> label \<Rightarrow> nat \<Rightarrow> text_state \<Rightarrow> bool" where
  "parsing ls cur p s \<longleftrightarrow> ft_data s = wire_labels ls @ 0 # cur \<and>
     ft_offsets s = map word_of_nat (offs_from 0 ls) \<and> ft_count s = length cur \<and>
     ft_start s = p \<and> \<not> ft_done s"

text \<open>In front of a label.\<close>

definition between :: "label list \<Rightarrow> nat \<Rightarrow> text_state \<Rightarrow> bool" where
  "between ls p s \<longleftrightarrow> ft_data s = wire_labels ls \<and> ft_offsets s = map word_of_nat (offs_from 0 ls) \<and>
     (ft_state s = ftStart \<or> ft_state s = ftInit \<and> ls = []) \<and> ft_start s = p \<and> \<not> ft_done s"

lemma ft_loop_step:
  assumes "drop p t = c # rest" "ft_start s = p" "\<not> ft_done s" "length (ft_data s) < MAX_WIRE"
  shows "ft_loop t (length t) d s = gbind (ft_step d (length t) c (s\<lparr>ft_start := Suc p\<rparr>)) (ft_loop t (length t) d)"
  using assms drop_eq_ConsD [OF assms(1)] by (subst ft_loop.simps) (simp add: idx_def)

text \<open>Behind a backslash.\<close>

lemma ft_loop_special:
  assumes "parsing ls cur p s" "ft_state s = ftEscape \<or> ft_state s = ftInitialescape" "drop p t = c # rest"
    "\<not> isDigit c" "c \<noteq> 0x5b" "length (wire_labels ls) + length cur < 254" "length cur < 63"
  shows "\<exists>s'. ft_loop t (length t) d s = ft_loop t (length t) d s' \<and>
    parsing ls (cur @ [ft_char d c]) (Suc p) s' \<and> ft_state s' = ftOrdinary"
  using assms ft_loop_step [OF assms(3), of s d]
  by (auto simp: parsing_def ft_step_def ft_escape_def ft_initialescape_def ft_add_char_def Let_def)

lemma ft_loop_first_digit:
  assumes "parsing ls cur p s" "ft_state s = ftEscape \<or> ft_state s = ftInitialescape" "drop p t = digit n # rest"
    "length (wire_labels ls) + length cur < 254"
  shows "\<exists>s'. ft_loop t (length t) d s = ft_loop t (length t) d s' \<and> parsing ls cur (Suc p) s' \<and>
    ft_state s' = ftEscdecimal \<and> ft_digits s' = 1 \<and> ft_value s' = int (n mod 10)"
  using assms digit_ok [of n] ft_loop_step [OF assms(3), of s d]
  by (auto simp: parsing_def ft_step_def ft_escape_def ft_initialescape_def ft_escdecimal_def Let_def)

lemma ft_loop_second_digit:
  assumes "parsing ls cur p s" "ft_state s = ftEscdecimal" "ft_digits s = 1" "drop p t = digit n # rest"
    "length (wire_labels ls) + length cur < 254"
  shows "\<exists>s'. ft_loop t (length t) d s = ft_loop t (length t) d s' \<and> parsing ls cur (Suc p) s' \<and>
    ft_state s' = ftEscdecimal \<and> ft_digits s' = 2 \<and> ft_value s' = ft_value s * 10 + int (n mod 10)"
  using assms digit_ok [of n] ft_loop_step [OF assms(4), of s d]
  by (auto simp: parsing_def ft_step_def ft_escdecimal_def Let_def)

lemma ft_loop_third_digit:
  assumes "parsing ls cur p s" "ft_state s = ftEscdecimal" "ft_digits s = 2" "drop p t = digit n # rest"
    "ft_value s * 10 + int (n mod 10) = int (unat c)"
    "length (wire_labels ls) + length cur < 254" "length cur < 63"
  shows "\<exists>s'. ft_loop t (length t) d s = ft_loop t (length t) d s' \<and>
    parsing ls (cur @ [ft_char d c]) (Suc p) s' \<and> ft_state s' = ftOrdinary"
  using assms digit_ok [of n] ft_loop_step [OF assms(4), of s d] uint_lt2p [of c]
  by (auto simp: parsing_def ft_step_def ft_escdecimal_def ft_add_char_def Let_def)

lemma three_digits:
  assumes "n < 1000"
  shows "(n div 100 mod 10 * 10 + n div 10 mod 10) * 10 + n mod 10 = (n :: nat)"
proof -
  have "n div 100 = n div 10 div 10" by (simp flip: div_mult2_eq)
  moreover have "n div 100 mod 10 = n div 100" using assms by simp
  ultimately have q: "n div 100 mod 10 * 10 + n div 10 mod 10 = n div 10" by simp
  show ?thesis unfolding q by simp
qed

lemma ft_loop_decimal:
  assumes s: "parsing ls cur p s" "ft_state s = ftEscape \<or> ft_state s = ftInitialescape" and dr: "drop p t =
      digit (unat c div 100) # digit (unat c div 10) # digit (unat c) # rest"
    and len: "length (wire_labels ls) + length cur < 254" "length cur < 63"
  shows "\<exists>s'. ft_loop t (length t) d s = ft_loop t (length t) d s' \<and>
    parsing ls (cur @ [ft_char d c]) (p + 3) s' \<and> ft_state s' = ftOrdinary"
proof -
  note d1 = drop_eq_ConsD(3) [OF dr] and d2 = drop_eq_ConsD(3) [OF drop_eq_ConsD(3) [OF dr]]
  obtain s1 where 1: "ft_loop t (length t) d s = ft_loop t (length t) d s1" "parsing ls cur (Suc p) s1"
    "ft_state s1 = ftEscdecimal" "ft_digits s1 = 1" "ft_value s1 = int (unat c div 100 mod 10)"
    using ft_loop_first_digit [OF s dr len(1), of d] by blast
  obtain s2 where 2: "ft_loop t (length t) d s1 = ft_loop t (length t) d s2" "parsing ls cur (Suc (Suc p)) s2"
    "ft_state s2 = ftEscdecimal" "ft_digits s2 = 2" "ft_value s2 = ft_value s1 * 10 + int (unat c div 10 mod 10)"
    using ft_loop_second_digit [OF 1(2-4) d1 len(1), of d] by blast
  have "(unat c div 100 mod 10 * 10 + unat c div 10 mod 10) * 10 + unat c mod 10 = unat c"
    using three_digits [of "unat c"] unat_byte_less [of c] by linarith
  then have "ft_value s2 * 10 + int (unat c mod 10) = int (unat c)"
    unfolding 1(5) 2(5) by (metis of_nat_add of_nat_mult of_nat_numeral)
  from ft_loop_third_digit [OF 2(2-4) d2 this len, of d] show ?thesis
    unfolding 1(1) 2(1) by (simp add: numeral_3_eq_3)
qed

text \<open>A character inside a label, and the first one of a label.\<close>

lemma ft_loop_char:
  assumes s: "parsing ls cur p s" "ft_state s = ftOrdinary" and dr: "drop p t = print_char c @ rest"
    and len: "length (wire_labels ls) + length cur < 254" "length cur < 63"
  shows "\<exists>s'. ft_loop t (length t) d s = ft_loop t (length t) d s' \<and>
    parsing ls (cur @ [ft_char d c]) (p + length (print_char c)) s' \<and> ft_state s' = ftOrdinary"
proof -
  have esc: "\<exists>s'. ft_loop t (length t) d s = ft_loop t (length t) d s' \<and> parsing ls cur (Suc p) s' \<and>
      ft_state s' = ftEscape" if "drop p t = 0x5c # rest'" for rest'
    using s len ft_loop_step [OF that, of s d] by (auto simp: parsing_def ft_step_def ft_ordinary_def)
  show ?thesis
  proof (cases c rule: print_char_cases)
    case special
    then have dr: "drop p t = 0x5c # c # rest" using dr by simp
    obtain s' where s': "ft_loop t (length t) d s = ft_loop t (length t) d s'" "parsing ls cur (Suc p) s'"
      "ft_state s' = ftEscape" using esc [OF dr] by blast
    show ?thesis
      using ft_loop_special [OF s'(2) _ drop_eq_ConsD(3) [OF dr] special(2,3) len, of d] s'(1,3) special(1) by simp
  next
    case plain
    then show ?thesis
      using s len dr ft_loop_step [of p t c rest s d]
      by (auto simp: parsing_def ft_step_def ft_ordinary_def ft_add_char_def Let_def)
  next
    case decimal
    then have dr: "drop p t = 0x5c # digit (unat c div 100) # digit (unat c div 10) # digit (unat c) # rest"
      using dr by simp
    obtain s' where s': "ft_loop t (length t) d s = ft_loop t (length t) d s'" "parsing ls cur (Suc p) s'"
      "ft_state s' = ftEscape" using esc [OF dr] by blast
    have p: "p + length (print_char c) = Suc p + 3" using decimal by simp
    show ?thesis
      using ft_loop_decimal [OF s'(2) _ drop_eq_ConsD(3) [OF dr] len, of d] s'(1,3) unfolding p by simp
  qed
qed

lemma ft_loop_first_char:
  assumes s: "between ls p s" and dr: "drop p t = print_char c @ rest"
    and len: "length (wire_labels ls) < 254"
  shows "\<exists>s'. ft_loop t (length t) d s = ft_loop t (length t) d s' \<and>
    parsing ls [ft_char d c] (p + length (print_char c)) s' \<and> ft_state s' = ftOrdinary"
proof -
  have esc: "\<exists>s'. ft_loop t (length t) d s = ft_loop t (length t) d s' \<and> parsing ls [] (Suc p) s' \<and>
      ft_state s' = ftInitialescape" if "drop p t = 0x5c # rest'" for rest'
    using s len ft_loop_step [OF that, of s d]
    by (auto simp: between_def parsing_def ft_step_def ft_init_def ft_start_label_def Let_def)
  show ?thesis
  proof (cases c rule: print_char_cases)
    case special
    then have dr: "drop p t = 0x5c # c # rest" using dr by simp
    obtain s' where s': "ft_loop t (length t) d s = ft_loop t (length t) d s'" "parsing ls [] (Suc p) s'"
      "ft_state s' = ftInitialescape" using esc [OF dr] by blast
    show ?thesis
      using ft_loop_special [OF s'(2) _ drop_eq_ConsD(3) [OF dr] special(2,3), of d] s'(1,3) special(1) len by simp
  next
    case plain
    then show ?thesis
      using s len dr ft_loop_step [of p t c rest s d]
      by (auto simp: between_def parsing_def ft_step_def ft_init_def ft_start_label_def ft_ordinary_def
          ft_add_char_def Let_def)
  next
    case decimal
    then have dr: "drop p t = 0x5c # digit (unat c div 100) # digit (unat c div 10) # digit (unat c) # rest"
      using dr by simp
    obtain s' where s': "ft_loop t (length t) d s = ft_loop t (length t) d s'" "parsing ls [] (Suc p) s'"
      "ft_state s' = ftInitialescape" using esc [OF dr] by blast
    have p: "p + length (print_char c) = Suc p + 3" using decimal by simp
    show ?thesis
      using ft_loop_decimal [OF s'(2) _ drop_eq_ConsD(3) [OF dr], of d] s'(1,3) len unfolding p by simp
  qed
qed

section \<open>Parsing labels\<close>

definition text_label :: "label \<Rightarrow> byte list" where
  "text_label l = concat (map print_char l)"

fun text_labels :: "label list \<Rightarrow> byte list" where
  "text_labels [] = []"
| "text_labels [l] = text_label l"
| "text_labels (l # ls) = text_label l @ 0x2e # text_labels ls"

definition name_text :: "label list \<Rightarrow> bool \<Rightarrow> byte list" where
  "name_text ls omitFinalDot = text_labels ls @ (if ls = [] \<or> \<not> omitFinalDot then [0x2e] else [])"

lemma ft_loop_chars:
  assumes "parsing ls cur p s" "ft_state s = ftOrdinary" "drop p t = text_label l @ rest"
    "length (wire_labels ls) + length cur + length l \<le> 254" "length cur + length l \<le> 63"
  shows "\<exists>s'. ft_loop t (length t) d s = ft_loop t (length t) d s' \<and>
    parsing ls (cur @ map (ft_char d) l) (p + length (text_label l)) s' \<and> ft_state s' = ftOrdinary"
  using assms
proof (induction l arbitrary: cur p s)
  case Nil
  then show ?case by (auto simp: text_label_def)
next
  case (Cons c l)
  have dr: "drop p t = print_char c @ text_label l @ rest" using Cons.prems(3) by (simp add: text_label_def)
  obtain s1 where 1: "ft_loop t (length t) d s = ft_loop t (length t) d s1"
    "parsing ls (cur @ [ft_char d c]) (p + length (print_char c)) s1" "ft_state s1 = ftOrdinary"
    using ft_loop_char [OF Cons.prems(1,2) dr, of d] Cons.prems(4,5) by auto
  have "drop (p + length (print_char c)) t = text_label l @ rest" using dr by (simp add: drop_plus del: drop_drop)
  from Cons.IH [OF 1(2,3) this] Cons.prems(4,5) 1(1) show ?case by (auto simp: text_label_def add.assoc)
qed

lemma ft_loop_label_text:
  assumes s: "between ls p s" and dr: "drop p t = text_label l @ rest" and l: "l \<noteq> []" "length l \<le> 63"
    "length (wire_labels ls) + length l \<le> 254"
  shows "\<exists>s'. ft_loop t (length t) d s = ft_loop t (length t) d s' \<and>
    parsing ls (map (ft_char d) l) (p + length (text_label l)) s' \<and> ft_state s' = ftOrdinary"
proof -
  obtain c l' where c: "l = c # l'" using l(1) by (cases l) auto
  have d1: "drop p t = print_char c @ text_label l' @ rest" using dr c by (simp add: text_label_def)
  then have d2: "drop (p + length (print_char c)) t = text_label l' @ rest" by (simp add: drop_plus del: drop_drop)
  obtain s1 where 1: "ft_loop t (length t) d s = ft_loop t (length t) d s1"
    "parsing ls [ft_char d c] (p + length (print_char c)) s1" "ft_state s1 = ftOrdinary"
    using ft_loop_first_char [OF s d1, of d] l c by auto
  from ft_loop_chars [OF 1(2,3) d2, of d] l c 1(1) show ?thesis by (auto simp: text_label_def add.assoc)
qed

lemma offs_from_snoc: "offs_from b (ls @ [l]) = offs_from b ls @ [b + length (wire_labels ls) + 1 + length l]"
  by (simp add: offs_from_append)

lemma ft_set_length_eq:
  assumes "parsing ls cur p s" "length (wire_labels ls) \<le> 255"
  shows "ft_set_length s = Ret (s\<lparr>ft_data := wire_labels (ls @ [cur])\<rparr>)"
proof -
  have "idx (ft_offsets s) (usub (length (ft_offsets s)) 1)
      = (Ret (word_of_nat (length (wire_labels ls))) :: (g53_error, byte) go)" 
    using assms length_wire_labels [of ls] idx_offsets [of "length ls" ls 0]
    by (simp add: parsing_def usub_small)
  then show ?thesis
    using assms by (simp add: ft_set_length_def parsing_def upd_def wire_label_def)
qed

lemma ft_loop_dot:
  assumes s: "parsing ls cur p s" "ft_state s = ftOrdinary" and dr: "drop p t = 0x2e # rest" and cur: "cur \<noteq> []"
    "length (wire_labels ls) + length cur \<le> 253"
  shows "rest \<noteq> [] \<Longrightarrow> \<exists>s'. ft_loop t (length t) d s = ft_loop t (length t) d s' \<and> between (ls @ [cur]) (Suc p) s'"
    and "rest = [] \<Longrightarrow> \<exists>s'. ft_loop t (length t) d s = Ret s' \<and> ft_done s' \<and> ft_data s' = wire (ls @ [cur]) \<and>
      ft_offsets s' = map word_of_nat (offs_from 0 (ls @ [cur]))"
proof -
  have e: "Suc p = length t \<longleftrightarrow> rest = []" using dr drop_eq_ConsD [OF dr] by (metis drop_eq_Nil2 le_antisym Suc_le_eq)
  have p: "parsing ls cur (Suc p) (s\<lparr>ft_start := Suc p\<rparr>)" using s by (simp add: parsing_def)
  have len: "length (ft_data s) < MAX_WIRE" "length (wire_labels ls) \<le> 255" using s cur by (simp_all add: parsing_def)
  note st = ft_loop_step [OF dr, of s d] and sl = ft_set_length_eq [OF p len(2)]
  show "rest \<noteq> [] \<Longrightarrow> \<exists>s'. ft_loop t (length t) d s = ft_loop t (length t) d s' \<and> between (ls @ [cur]) (Suc p) s'"
    using s st sl cur len e
    by (auto simp: ft_step_def ft_ordinary_def parsing_def between_def offs_from_snoc Let_def add.assoc)
  show "rest = [] \<Longrightarrow> \<exists>s'. ft_loop t (length t) d s = Ret s' \<and> ft_done s' \<and> ft_data s' = wire (ls @ [cur]) \<and>
      ft_offsets s' = map word_of_nat (offs_from 0 (ls @ [cur]))"
    using s st sl cur len e
    by (auto simp: ft_step_def ft_ordinary_def parsing_def offs_from_snoc Let_def add.assoc ft_loop.simps wire_def)
qed

lemma ft_char_map [simp]: "map (ft_char d) l = map (if d then maptolower else id) l"
  by (simp add: ft_char_def fun_eq_iff)

lemma ft_loop_labels:
  assumes "between acc p s" "ls \<noteq> []" "drop p t = text_labels ls @ rest"
    "\<forall>l \<in> set ls. l \<noteq> [] \<and> length l \<le> 63" "length (wire_labels acc) + length (wire_labels ls) \<le> 254"
  shows "\<exists>s' pre cur. ft_loop t (length t) d s = ft_loop t (length t) d s' \<and> acc @ cased d ls = pre @ [cur] \<and> cur \<noteq> [] \<and>
    parsing pre cur (p + length (text_labels ls)) s' \<and> ft_state s' = ftOrdinary"
  using assms
proof (induction ls arbitrary: acc p s rule: text_labels.induct)
  case (2 l)
  then show ?case
    using ft_loop_label_text [of acc p s t l rest d]
    by (auto intro!: exI [of _ acc] exI [of _ "map (if d then maptolower else id) l"])
next
  case (3 l l' ls)
  let ?l = "map (if d then maptolower else id) l" and ?q = "p + length (text_label l)"
  have dr: "drop p t = text_label l @ 0x2e # text_labels (l' # ls) @ rest" using "3.prems"(3) by simp
  then have dr1: "drop ?q t = 0x2e # text_labels (l' # ls) @ rest" by (simp add: drop_plus del: drop_drop)
  obtain s1 where 1: "ft_loop t (length t) d s = ft_loop t (length t) d s1" "parsing acc ?l ?q s1" "ft_state s1 = ftOrdinary"
    using ft_loop_label_text [OF "3.prems"(1) dr, of d] "3.prems"(4,5) by auto
  have ne: "text_labels (l' # ls) @ rest \<noteq> []"
    using "3.prems"(4) by (cases ls; cases l') (auto simp: text_label_def print_char_def)
  obtain s2 where 2: "ft_loop t (length t) d s1 = ft_loop t (length t) d s2" "between (acc @ [?l]) (Suc ?q) s2"
    using ft_loop_dot(1) [OF 1(2,3) dr1 _ _ ne, of d] "3.prems"(4,5) by auto
  have "\<exists>s' pre cur. ft_loop t (length t) d s2 = ft_loop t (length t) d s' \<and>
      (acc @ [?l]) @ cased d (l' # ls) = pre @ [cur] \<and> cur \<noteq> [] \<and>
      parsing pre cur (Suc ?q + length (text_labels (l' # ls))) s' \<and> ft_state s' = ftOrdinary"
    by (rule "3.IH" [OF 2(2) _ drop_eq_ConsD(3) [OF dr1]]) (use "3.prems"(4,5) in auto)
  then show ?case using 1(1) 2(1) by (simp add: add.assoc)
qed simp

lemma between_init:
  "between [] 0 \<lparr>ft_data = [], ft_offsets = [0], ft_count = 0, ft_digits = 0, ft_value = 0,
      ft_done = False, ft_state = ftInit, ft_start = 0\<rparr>"
  by (simp add: between_def)

lemma valid_labels_cased [simp]: "valid_labels (cased d ls) \<longleftrightarrow> valid_labels ls"
  by (cases d) (simp_all add: cased_def valid_labels_fold_case)

theorem NewName_text:
  assumes v: "valid_labels ls"
  shows "NewName (name_text ls omitFinalDot) d = Ret (name_of (cased d ls))"
proof (cases "ls = []")
  case True
  have "ft_loop [0x2e] 1 d \<lparr>ft_data = [], ft_offsets = [0], ft_count = 0, ft_digits = 0, ft_value = 0,
      ft_done = False, ft_state = ftInit, ft_start = 0\<rparr> = Ret \<lparr>ft_data = [0], ft_offsets = [0], ft_count = 0, ft_digits = 0, ft_value = 0,
      ft_done = True, ft_state = ftInit, ft_start = 1\<rparr>"
    by (simp add: ft_loop.simps idx_def ft_step_def ft_init_def)
  then show ?thesis
    using True by (simp add: NewName_def stringParse_def name_text_def ft_finish_def name_of_def wire_def)
next
  case False
  let ?t = "name_text ls omitFinalDot" and ?e = "if omitFinalDot then [] else [0x2e :: byte]"
  have t: "drop 0 ?t = text_labels ls @ ?e" using False by (simp add: name_text_def)
  obtain s pre cur where s: "ft_loop ?t (length ?t) d \<lparr>ft_data = [], ft_offsets = [0], ft_count = 0, ft_digits = 0, ft_value = 0,
      ft_done = False, ft_state = ftInit, ft_start = 0\<rparr> = ft_loop ?t (length ?t) d s" "cased d ls = pre @ [cur]" "cur \<noteq> []"
    "parsing pre cur (length (text_labels ls)) s" "ft_state s = ftOrdinary"
    using ft_loop_labels [OF between_init False t, of d] v by (auto simp: valid_labels_def)
  have len: "length (wire_labels pre) + length cur \<le> 253"
    using valid_labelsD(1) [of "pre @ [cur]"] valid_labels_cased [of d ls] v unfolding s(2) by simp
  have "gbind (ft_loop ?t (length ?t) d s) (ft_finish (length ?t)) =
    Ret (wire (pre @ [cur]), map word_of_nat (offs_from 0 (pre @ [cur])))"
  proof (cases omitFinalDot)
    case True
    have l: "ft_loop ?t (length ?t) d s = Ret s"
      using s(4) True False by (subst ft_loop.simps) (simp add: parsing_def name_text_def)
    show ?thesis
      unfolding l using ft_set_length_eq [OF s(4)] s(3,4,5) len True False
      by (simp add: ft_finish_def parsing_def name_text_def offs_from_snoc wire_def add.assoc)
  next
    case dot: False
    then have dr: "drop (length (text_labels ls)) ?t = [0x2e]" using False by (simp add: name_text_def)
    show ?thesis using ft_loop_dot(2) [OF s(4,5) dr s(3) len, of d] by (auto simp: ft_finish_def)
  qed
  then show ?thesis using s(1,2) by (simp add: NewName_def stringParse_def name_of_def)
qed

section \<open>Printing\<close>

lemma print_label_append:
  "print_label (p @ l @ q) (length p) (length l) result = Ret (length p + length l, result @ text_label l)"
proof (induction l arbitrary: p result)
  case (Cons c l)
  then show ?case using Cons.IH [of "p @ [c]"] by (simp add: text_label_def idx_def)
qed (simp add: text_label_def)

lemma text_label_not_Nil: "l \<noteq> [] \<Longrightarrow> text_label l \<noteq> []"
  by (cases l) (auto simp: text_label_def print_char_def)

lemma print_loop_labels:
  assumes "\<forall>l \<in> set ls. l \<noteq> [] \<and> length l \<le> 63" "raw n = wire_labels pre @ wire ls" "name_length n = length (raw n)"
  shows "print_loop n omit (length (wire_labels pre)) result =
    Ret (result @ (if result \<noteq> [] \<and> ls \<noteq> [] then [0x2e] else []) @ text_labels ls @
         (if \<not> omit \<or> result = [] \<and> ls = [] then [0x2e] else []))"
  using assms
proof (induction ls arbitrary: pre result)
  case Nil
  then show ?case by (subst print_loop.simps) (simp add: wire_def idx_def nth_append)
next
  case (Cons l ls)
  let ?i = "length (wire_labels pre)" and ?res = "if result \<noteq> [] then result @ [0x2e] else result"
  have l: "l \<noteq> []" "length l \<le> 63" using Cons.prems(1) by auto
  have r: "raw n = (wire_labels pre @ [word_of_nat (length l)]) @ l @ wire ls" "raw n = wire_labels (pre @ [l]) @ wire ls"
    using Cons.prems(2) by (simp_all add: wire_def wire_label_def)
  have i: "idx (raw n) ?i = (Ret (word_of_nat (length l)) :: (g53_error, byte) go)" unfolding r(1) by (simp add: idx_def nth_append)
  have p: "print_label (raw n) (?i + 1) (length l) ?res = Ret (Suc (?i + length l), ?res @ text_label l)"
    unfolding r(1) using print_label_append [of "wire_labels pre @ [word_of_nat (length l)]" l] by simp
  have "print_loop n omit ?i result = print_loop n omit (length (wire_labels (pre @ [l]))) (?res @ text_label l)"
    using i p l Cons.prems(2,3) by (subst print_loop.simps) (simp add: wire_def)
  also have "\<dots> = Ret ((?res @ text_label l) @ (if ?res @ text_label l \<noteq> [] \<and> ls \<noteq> [] then [0x2e] else []) @ text_labels ls @
         (if \<not> omit \<or> ?res @ text_label l = [] \<and> ls = [] then [0x2e] else []))"
    by (rule Cons.IH [OF _ r(2) Cons.prems(3)]) (use Cons.prems(1) in simp)
  finally show ?case using text_label_not_Nil [OF l(1)] by (cases ls) auto
qed

theorem Name_String_labels:
  assumes "valid_labels ls"
  shows "Name_String (name_of ls) omit = Ret (name_text ls omit)"
  using print_loop_labels [of ls "name_of ls" "[]" omit "[]"] assms
  by (auto simp: Name_String_def name_text_def valid_labels_def)

section \<open>At the length limit\<close>

text \<open>
  A text whose labels fill the 254 bytes in front of the root label, followed by a further label
  of one or two ordinary characters.
\<close>

definition plain_char :: "byte \<Rightarrow> bool" where
  "plain_char c \<longleftrightarrow> c \<noteq> 0x2e \<and> c \<noteq> 0x5c"

lemma ft_loop_overlong:
  fixes rest :: "byte list"
  assumes v: "valid_labels ls" "length (wire ls) = MAX_WIRE" and c: "plain_char c"
  defines "t \<equiv> name_text ls False @ c # rest"
  shows "\<exists>s. ft_loop t (length t) False \<lparr>ft_data = [], ft_offsets = [0], ft_count = 0, ft_digits = 0, ft_value = 0,
      ft_done = False, ft_state = ftInit, ft_start = 0\<rparr> = Ret s \<and> parsing ls [c] (length t - length rest) s \<and>
      ft_state s = ftOrdinary"
proof -
  have ne: "ls \<noteq> []" using v(2) by auto
  have t: "drop 0 t = text_labels ls @ 0x2e # c # rest" using ne by (simp add: t_def name_text_def)
  let ?q = "length (text_labels ls)"
  obtain s1 pre cur where 1: "ft_loop t (length t) False \<lparr>ft_data = [], ft_offsets = [0], ft_count = 0, ft_digits = 0, ft_value = 0,
      ft_done = False, ft_state = ftInit, ft_start = 0\<rparr> = ft_loop t (length t) False s1" "ls = pre @ [cur]" "cur \<noteq> []"
    "parsing pre cur ?q s1" "ft_state s1 = ftOrdinary"
    using ft_loop_labels [OF between_init ne t, of False] v by (auto simp: valid_labels_def)
  have dr: "drop ?q t = 0x2e # c # rest" using t drop_plus [of 0 ?q t] by simp
  obtain s2 where 2: "ft_loop t (length t) False s1 = ft_loop t (length t) False s2" "between ls (Suc ?q) s2"
    using ft_loop_dot(1) [OF 1(4,5) dr 1(3), of False] 1(2) v(2) by auto
  note dr2 = drop_eq_ConsD(3) [OF dr]
  have "\<exists>s. ft_loop t (length t) False s2 = ft_loop t (length t) False s \<and> parsing ls [c] (Suc (Suc ?q)) s \<and> ft_state s = ftOrdinary"
    using 2(2) c ft_loop_step [OF dr2, of s2 False] v(2) ne
    by (auto simp: between_def plain_char_def ft_step_def ft_start_label_def ft_ordinary_def ft_add_char_def
        ft_char_def parsing_def Let_def)
  then obtain s where s: "ft_loop t (length t) False s2 = ft_loop t (length t) False s" "parsing ls [c] (Suc (Suc ?q)) s"
    "ft_state s = ftOrdinary" by blast
  have "ft_loop t (length t) False s = Ret s"
    using s(2) v(2) by (subst ft_loop.simps) (simp add: parsing_def)
  moreover have "Suc (Suc ?q) = length t - length rest" using ne by (simp add: t_def name_text_def)
  ultimately show ?thesis using 1(1) 2(1) s by auto
qed

theorem NewName_overlong:
  assumes v: "valid_labels ls" "length (wire ls) = MAX_WIRE" and c: "plain_char c"
  shows "NewName (name_text ls False @ [c]) False = Ret \<lparr>raw = wire (ls @ [[c]]),
           offsets = map word_of_nat (offs_from 0 (ls @ [[c]])), name_length = 257, labelCount = length ls + 2\<rparr>"
    and "NewName (name_text ls False @ c # c' # rest) False = Panic"
proof -
  note o1 = ft_loop_overlong [OF v c, of "[]"] and o2 = ft_loop_overlong [OF v c, of "c' # rest"]
  have len: "length (wire_labels ls) = 254" using v(2) by simp
  show "NewName (name_text ls False @ [c]) False = Ret \<lparr>raw = wire (ls @ [[c]]),
           offsets = map word_of_nat (offs_from 0 (ls @ [[c]])), name_length = 257, labelCount = length ls + 2\<rparr>"
    using o1 len ft_set_length_eq [of ls "[c]"]
    by (auto simp: NewName_def stringParse_def ft_finish_def parsing_def offs_from_snoc wire_def wire_label_def)
  show "NewName (name_text ls False @ c # c' # rest) False = Panic"
    using o2 len by (auto simp: NewName_def stringParse_def ft_finish_def parsing_def)
qed

section \<open>Properties\<close>

text \<open>C5. Printing and parsing names are inverse: \<open>String\<close> of any well-formed name (whatever bytes its
  labels hold, with or without the final dot) is parsed by \<open>NewName\<close> back to the name, or to its
  lower-case form when that is asked for.\<close>

theorem NewName_String:
  assumes "wf_name n"
  shows "\<exists>t. Name_String n omitFinalDot = Ret t \<and> NewName t d = Ret (if d then name_of (fold_case (labels n)) else n)"
  using assms Name_String_labels [of "labels n" omitFinalDot] NewName_text [of "labels n" omitFinalDot d]
  by (auto simp: wf_name_def cased_def)

theorem NewName_String_witness:
  "\<exists>t. Name_String (name_of [[46, 0], [67]]) True = Ret t \<and> NewName t False = Ret (name_of [[46, 0], [67]])"
  using NewName_String [of "name_of [[46, 0], [67]]" True False]
  by (simp add: wf_name_def labels_name_of valid_labels_def wire_def)

text \<open>C19. The text parser does not enforce the length limit on its last label: one more plain
  character after the text of a name of 255 bytes is accepted as a name of 257 bytes, which is not
  well-formed, and two more characters make \<open>NewName\<close> panic.\<close>

theorem NewName_beyond_limit:
  assumes "valid_labels ls" "length (wire ls) = MAX_WIRE" "plain_char c"
  shows "(\<exists>n. NewName (name_text ls False @ [c]) False = Ret n \<and> name_length n = 257 \<and> \<not> wf_name n) \<and>
    NewName (name_text ls False @ c # c' # rest) False = Panic"
proof -
  have "\<not> wf_name \<lparr>raw = w, offsets = f, name_length = 257, labelCount = k\<rparr>" for w f k
  proof
    assume "wf_name \<lparr>raw = w, offsets = f, name_length = 257, labelCount = k\<rparr>"
    then obtain ls where "valid_labels ls" "\<lparr>raw = w, offsets = f, name_length = 257, labelCount = k\<rparr> = name_of ls"
      by (elim wf_nameE)
    then show False by (auto simp: name_of_def valid_labels_def)
  qed
  then show ?thesis using NewName_overlong [OF assms] by simp
qed

theorem NewName_beyond_limit_witness:
  "NewName (name_text (replicate 127 [97]) False @ [98, 99]) False = Panic"
  using NewName_beyond_limit [of "replicate 127 [97]" 98 99 "[]"]
  by (simp add: valid_labels_def wire_def wire_labels_def wire_label_def length_concat sum_list_replicate plain_char_def)

end
