(* ===== verification/Msg_Render.thy ===== *)
theory Msg_Render
  imports Name_Wire
begin

unbundle bit_operations_syntax

text \<open>
  \<open>src/g53/msgrender.go\<close>: the message renderer with DNS name compression.

  A renderer appends to an output buffer and remembers, in a hash table of 64 buckets, where
  the suffixes of the names it wrote start. \<open>WriteName\<close> looks for the longest suffix that is
  already in the buffer, writes the labels in front of it and a two-byte pointer. The model
  keeps the table as the list of its buckets, the comparator's input buffer is threaded through
  the items of a bucket as in the code (it is not rewound between items), and the loop of
  \<open>nextPos\<close>, which need not end on arbitrary bytes, is a \<open>partial_function\<close>.

  The theorems show that the bytes written denote, in the sense of \<open>name_at\<close>, the name that was
  written, whatever the hash function does, for names whose labels contain no NUL byte.
\<close>

section \<open>The renderer\<close>

record offsetItem =
  item_hash :: u32
  item_pos :: u16
  item_l :: u16

record nameComparator =
  cmp_buf :: OutputBuffer
  cmp_nameBuf :: InputBuffer
  cmp_hash :: u32
  cmp_caseSensitive :: bool

text \<open>\<open>b, _ := buf.At(pos)\<close>\<close>

definition at_or_0 :: "OutputBuffer \<Rightarrow> nat \<Rightarrow> byte" where
  "at_or_0 buf p = (case Out_At buf p of Ret b \<Rightarrow> b | _ \<Rightarrow> 0)"

partial_function (option) nextPos :: "OutputBuffer \<Rightarrow> u16 \<Rightarrow> (byte \<times> u16) option" where
  "nextPos buf p =
     (let b = at_or_0 buf (unat p) in
      if b AND 0xc0 = 0xc0 then
        let nb = at_or_0 buf (unat (p + 1)) in
        nextPos buf (ucast (b AND NOT 0xc0) * 256 + ucast nb)
      else Some (b, p + 1))"

text \<open>The inner loop of \<open>compare\<close>: the characters of one label.\<close>

fun compare_label :: "nameComparator \<Rightarrow> u16 \<Rightarrow> nat \<Rightarrow> (g53_error, bool \<times> u16 \<times> nameComparator) go" where
  "compare_label c itemPos 0 = Ret (True, itemPos, c)"
| "compare_label c itemPos (Suc nameLabelLen) =
     (let ch1 = at_or_0 (cmp_buf c) (unat itemPos) in
      gbind (drop_err 0 (cmp_nameBuf c) (ReadUint8 (cmp_nameBuf c))) (\<lambda>(ch2, nb).
      let c = c\<lparr>cmp_nameBuf := nb\<rparr> in
      if cmp_caseSensitive c then
        (if ch1 \<noteq> ch2 then Ret (False, itemPos, c)
         else compare_label c (itemPos + 1) nameLabelLen)
      else
        (if maptolower ch1 \<noteq> maptolower ch2 then Ret (False, itemPos, c)
         else compare_label c (itemPos + 1) nameLabelLen)))"

text \<open>
  The outer loop; every round reads a byte of the name or returns, so the fuel of
  \<open>datalen + 1\<close> rounds \<open>compare\<close> gives it is never used up (see \<open>compare_item\<close> below).
\<close>

fun compare_loop :: "nat \<Rightarrow> nameComparator \<Rightarrow> u16 \<Rightarrow> (g53_error, bool \<times> nameComparator) go" where
  "compare_loop 0 c itemPos = Diverge"
| "compare_loop (Suc fuel) c itemPos =
     gbind (run_opt (nextPos (cmp_buf c) itemPos)) (\<lambda>(itemLabelLen, itemPos).
     gbind (drop_err 0 (cmp_nameBuf c) (ReadUint8 (cmp_nameBuf c))) (\<lambda>(nameLabelLen, nb).
     let c = c\<lparr>cmp_nameBuf := nb\<rparr> in
     if itemLabelLen \<noteq> nameLabelLen then Ret (False, c)
     else if nameLabelLen = 0 then Ret (True, c)
     else gbind (compare_label c itemPos (unat nameLabelLen)) (\<lambda>(same, itemPos, c).
            if \<not> same then Ret (False, c) else compare_loop fuel c itemPos)))"

definition compare :: "nameComparator \<Rightarrow> offsetItem \<Rightarrow> (g53_error, bool \<times> nameComparator) go" where
  "compare c item =
     (if item_hash item \<noteq> cmp_hash c \<or> item_l item \<noteq> word_of_nat (datalen (cmp_nameBuf c))
      then Ret (False, c)
      else compare_loop (Suc (datalen (cmp_nameBuf c))) c (item_pos item))"

abbreviation BUCKETS :: nat where "BUCKETS \<equiv> 64"
abbreviation NO_OFFSET :: u16 where "NO_OFFSET \<equiv> 65535"
abbreviation MAX_COMPRESS_POINTER :: nat where "MAX_COMPRESS_POINTER \<equiv> 0x3fff"

record MsgRender =
  rbuf :: OutputBuffer
  truncated :: bool
  LenLimit :: u32
  caseSensitive :: bool
  table :: "offsetItem list list"
  seqHashs :: "u32 list"

definition NewMsgRender :: MsgRender where
  "NewMsgRender =
     \<lparr>rbuf = NewOutputBuffer 512, truncated = False, LenLimit = 512, caseSensitive = False,
      table = replicate BUCKETS [], seqHashs = replicate MAX_LABELS 0\<rparr>"

definition SetTrancated :: "MsgRender \<Rightarrow> MsgRender" where
  "SetTrancated r = r\<lparr>truncated := True\<rparr>"

text \<open>The loop of \<open>findOffset\<close> from the last item of the bucket to the first.\<close>

fun findOffset_loop :: "nameComparator \<Rightarrow> offsetItem list \<Rightarrow> (g53_error, u16) go" where
  "findOffset_loop c [] = Ret NO_OFFSET"
| "findOffset_loop c (item # items) =
     gbind (compare c item) (\<lambda>(found, c).
     if found then Ret (item_pos item) else findOffset_loop c items)"

definition findOffset :: "MsgRender \<Rightarrow> OutputBuffer \<Rightarrow> InputBuffer \<Rightarrow> u32 \<Rightarrow> (g53_error, u16) go" where
  "findOffset r out nameBuf hash =
     (let bucketId = hash mod word_of_nat BUCKETS;
          comparator = \<lparr>cmp_buf = out, cmp_nameBuf = nameBuf, cmp_hash = hash,
                        cmp_caseSensitive = caseSensitive r\<rparr>
      in gbind (idx (table r) (unat bucketId)) (\<lambda>items. findOffset_loop comparator (rev items)))"

definition addOffset :: "MsgRender \<Rightarrow> u32 \<Rightarrow> u32 \<Rightarrow> u32 \<Rightarrow> (g53_error, MsgRender) go" where
  "addOffset r hash offset len =
     (let index = unat (hash mod word_of_nat BUCKETS) in
      gbind (idx (table r) index) (\<lambda>items.
      gbind (upd (table r) index (items @ [\<lparr>item_hash = hash, item_pos = ucast offset, item_l = ucast len\<rparr>])) (\<lambda>t.
      Ret (r\<lparr>table := t\<rparr>))))"

definition Render_Clear :: "MsgRender \<Rightarrow> MsgRender" where
  "Render_Clear r =
     r\<lparr>rbuf := Out_Clear (rbuf r), LenLimit := 512, truncated := False, caseSensitive := False,
       table := map (\<lambda>_. []) (table r)\<rparr>"

text \<open>
  The first loop of \<open>WriteName\<close>, with \<open>k\<close> rounds left: the number of labels to write
  (\<open>nlabelsUncomp\<close>) and the offset of the suffix found, or \<open>NO_OFFSET\<close>.
\<close>

fun wn_search :: "bool \<Rightarrow> nat \<Rightarrow> MsgRender \<Rightarrow> NameRef \<Rightarrow> nat \<Rightarrow> (g53_error, MsgRender \<times> nat \<times> u16) go" where
  "wn_search compress 0 r ref nlabelsUncomp = Ret (r, nlabelsUncomp, NO_OFFSET)"
| "wn_search compress (Suc k) r ref nlabelsUncomp =
     (let ref = (if nlabelsUncomp > 0 then Ref_Parent ref else ref) in
      if Ref_IsRoot ref then Ret (r, nlabelsUncomp + 1, NO_OFFSET)
      else
        gbind (Ref_Hash ref (caseSensitive r)) (\<lambda>h.
        gbind (upd (seqHashs r) nlabelsUncomp h) (\<lambda>sh.
        let r = r\<lparr>seqHashs := sh\<rparr> in
        if compress then
          gbind (Ref_Raw ref) (\<lambda>bs.
          gbind (findOffset r (rbuf r) (NewInputBuffer bs) h) (\<lambda>ptrOffset.
          if ptrOffset \<noteq> NO_OFFSET then Ret (r, nlabelsUncomp, ptrOffset)
          else wn_search compress k r ref (nlabelsUncomp + 1)))
        else wn_search compress k r ref (nlabelsUncomp + 1))))"

text \<open>The last loop of \<open>WriteName\<close>, with \<open>k\<close> rounds left: remember the suffixes just written.\<close>

fun wn_remember :: "nat \<Rightarrow> MsgRender \<Rightarrow> nat \<Rightarrow> nat \<Rightarrow> nat \<Rightarrow> (g53_error, MsgRender) go" where
  "wn_remember 0 r i offset nameLen = Ret r"
| "wn_remember (Suc k) r i offset nameLen =
     (let labelLen = at_or_0 (rbuf r) offset in
      if labelLen = 0 then Ret r
      else if offset > MAX_COMPRESS_POINTER then Ret r
      else
        gbind (idx (seqHashs r) i) (\<lambda>h.
        gbind (addOffset r h (word_of_nat offset) (word_of_nat nameLen)) (\<lambda>r.
        wn_remember k r (i + 1) (uadd offset (unat (labelLen + 1))) (usub nameLen (unat (labelLen + 1))))))"

definition WriteName :: "MsgRender \<Rightarrow> Name \<Rightarrow> bool \<Rightarrow> (g53_error, MsgRender) go" where
  "WriteName r name compress =
     (let nlables = labelCount name in
      gbind (wn_search compress nlables r (fromName name) 0) (\<lambda>(r, nlabelsUncomp, ptrOffset).
      let offset = length (odata (rbuf r)) in
      gbind
        (if \<not> compress \<or> nlabelsUncomp = nlables then Ret (r\<lparr>rbuf := WriteData (rbuf r) (raw name)\<rparr>)
         else if nlabelsUncomp > 0 then
           gbind (idx (offsets name) nlabelsUncomp) (\<lambda>compLabelOffset.
           gbind (gslice (raw name) 0 (unat compLabelOffset)) (\<lambda>d.
           Ret (r\<lparr>rbuf := WriteData (rbuf r) d\<rparr>)))
         else Ret r) (\<lambda>r.
      let r = (if compress \<and> ptrOffset \<noteq> NO_OFFSET
               then r\<lparr>rbuf := WriteUint16 (rbuf r) (ptrOffset OR 0xc000)\<rparr> else r)
      in wn_remember nlabelsUncomp r 0 offset (name_length name))))"

definition Name_Rend :: "Name \<Rightarrow> MsgRender \<Rightarrow> (g53_error, MsgRender) go" where
  "Name_Rend name render = WriteName render name True"

definition Render_Skip :: "MsgRender \<Rightarrow> nat \<Rightarrow> MsgRender" where
  "Render_Skip r len = r\<lparr>rbuf := Out_Skip (rbuf r) len\<rparr>"

definition Render_Trim :: "MsgRender \<Rightarrow> nat \<Rightarrow> (g53_error, MsgRender) go" where
  "Render_Trim r len = gbind (Out_Trim (rbuf r) len) (\<lambda>b. Ret (r\<lparr>rbuf := b\<rparr>))"

definition Render_WriteUint8 :: "MsgRender \<Rightarrow> byte \<Rightarrow> MsgRender" where
  "Render_WriteUint8 r d = r\<lparr>rbuf := WriteUint8 (rbuf r) d\<rparr>"

definition Render_WriteUint16 :: "MsgRender \<Rightarrow> u16 \<Rightarrow> MsgRender" where
  "Render_WriteUint16 r d = r\<lparr>rbuf := WriteUint16 (rbuf r) d\<rparr>"

definition Render_WriteUint16At :: "MsgRender \<Rightarrow> u16 \<Rightarrow> nat \<Rightarrow> (g53_error, MsgRender) go" where
  "Render_WriteUint16At r d p = gbind (WriteUint16At (rbuf r) d p) (\<lambda>b. Ret (r\<lparr>rbuf := b\<rparr>))"

text \<open>A length written back with the error of \<open>WriteUint16At\<close> dropped.\<close>

definition patch_length :: "MsgRender \<Rightarrow> u16 \<Rightarrow> nat \<Rightarrow> (g53_error, MsgRender) go" where
  "patch_length r d p = (case Render_WriteUint16At r d p of Err _ \<Rightarrow> Ret r | res \<Rightarrow> res)"

definition Render_WriteUint32 :: "MsgRender \<Rightarrow> u32 \<Rightarrow> MsgRender" where
  "Render_WriteUint32 r d = r\<lparr>rbuf := WriteUint32 (rbuf r) d\<rparr>"

definition Render_WriteData :: "MsgRender \<Rightarrow> byte list \<Rightarrow> MsgRender" where
  "Render_WriteData r d = r\<lparr>rbuf := WriteData (rbuf r) d\<rparr>"

section \<open>Following a stored name\<close>

lemma at_or_0_eq: "at_or_0 out p = (if p < length (odata out) then odata out ! p else 0)"
  by (simp add: at_or_0_def Out_At_def)

lemma at_or_0_drop: "drop p (odata out) = b # rest \<Longrightarrow> at_or_0 out p = b"
  by (auto simp: at_or_0_eq dest: drop_eq_ConsD)

text \<open>\<open>q\<close> is where the first label (or the root) of the name \<open>ls\<close> is stored in place.\<close>

fun head_at :: "byte list \<Rightarrow> nat \<Rightarrow> label list \<Rightarrow> bool" where
  "head_at ds q [] \<longleftrightarrow> (\<exists>rest. drop q ds = 0 # rest)"
| "head_at ds q (l # ls) \<longleftrightarrow>
     (\<exists>rest lim nx. drop q ds = wire_label l @ rest \<and> name_at ds lim (Suc (q + length l)) ls nx)"

lemma pointer_target_le: "pointer_target c b \<le> MAX_COMPRESS_POINTER"
proof -
  have m: "NOT 0xc0 = (0x3f :: byte)" by simp
  have "unat (c AND NOT 0xc0) \<le> 63"
    unfolding m using word_and_le1 [of c "0x3f"] word_and_le2 [of c "0x3f"] by (auto simp: word_le_nat_alt)
  then show ?thesis using unat_byte_less [of b] by (simp add: pointer_target_def)
qed

lemma pointer_target_word:
  "ucast (c AND NOT 0xc0) * 256 + ucast b = (word_of_nat (pointer_target c b) :: u16)"
  by (simp add: pointer_target_def)

lemma nextPos_name_at:
  assumes "name_at (odata out) lim p ls nx" "valid_labels ls" "p + length (wire ls) \<le> MAX_COMPRESS_POINTER + 255"
  shows "\<exists>q. nextPos out (word_of_nat p) = 
      Some (case ls of [] \<Rightarrow> 0 | l # _ \<Rightarrow> word_of_nat (length l), word_of_nat (Suc q)) \<and>
    head_at (odata out) q ls \<and> q + length (wire ls) \<le> MAX_COMPRESS_POINTER + 255"
  using assms
proof (induction rule: name_at.induct)
  case (root p rest lim)
  then have "at_or_0 out p = 0" by (simp add: at_or_0_drop)
  moreover have "(0 :: byte) AND 0xc0 \<noteq> 0xc0" by simp
  ultimately have "nextPos out (word_of_nat p) = Some (0, word_of_nat (Suc p))"
    using root by (subst nextPos.simps) simp
  then show ?case using root by auto
next
  case (label p l rest lim ls nx)
  then have "at_or_0 out p = word_of_nat (length l)"
    by (intro at_or_0_drop) (auto simp: wire_label_def)
  then have "nextPos out (word_of_nat p) = Some (word_of_nat (length l), word_of_nat (Suc p))"
    using label.prems first_byte_cases [OF label.hyps(3,2)]
    by (subst nextPos.simps) (simp add: unat_of_nat take_bit_nat_eq_self)
  then show ?case using label by auto
next
  case (pointer p c b rest q lim ls nx)
  have b: "at_or_0 out p = c" "at_or_0 out (Suc p) = b"
    using at_or_0_drop [OF pointer.hyps(1)] at_or_0_drop [OF drop_eq_ConsD(3) [OF pointer.hyps(1)]] by auto
  have u: "unat (word_of_nat p :: u16) = p" "unat (word_of_nat p + 1 :: u16) = Suc p"
    using pointer.prems by (simp_all add: unat_Suc_u16)
  have "nextPos out (word_of_nat p) = nextPos out (word_of_nat q)"
    using b u pointer.hyps(2,3) by (subst nextPos.simps) (simp add: pointer_target_word [simplified])
  moreover have "q + length (wire ls) \<le> MAX_COMPRESS_POINTER + 255"
    using pointer_target_le [of c b] pointer.hyps(3) pointer.prems(1) by (simp add: valid_labels_def)
  ultimately show ?case using pointer.IH pointer.prems(1) by simp
qed

section \<open>The comparator\<close>

text \<open>The byte the comparator reads from its name buffer, with 0 past the end.\<close>

definition rd :: "byte list \<Rightarrow> nat \<Rightarrow> byte" where
  "rd nm k = (if k < length nm then nm ! k else 0)"

definition eqc :: "bool \<Rightarrow> byte \<Rightarrow> byte \<Rightarrow> bool" where
  "eqc cs a b \<longleftrightarrow> (if cs then a = b else maptolower a = maptolower b)"

lemma eqc_small: "unat a \<le> 63 \<Longrightarrow> eqc cs a b \<longleftrightarrow> a = b"
  using unat_maptolower [of b] maptolower_eq [of b] maptolower_small [of a]
  by (auto simp: eqc_def split: if_splits)

fun matches :: "bool \<Rightarrow> byte list \<Rightarrow> byte list \<Rightarrow> nat \<Rightarrow> bool" where
  "matches cs [] nm k = True"
| "matches cs (x # xs) nm k \<longleftrightarrow> eqc cs x (rd nm k) \<and> matches cs xs nm (Suc k)"

lemma matches_append: "matches cs (xs @ ys) nm k \<longleftrightarrow> matches cs xs nm k \<and> matches cs ys nm (k + length xs)"
  by (induction xs arbitrary: k) auto

lemma matches_nth: "matches cs xs nm k \<longleftrightarrow> (\<forall>j < length xs. eqc cs (xs ! j) (rd nm (k + j)))"
proof (induction xs arbitrary: k)
  case (Cons x xs)
  then show ?case by (auto simp: less_Suc_eq_0_disj)
qed simp

definition name_buf :: "byte list \<Rightarrow> nat \<Rightarrow> InputBuffer" where
  "name_buf nm k = buf_at nm (min k (length nm))"

lemma read_name_buf:
  "length nm < 2 ^ 63 \<Longrightarrow>
   drop_err 0 (name_buf nm k) (ReadUint8 (name_buf nm k)) = Ret (rd nm k, name_buf nm (Suc k))"
  by (auto simp: name_buf_def ReadUint8_def drop_err_def rd_def uadd_small idx_def buf_at_def min_def)

lemma datalen_name_buf [simp]: "datalen (name_buf nm k) = length nm"
  by (simp add: name_buf_def)

lemma compare_label_eq:
  assumes "drop q (odata (cmp_buf c)) = l @ rest" "q + length l < 65536" "length nm < 2 ^ 63"
    "cmp_nameBuf c = name_buf nm k"
  shows "\<exists>p' k'. compare_label c (word_of_nat q) (length l) =
    Ret (if matches (cmp_caseSensitive c) l nm k
         then (True, word_of_nat (q + length l), c\<lparr>cmp_nameBuf := name_buf nm (k + length l)\<rparr>)
         else (False, p', c\<lparr>cmp_nameBuf := name_buf nm k'\<rparr>))"
  using assms
proof (induction l arbitrary: q c k)
  case Nil
  then show ?case by simp
next
  case (Cons x l)
  have x: "at_or_0 (cmp_buf c) q = x" "drop (Suc q) (odata (cmp_buf c)) = l @ rest"
    using Cons.prems(1) at_or_0_drop drop_eq_ConsD by auto
  let ?c = "c\<lparr>cmp_nameBuf := name_buf nm (Suc k)\<rparr>"
  have step: "compare_label c (word_of_nat q) (length (x # l)) =
     (if eqc (cmp_caseSensitive c) x (rd nm k) then compare_label ?c (word_of_nat (Suc q)) (length l)
      else Ret (False, word_of_nat q, ?c))"
    using Cons.prems x read_name_buf [of nm k] by (simp add: eqc_def add.commute)
  show ?case
    using Cons.IH [of "Suc q" ?c "Suc k"] Cons.prems x(2) unfolding step by (auto simp: add.commute)
qed

lemma compare_loop_eq:
  assumes "name_at (odata (cmp_buf c)) lim p ls nx" "valid_labels ls"
    "p + length (wire ls) \<le> MAX_COMPRESS_POINTER + 255"
    "length nm < 2 ^ 63" "cmp_nameBuf c = name_buf nm k" "length ls < fuel"
  shows "\<exists>k'. compare_loop fuel c (word_of_nat p) =
    Ret (matches (cmp_caseSensitive c) (wire ls) nm k, c\<lparr>cmp_nameBuf := name_buf nm k'\<rparr>)"
  using assms
proof (induction ls arbitrary: fuel c lim p nx k)
  case Nil
  then obtain f where f: "fuel = Suc f" by (cases fuel) auto
  obtain q where "nextPos (cmp_buf c) (word_of_nat p) = Some (0, word_of_nat (Suc q))"
    using nextPos_name_at [OF Nil.prems(1-3)] by auto
  then show ?case
    using Nil.prems read_name_buf [of nm k] f by (auto simp: wire_def eqc_small Let_def)
next
  case (Cons l ls)
  obtain f where f: "fuel = Suc f" using Cons.prems(6) by (cases fuel) auto
  have l: "l \<noteq> []" "length l \<le> 63" "valid_labels ls" using Cons.prems(2) by (auto simp: valid_labels_Cons)
  obtain q rest lim' nx' where q: 
    "nextPos (cmp_buf c) (word_of_nat p) = Some (word_of_nat (length l), word_of_nat (Suc q))"
    "drop q (odata (cmp_buf c)) = wire_label l @ rest" "name_at (odata (cmp_buf c)) lim' (Suc (q + length l)) ls nx'"
    "q + length (wire (l # ls)) \<le> MAX_COMPRESS_POINTER + 255"
    using nextPos_name_at [OF Cons.prems(1-3)] by auto
  let ?c = "c\<lparr>cmp_nameBuf := name_buf nm (Suc k)\<rparr>" and ?m = "matches (cmp_caseSensitive c)"
  let ?c' = "c\<lparr>cmp_nameBuf := name_buf nm (Suc k + length l)\<rparr>"
  have "drop (Suc q) (odata (cmp_buf ?c)) = l @ rest"
    using drop_eq_ConsD(3) q(2) by (auto simp: wire_label_def)
  then obtain p' k' where lab: "compare_label ?c (word_of_nat (Suc q)) (length l) =
    Ret (if ?m l nm (Suc k) then (True, word_of_nat (Suc q + length l), ?c')
         else (False, p', c\<lparr>cmp_nameBuf := name_buf nm k'\<rparr>))"
    using compare_label_eq [of "Suc q" ?c l rest nm "Suc k"] q(4) Cons.prems(4)
    by (cases "?m l nm (Suc k)") auto
  obtain k2 where rest: "compare_loop f ?c' (word_of_nat (Suc (q + length l))) =
    Ret (?m (wire ls) nm (Suc k + length l), c\<lparr>cmp_nameBuf := name_buf nm k2\<rparr>)"
    using Cons.IH [of ?c' lim' "Suc (q + length l)" nx' "Suc k + length l" f] q(3,4) l Cons.prems(4,6) f by auto
  have m: "?m (wire (l # ls)) nm k \<longleftrightarrow>
      word_of_nat (length l) = rd nm k \<and> ?m l nm (Suc k) \<and> ?m (wire ls) nm (Suc k + length l)"
    using l by (simp add: wire_def wire_label_def matches_append eqc_small)
  have nz: "unat (word_of_nat (length l) :: byte) = length l" "(word_of_nat (length l) :: byte) \<noteq> 0"
    using l by (simp_all add: word_of_nat_byte_eq_0_iff)
  show ?case
    using q(1) read_name_buf [of nm k] Cons.prems(4,5) nz lab rest unfolding f m
    by (cases "word_of_nat (length l) = rd nm k"; cases "?m l nm (Suc k)") auto
qed

lemma compare_eq:
  assumes "name_at (odata (cmp_buf c)) (unat (item_pos item)) (unat (item_pos item)) ls nx" "valid_labels ls"
    "unat (item_pos item) \<le> MAX_COMPRESS_POINTER" "unat (item_l item) = length (wire ls)"
    "length nm \<le> 255" "cmp_nameBuf c = name_buf nm k"
  shows "\<exists>b k'. compare c item = Ret (b, c\<lparr>cmp_nameBuf := name_buf nm k'\<rparr>) \<and>
     (b \<longrightarrow> length (wire ls) = length nm \<and> matches (cmp_caseSensitive c) (wire ls) nm k)"
proof (cases "item_hash item = cmp_hash c \<and> item_l item = word_of_nat (length nm)")
  case False
  then show ?thesis using assms(6) by (intro exI [of _ False] exI [of _ k]) (auto simp: compare_def)
next
  case True
  then have len: "length (wire ls) = length nm" using assms(4,5) by simp
  have "length ls \<le> length (wire_labels ls)" by (simp add: length_wire_labels)
  then have fuel: "length ls < Suc (length nm)" using len by simp
  have b: "unat (item_pos item) + length (wire ls) \<le> MAX_COMPRESS_POINTER + 255" using assms(3,5) len by simp
  show ?thesis
    using True len assms(5,6) compare_loop_eq [OF assms(1,2) b _ assms(6) fuel] by (auto simp: compare_def)
qed

section \<open>What the table promises\<close>

definition nul_free :: "label list \<Rightarrow> bool" where
  "nul_free ls \<longleftrightarrow> (\<forall>l \<in> set ls. 0 \<notin> set l)"

text \<open>
  \<open>over A ls\<close>: labels made of bytes of \<open>A\<close>, which does not hold NUL. \<open>A\<close> is all bytes but NUL, or the lower case
  ones for messages whose names come back exactly.
\<close>

definition over :: "byte set \<Rightarrow> label list \<Rightarrow> bool" where
  "over A ls \<longleftrightarrow> 0 \<notin> A \<and> (\<forall>l \<in> set ls. set l \<subseteq> A)"

lemma over_nul_free: "over A ls \<Longrightarrow> nul_free ls"
  by (auto simp: over_def nul_free_def)

lemma over_non_zero: "over (- {0}) ls \<longleftrightarrow> nul_free ls"
  by (auto simp: over_def nul_free_def)

definition same_name :: "bool \<Rightarrow> label list \<Rightarrow> label list \<Rightarrow> bool" where
  "same_name cs ls ms \<longleftrightarrow> (if cs then ls = ms else fold_case ls = fold_case ms)"

text \<open>
  \<open>N\<close> is the set of positions that hold bytes of names: \<open>agree N ds ds'\<close> says that \<open>ds'\<close> is at
  least as long as \<open>ds\<close> and has the same bytes there. An item of the table is sound when the
  name it stands for can be read at its position in every such message.
\<close>

definition agree :: "nat set \<Rightarrow> byte list \<Rightarrow> byte list \<Rightarrow> bool" where
  "agree N ds ds' \<longleftrightarrow> length ds \<le> length ds' \<and> (\<forall>i \<in> N. i < length ds \<longrightarrow> ds' ! i = ds ! i)"

definition denotes :: "nat set \<Rightarrow> byte list \<Rightarrow> nat \<Rightarrow> label list \<Rightarrow> bool" where
  "denotes N ds p ls \<longleftrightarrow> (\<forall>ds'. agree N ds ds' \<longrightarrow> (\<exists>nx. name_at ds' p p ls nx))"

definition item_ok :: "byte set \<Rightarrow> nat set \<Rightarrow> byte list \<Rightarrow> offsetItem \<Rightarrow> bool" where
  "item_ok A N ds item \<longleftrightarrow> unat (item_pos item) \<le> MAX_COMPRESS_POINTER \<and>
     (\<exists>ls. valid_labels ls \<and> ls \<noteq> [] \<and> over A ls \<and> unat (item_l item) = length (wire ls) \<and>
           denotes N ds (unat (item_pos item)) ls)"

definition render_ok :: "byte set \<Rightarrow> nat set \<Rightarrow> MsgRender \<Rightarrow> bool" where
  "render_ok A N r \<longleftrightarrow> length (table r) = BUCKETS \<and> length (seqHashs r) = MAX_LABELS \<and>
     (\<forall>items \<in> set (table r). \<forall>item \<in> set items. item_ok A N (odata (rbuf r)) item)"

lemma agree_refl [simp]: "agree N ds ds"
  by (simp add: agree_def)

lemma agree_trans: "agree N ds ds2 \<Longrightarrow> N \<subseteq> N2 \<Longrightarrow> agree N2 ds2 ds3 \<Longrightarrow> agree N ds ds3"
  by (fastforce simp: agree_def)

lemma agree_append: "agree N ds (ds @ xs)"
  by (simp add: agree_def nth_append)

lemma denotes_mono: "denotes N ds p ls \<Longrightarrow> agree N ds ds2 \<Longrightarrow> N \<subseteq> N2 \<Longrightarrow> denotes N2 ds2 p ls"
  unfolding denotes_def using agree_trans by blast

lemma item_ok_mono: "item_ok A N ds item \<Longrightarrow> agree N ds ds2 \<Longrightarrow> N \<subseteq> N2 \<Longrightarrow> item_ok A N2 ds2 item"
  unfolding item_ok_def using denotes_mono by blast

lemma agree_drop:
  assumes "agree N (ds @ xs) ds'" "{length ds..<length ds + length xs} \<subseteq> N"
  obtains rest where "drop (length ds) ds' = xs @ rest"
proof
  have "take (length xs) (drop (length ds) ds') = xs"
  proof (rule nth_equalityI)
    fix i assume i: "i < length (take (length xs) (drop (length ds) ds'))"
    then have "length ds + i \<in> N" using assms(2) by (simp add: subset_iff)
    then show "take (length xs) (drop (length ds) ds') ! i = xs ! i"
      using assms(1) i by (auto simp: agree_def nth_append)
  qed (use assms(1) in \<open>auto simp: agree_def\<close>)
  then show "drop (length ds) ds' = xs @ drop (length xs) (drop (length ds) ds')"
    by (metis append_take_drop_id)
qed

section \<open>The comparator finds only the name it looks for\<close>

lemma wire_nonzero:
  assumes "valid_labels ls" "nul_free ls" "j < length (wire_labels ls)"
  shows "wire ls ! j \<noteq> 0"
proof -
  have "0 \<notin> set (wire_labels ls)"
    using assms(1,2)
    by (auto simp: wire_labels_def wire_label_def nul_free_def valid_labels_def word_of_nat_byte_eq_0_iff
        dest!: sym [of 0])
  then show ?thesis using assms(3) by (auto simp: wire_def nth_append set_conv_nth)
qed

lemma eqc_0: "eqc cs a 0 \<longleftrightarrow> a = 0"
  using eqc_small [of 0 cs a] by (auto simp: eqc_def)

lemma wire_inj:
  assumes "valid_labels ls" "valid_labels ms"
  shows "wire ls = wire ms \<longleftrightarrow> ls = ms"
  using assms unwire_wire [of ls "[]"] unwire_wire [of ms "[]"] unfolding valid_labels_def
  by (metis append_Nil2)

lemma same_name_wire:
  assumes v: "valid_labels ls" "valid_labels ms" and len: "length (wire ls) = length (wire ms)"
  shows "matches cs (wire ls) (wire ms) 0 \<longleftrightarrow> same_name cs ls ms"
proof -
  have "matches cs (wire ls) (wire ms) 0 \<longleftrightarrow>
      (if cs then wire ls = wire ms else map maptolower (wire ls) = map maptolower (wire ms))"
    using len by (auto simp: matches_nth rd_def eqc_def list_eq_iff_nth_eq simp del: length_wire)
  moreover have "map maptolower (wire ls) = wire (fold_case ls)" "map maptolower (wire ms) = wire (fold_case ms)"
    using v by (auto simp: valid_labels_def intro: map_maptolower_wire)
  ultimately show ?thesis using v by (simp add: same_name_def wire_inj)
qed

lemma matches_only_at_start:
  assumes "matches cs (wire ls) (wire ms) k" "valid_labels ls" "nul_free ls" "ls \<noteq> []"
    "length (wire ls) = length (wire ms)"
  shows "k = 0"
proof (rule ccontr)
  assume k: "k \<noteq> 0"
  define j where "j = (if k \<le> length (wire_labels ms) then length (wire_labels ms) - k else 0)"
  have "0 < length (wire_labels ls)" using assms(4) by (cases ls) simp_all
  then have j: "j < length (wire_labels ls)" using k assms(5) by (auto simp: j_def)
  have "rd (wire ms) (k + j) = 0" by (auto simp: rd_def j_def wire_def nth_append)
  moreover have "eqc cs (wire ls ! j) (rd (wire ms) (k + j))"
    using assms(1) j by (simp add: matches_nth)
  ultimately show False using wire_nonzero [OF assms(2,3) j] by (simp add: eqc_0)
qed

lemma findOffset_loop_sound:
  assumes "\<forall>item \<in> set items. item_ok A N (odata (cmp_buf c)) item" "valid_labels ms"
    "cmp_nameBuf c = name_buf (wire ms) k"
  shows "\<exists>off. findOffset_loop c items = Ret off \<and> (off = NO_OFFSET \<or>
     unat off \<le> MAX_COMPRESS_POINTER \<and> (\<exists>ls. valid_labels ls \<and> over A ls \<and>
       denotes N (odata (cmp_buf c)) (unat off) ls \<and> same_name (cmp_caseSensitive c) ls ms))"
  using assms
proof (induction items arbitrary: c k)
  case (Cons item items)
  then obtain ls where ls: "valid_labels ls" "ls \<noteq> []" "over A ls" "unat (item_l item) = length (wire ls)"
    "denotes N (odata (cmp_buf c)) (unat (item_pos item)) ls" "unat (item_pos item) \<le> MAX_COMPRESS_POINTER"
    by (auto simp: item_ok_def)
  then obtain nx where "name_at (odata (cmp_buf c)) (unat (item_pos item)) (unat (item_pos item)) ls nx"
    unfolding denotes_def by (meson agree_refl)
  then obtain b k' where cmp: "compare c item = Ret (b, c\<lparr>cmp_nameBuf := name_buf (wire ms) k'\<rparr>)"
    "b \<Longrightarrow> length (wire ls) = length (wire ms) \<and> matches (cmp_caseSensitive c) (wire ls) (wire ms) k"
    using compare_eq [of c item ls nx "wire ms" k] ls Cons.prems(2,3) by (auto simp: valid_labels_def)
  show ?case
  proof (cases b)
    case True
    have k: "k = 0"
      using matches_only_at_start [of _ ls ms k] cmp(2) [OF True] ls over_nul_free by blast
    then have "same_name (cmp_caseSensitive c) ls ms"
      using same_name_wire [OF ls(1) Cons.prems(2)] cmp(2) [OF True] by simp
    then show ?thesis using cmp(1) True ls by auto
  next
    case False
    then show ?thesis
      using cmp(1) Cons.IH [of "c\<lparr>cmp_nameBuf := name_buf (wire ms) k'\<rparr>" k'] Cons.prems by auto
  qed
qed simp

lemma bucket_less: "unat (h mod word_of_nat BUCKETS :: u32) < BUCKETS"
  by (simp add: unat_mod)

definition suffix_found :: "byte set \<Rightarrow> nat set \<Rightarrow> byte list \<Rightarrow> bool \<Rightarrow> u16 \<Rightarrow> label list \<Rightarrow> bool" where
  "suffix_found A N ds cs off ms \<longleftrightarrow> unat off \<le> MAX_COMPRESS_POINTER \<and>
     (\<exists>ls. valid_labels ls \<and> over A ls \<and> denotes N ds (unat off) ls \<and> same_name cs ls ms)"

lemma findOffset_sound:
  assumes "render_ok A N r" "valid_labels ms"
  shows "\<exists>off. findOffset r (rbuf r) (NewInputBuffer (wire ms)) h = Ret off \<and>
     (off = NO_OFFSET \<or> suffix_found A N (odata (rbuf r)) (caseSensitive r) off ms)"
proof -
  let ?i = "unat (h mod word_of_nat BUCKETS :: u32)"
  have i: "?i < length (table r)" using assms(1) bucket_less by (simp add: render_ok_def)
  have nb: "NewInputBuffer (wire ms) = name_buf (wire ms) 0"
    by (simp add: name_buf_def NewInputBuffer_input buf_at_input)
  have "\<forall>item \<in> set (rev (table r ! ?i)). item_ok A N (odata (rbuf r)) item"
    using assms(1) i by (auto simp: render_ok_def)
  from findOffset_loop_sound [of "rev (table r ! ?i)" A N "\<lparr>cmp_buf = rbuf r, cmp_nameBuf = name_buf (wire ms) 0,
      cmp_hash = h, cmp_caseSensitive = caseSensitive r\<rparr>" ms 0] this assms(2) i
  show ?thesis by (auto simp: findOffset_def Let_def nb idx_in_range suffix_found_def)
qed

lemma wn_search_sound:
  assumes "render_ok A N r" "valid_labels ls" "k + n = length ls + 1"
    "ref = \<lparr>inner = name_of ls, parentLevel = n - 1\<rparr>" "n \<le> length ls"
  shows "\<exists>sh m off. wn_search compress k r ref n = Ret (r\<lparr>seqHashs := sh\<rparr>, m, off) \<and> length sh = MAX_LABELS \<and>
     (off = NO_OFFSET \<and> m = length ls + 1 \<or>
      compress \<and> m < length ls \<and> off \<noteq> NO_OFFSET \<and> suffix_found A N (odata (rbuf r)) (caseSensitive r) off (drop m ls))"
  using assms
proof (induction k arbitrary: r ref n)
  case (Suc k)
  let ?ref = "\<lparr>inner = name_of ls, parentLevel = n\<rparr>"
  have ref: "(if n > 0 then Ref_Parent ref else ref) = ?ref" using Suc.prems(4) by (simp add: Ref_Parent_def)
  show ?case
  proof (cases "n = length ls")
    case True
    then have "wn_search compress (Suc k) r ref n = Ret (r\<lparr>seqHashs := seqHashs r\<rparr>, length ls + 1, NO_OFFSET)"
      using ref by (simp add: Let_def Ref_IsRoot_def)
    then show ?thesis using Suc.prems(1) unfolding render_ok_def by blast
  next
    case False
    then have n: "n < length ls" using Suc.prems(5) by simp
    let ?h = "Hash (name_of (drop n ls)) (caseSensitive r)"
    let ?r = "r\<lparr>seqHashs := (seqHashs r)[n := ?h]\<rparr>"
    have sh: "upd (seqHashs r) n ?h = (Ret ((seqHashs r)[n := ?h]) :: (g53_error, _) go)"
      using n length_labels_le [OF Suc.prems(2)] Suc.prems(1) by (simp add: upd_def render_ok_def)
    have r: "render_ok A N ?r" using Suc.prems(1) by (simp add: render_ok_def)
    note IH = Suc.IH [OF r Suc.prems(2), of "n + 1" ?ref]
    obtain off where off: "findOffset ?r (rbuf ?r) (NewInputBuffer (wire (drop n ls))) ?h = Ret off"
      "off = NO_OFFSET \<or> suffix_found A N (odata (rbuf r)) (caseSensitive r) off (drop n ls)"
      using findOffset_sound [OF r valid_labels_drop [OF Suc.prems(2), of n]] by fastforce
    have step: "wn_search compress (Suc k) r ref n =
      (if compress \<and> off \<noteq> NO_OFFSET then Ret (?r, n, off) else wn_search compress k ?r ?ref (n + 1))"
      using ref n Suc.prems(2) sh off(1) by (simp add: Let_def Ref_IsRoot_def Ref_Hash_labels Ref_Raw_labels)
    show ?thesis
    proof (cases "compress \<and> off \<noteq> NO_OFFSET")
      case True
      then show ?thesis
        using step off(2) n Suc.prems(1)
        by (intro exI [of _ "(seqHashs r)[n := ?h]"] exI [of _ n] exI [of _ off]) (auto simp: render_ok_def)
    next
      case False
      then show ?thesis using step IH Suc.prems(3) n by auto
    qed
  qed
qed simp

section \<open>What is written denotes the name\<close>

lemma name_at_after_labels:
  assumes "\<forall>l \<in> set ls. l \<noteq> [] \<and> length l \<le> 63" "drop p D = wire_labels ls @ rest"
    "name_at D lim (p + length (wire_labels ls)) ms nx"
  shows "name_at D lim p (ls @ ms) nx"
  using assms
proof (induction ls arbitrary: p)
  case (Cons l ls)
  have "drop (Suc (p + length l)) D = wire_labels ls @ rest"
    using Cons.prems(2) drop_plus [of p "Suc (length l)" D] by simp
  then have "name_at D lim (Suc (p + length l)) (ls @ ms) nx"
    using Cons.prems by (intro Cons.IH) (simp_all add: add.assoc)
  then show ?case
    using Cons.prems(1,2) name_at.label [of p D l "wire_labels ls @ rest" lim "ls @ ms"] by simp
qed simp

lemma pointer_masks: "(0xc0 :: byte) = push_bit 6 (mask 2)" "(0xc000 :: u16) = push_bit 14 (mask 2)"
  by (simp_all add: mask_eq_exp_minus_1 push_bit_eq_mult)

lemma pointer_first_byte:
  fixes off :: u16
  assumes "unat off \<le> MAX_COMPRESS_POINTER"
  shows "(ucast (drop_bit 8 (off OR 0xc000)) :: byte) AND 0xc0 = 0xc0"
    and "(ucast (drop_bit 8 (off OR 0xc000)) :: byte) AND NOT 0xc0 = ucast (drop_bit 8 off)"
    and "(ucast (off OR 0xc000) :: byte) = ucast off"
proof -
  have off: "take_bit 14 off = off"
    using assms by (simp add: word_unat_eq_iff unsigned_take_bit_eq take_bit_nat_eq_self)
  have hi: "\<not> bit off n" if "14 \<le> n" for n
    using that by (subst off [symmetric]) (simp add: bit_take_bit_iff)
  show "(ucast (drop_bit 8 (off OR 0xc000)) :: byte) AND 0xc0 = 0xc0"
    unfolding pointer_masks by (rule bit_word_eqI) (auto simp: bit_simps)
  show "(ucast (drop_bit 8 (off OR 0xc000)) :: byte) AND NOT 0xc0 = ucast (drop_bit 8 off)"
    unfolding pointer_masks by (rule bit_word_eqI) (auto simp: bit_simps hi)
  show "(ucast (off OR 0xc000) :: byte) = ucast off"
    unfolding pointer_masks by (rule bit_word_eqI) (auto simp: bit_simps)
qed

lemma pointer_bytes:
  assumes "unat off \<le> MAX_COMPRESS_POINTER"
  obtains c b where "be16 (off OR 0xc000) = [c, b]" "c AND 0xc0 = 0xc0" "pointer_target c b = unat off"
proof
  let ?c = "ucast (drop_bit 8 (off OR 0xc000)) :: byte" and ?b = "ucast (off OR 0xc000) :: byte"
  show "be16 (off OR 0xc000) = [?c, ?b]" by (simp add: be16_def)
  show "?c AND 0xc0 = 0xc0" by (rule pointer_first_byte(1) [OF assms])
  have "unat (ucast (drop_bit 8 off) :: byte) = unat off div 256"
    using assms by (simp add: unsigned_ucast_eq unat_div drop_bit_eq_div take_bit_eq_mod)
  moreover have "unat (ucast off :: byte) = unat off mod 256" by (simp add: unsigned_ucast_eq take_bit_eq_mod)
  ultimately show "pointer_target ?c ?b = unat off"
    unfolding pointer_target_def pointer_first_byte(2,3) [OF assms] by simp
qed
text \<open>The bytes \<open>WriteName\<close> emits: all labels, or some labels and a pointer to the rest.\<close>

definition name_bytes :: "label list \<Rightarrow> nat \<Rightarrow> u16 \<Rightarrow> byte list" where
  "name_bytes ls m off =
     (if off = NO_OFFSET then wire ls else wire_labels (take m ls) @ be16 (off OR 0xc000))"

lemma name_at_name_bytes:
  assumes D: "drop p D = name_bytes ls m off @ rest" and v: "valid_labels ls"
    and off: "off \<noteq> NO_OFFSET \<Longrightarrow> unat off \<le> MAX_COMPRESS_POINTER \<and> unat off < p \<and>
        name_at D (unat off) (unat off) ms nx"
    and full: "full = (if off = NO_OFFSET then ls else take m ls @ ms)"
  shows "name_at D p p full (p + length (name_bytes ls m off))"
proof (cases "off = NO_OFFSET")
  case True
  have "name_at D p (p + length (wire_labels ls)) [] (Suc (p + length (wire_labels ls)))"
    by (rule name_at.root [of _ _ rest])
      (use D True in \<open>simp add: name_bytes_def wire_def drop_plus del: drop_drop\<close>)
  then show ?thesis
    using name_at_after_labels [of ls p D "0 # rest" p "[]"] D True v full
    by (simp add: name_bytes_def wire_def valid_labels_def)
next
  case False
  obtain c b where cb: "be16 (off OR 0xc000) = [c, b]" "c AND 0xc0 = 0xc0" "pointer_target c b = unat off"
    using pointer_bytes off False by blast
  let ?k = "p + length (wire_labels (take m ls))"
  have "drop ?k D = c # b # rest"
    using D False cb(1) by (simp add: name_bytes_def drop_plus del: drop_drop)
  then have "name_at D p ?k ms (Suc (Suc ?k))"
    using cb off False by (intro name_at.pointer) auto
  then show ?thesis
    using name_at_after_labels [of "take m ls" p D "c # b # rest" p ms "Suc (Suc ?k)"] D False v full cb(1)
      valid_labels_take [OF v, of m]
    by (simp add: name_bytes_def valid_labels_def)
qed

section \<open>The new suffixes are remembered correctly\<close>

lemma addOffset_ok:
  assumes "render_ok A N r" "item_ok A N (odata (rbuf r)) \<lparr>item_hash = h, item_pos = ucast off, item_l = ucast len\<rparr>"
  shows "\<exists>t. addOffset r h off len = Ret (r\<lparr>table := t\<rparr>) \<and> render_ok A N (r\<lparr>table := t\<rparr>)"
proof -
  let ?i = "unat (h mod word_of_nat BUCKETS)"
  have i: "?i < length (table r)" using assms(1) bucket_less by (simp add: render_ok_def)
  have "addOffset r h off len = Ret (r\<lparr>table := (table r)[?i := table r ! ?i @
      [\<lparr>item_hash = h, item_pos = ucast off, item_l = ucast len\<rparr>]]\<rparr>)"
    using i by (simp add: addOffset_def Let_def idx_in_range upd_in_range)
  moreover have "\<forall>item \<in> set (table r ! ?i). item_ok A N (odata (rbuf r)) item"
    using assms(1) i nth_mem by (auto simp: render_ok_def)
  then have "render_ok A N (r\<lparr>table := (table r)[?i := table r ! ?i @
      [\<lparr>item_hash = h, item_pos = ucast off, item_l = ucast len\<rparr>]]\<rparr>)"
    using assms i by (auto simp: render_ok_def dest!: subsetD [OF set_update_subset_insert])
  ultimately show ?thesis by blast
qed

lemma unat_u32_u16: "n < 65536 \<Longrightarrow> unat (ucast (word_of_nat n :: u32) :: u16) = n"
  by (simp add: unsigned_ucast_eq unat_of_nat take_bit_nat_eq_self)

lemma name_at_tail:
  assumes "name_at D lim p (l # ls) nx" "drop p D = wire_label l @ rest" "l \<noteq> []" "length l \<le> 63"
  shows "name_at D lim (Suc (p + length l)) ls nx"
  using assms(1)
  by (cases rule: name_at.cases) (use assms first_byte_cases [of l] in \<open>auto simp: wire_label_def\<close>)

lemma wn_remember_ok:
  assumes "render_ok A N r" "valid_labels full" "over A full" "i + k \<le> 128"
    "k \<le> length full \<or> k = Suc (length full) \<and> at_or_0 (rbuf r) (p + length (wire_labels full)) = 0"
    "\<forall>D. agree N (odata (rbuf r)) D \<longrightarrow> (\<exists>rest. drop p D = wire_labels (take k full) @ rest)"
    "\<forall>D. agree N (odata (rbuf r)) D \<longrightarrow> (\<exists>nx. name_at D lim p full nx)" "lim \<le> p"
    "p + length (wire full) < 2 ^ 63"
  shows "\<exists>t. wn_remember k r i p (length (wire full)) = Ret (r\<lparr>table := t\<rparr>) \<and> render_ok A N (r\<lparr>table := t\<rparr>)"
  using assms
proof (induction k arbitrary: r i p full)
  case 0
  then show ?case by (intro exI [of _ "table r"]) simp
next
  case (Suc k)
  show ?case
  proof (cases full)
    case Nil
    then show ?thesis using Suc.prems(1,5) by (intro exI [of _ "table r"]) (auto simp: Let_def)
  next
    case (Cons l ls)
    have l: "l \<noteq> []" "length l \<le> 63" "valid_labels ls" "over A ls" using Suc.prems(2,3) Cons
      by (auto simp: valid_labels_Cons over_def)
    obtain rest where "drop p (odata (rbuf r)) = wire_label l @ rest"
      using Suc.prems(6) Cons by (metis agree_refl append.assoc take_Suc_Cons wire_labels_simps(2))
    then have b: "at_or_0 (rbuf r) p = word_of_nat (length l)"
      by (auto simp: wire_label_def intro: at_or_0_drop)
    have nz: "(word_of_nat (length l) :: byte) \<noteq> 0" "unat (word_of_nat (length l) + 1 :: byte) = Suc (length l)"
      using l(1,2) unat_word_of_nat_byte [of "Suc (length l)"] by (simp_all add: word_of_nat_byte_eq_0_iff add.commute)
    show ?thesis
    proof (cases "p > MAX_COMPRESS_POINTER")
      case True
      then show ?thesis using Suc.prems(1) by (intro exI [of _ "table r"]) (simp add: b nz Let_def)
    next
      case False
      let ?it = "\<lambda>h. \<lparr>item_hash = h, item_pos = ucast (word_of_nat p :: u32), item_l = ucast (word_of_nat (length (wire full)) :: u32)\<rparr>"
      have "denotes N (odata (rbuf r)) p full"
        unfolding denotes_def using Suc.prems(7,8) name_at_lim_mono by blast
      then have "item_ok A N (odata (rbuf r)) (?it h)" for h
        using False Suc.prems(2,3) unat_u32_u16 [of p] unat_u32_u16 [of "length (wire full)"] Cons
        unfolding item_ok_def
        by (intro conjI exI [of _ full]) (simp_all add: valid_labels_def del: length_wire of_nat_add of_nat_Suc)
      then obtain t where t: "addOffset r (seqHashs r ! i) (word_of_nat p) (word_of_nat (length (wire full)))
          = Ret (r\<lparr>table := t\<rparr>)" "render_ok A N (r\<lparr>table := t\<rparr>)"
        using addOffset_ok [OF Suc.prems(1)] by blast
      have h: "idx (seqHashs r) i = (Ret (seqHashs r ! i) :: (g53_error, u32) go)"
        using Suc.prems(1,4) by (simp add: idx_def render_ok_def)
      have tl: "\<exists>rest. drop (Suc (p + length l)) D = wire_labels (take k ls) @ rest"
        "\<exists>nx. name_at D lim (Suc (p + length l)) ls nx" if D: "agree N (odata (rbuf r)) D" for D
      proof -
        obtain rest nx where "drop p D = wire_label l @ wire_labels (take k ls) @ rest" "name_at D lim p (l # ls) nx"
          using Suc.prems(6,7) Cons D by (metis append.assoc take_Suc_Cons wire_labels_simps(2))
        then show "\<exists>rest. drop (Suc (p + length l)) D = wire_labels (take k ls) @ rest"
          "\<exists>nx. name_at D lim (Suc (p + length l)) ls nx"
          using drop_plus [of p "Suc (length l)" D] name_at_tail [of D lim p l ls nx] l(1,2) by auto
      qed
      obtain t' where t': "wn_remember k (r\<lparr>table := t\<rparr>) (Suc i) (Suc (p + length l)) (length (wire ls))
          = Ret (r\<lparr>table := t'\<rparr>)" "render_ok A N (r\<lparr>table := t'\<rparr>)"
        using Suc.IH [OF t(2) l(3,4), of "Suc i" "Suc (p + length l)"] tl Suc.prems(4,5,8,9) Cons
        by (auto simp: add.assoc)
      have "uadd p (Suc (length l)) = Suc (p + length l)" "usub (length (wire full)) (Suc (length l)) = length (wire ls)"
        using Suc.prems(9) Cons by (simp_all add: uadd_small usub_small)
      then show ?thesis using t(1) t' h False Cons b nz by (auto simp: Let_def)
    qed
  qed
qed

section \<open>WriteName\<close>

lemma same_name_lengths:
  assumes "same_name cs ls ms"
  shows "length (wire_labels ls) = length (wire_labels ms)" "length ls = length ms"
  using assms fold_case_eqD [of ls ms] by (auto simp: same_name_def split: if_splits)

lemma same_name_append: "same_name cs ls ms \<Longrightarrow> same_name cs (xs @ ls) (xs @ ms)"
  by (simp add: same_name_def)

lemma denotes_less: "denotes N ds p ls \<Longrightarrow> p < length ds"
proof -
  assume "denotes N ds p ls"
  then obtain nx where "name_at ds p p ls nx" unfolding denotes_def by (meson agree_refl)
  then show ?thesis by (cases rule: name_at.cases) (auto dest: drop_eq_ConsD simp: wire_label_def)
qed

text \<open>The whole name that a reader sees when the suffix behind \<open>m\<close> labels was replaced by a pointer.\<close>

lemma suffix_found_full:
  assumes "suffix_found A N ds cs off (drop m ls)" "valid_labels ls" "over A ls" "off \<noteq> NO_OFFSET"
  obtains ms where "valid_labels (take m ls @ ms)" "over A (take m ls @ ms)" "same_name cs (take m ls @ ms) ls"
    "denotes N ds (unat off) ms" "unat off \<le> MAX_COMPRESS_POINTER" "unat off < length ds"
proof -
  obtain ms where ms: "valid_labels ms" "over A ms" "denotes N ds (unat off) ms" "same_name cs ms (drop m ls)"
    "unat off \<le> MAX_COMPRESS_POINTER" using assms(1) by (auto simp: suffix_found_def)
  have s: "same_name cs (take m ls @ ms) ls"
    using same_name_append [OF ms(4), of "take m ls"] by simp
  moreover have "valid_labels (take m ls @ ms)"
    using valid_labels_take [OF assms(2), of m] ms(1) same_name_lengths [OF s] assms(2)
    by (auto simp: valid_labels_def)
  moreover have "over A (take m ls @ ms)"
    using ms(2) assms(3) by (auto simp: over_def dest: in_set_takeD)
  ultimately show ?thesis using that ms denotes_less by blast
qed

lemma WriteName_emit:
  assumes v: "valid_labels ls"
    and s: "wn_search compress (Suc (length ls)) r (fromName (name_of ls)) 0 = Ret (r\<lparr>seqHashs := sh\<rparr>, m, off)"
    and c: "off = NO_OFFSET \<and> m = length ls + 1 \<or> compress \<and> m < length ls \<and> off \<noteq> NO_OFFSET"
  shows "\<exists>b. odata b = odata (rbuf r) @ name_bytes ls m off \<and>
    WriteName r (name_of ls) compress =
      wn_remember m (r\<lparr>seqHashs := sh, rbuf := b\<rparr>) 0 (length (odata (rbuf r))) (length (wire ls))"
proof -
  have g: "gslice (wire ls) 0 (length (wire_labels (take m ls))) = (Ret (wire_labels (take m ls)) :: (g53_error, byte list) go)"
    using gslice_wire_middle [of ls 0 m] by simp
  have s': "wn_search compress (labelCount (name_of ls)) r (fromName (name_of ls)) 0 = Ret (r\<lparr>seqHashs := sh\<rparr>, m, off)"
    using s by simp
  consider "off = NO_OFFSET" "m = length ls + 1" | "compress" "m = 0" "off \<noteq> NO_OFFSET" "0 < length ls"
    | "compress" "0 < m" "m < length ls" "off \<noteq> NO_OFFSET" using c by auto
  then show ?thesis
  proof cases
    case 1
    then show ?thesis unfolding WriteName_def Let_def s' gbind.simps prod.case
      by (intro exI [of _ "WriteData (rbuf r) (wire ls)"]) (simp add: name_bytes_def)
  next
    case 2
    then show ?thesis unfolding WriteName_def Let_def s' gbind.simps prod.case
      by (intro exI [of _ "WriteUint16 (rbuf r) (off OR 0xc000)"]) (auto simp: name_bytes_def)
  next
    case 3
    then show ?thesis unfolding WriteName_def Let_def s' gbind.simps prod.case
      using g unat_offset [OF v, of m]
      by (intro exI [of _ "WriteUint16 (WriteData (rbuf r) (wire_labels (take m ls))) (off OR 0xc000)"])
        (simp add: name_bytes_def idx_offsets)
  qed
qed

lemma render_ok_append:
  assumes "render_ok A N r" "odata b = odata (rbuf r) @ bs" "N \<subseteq> N'" "length sh = MAX_LABELS"
  shows "render_ok A N' (r\<lparr>seqHashs := sh, rbuf := b\<rparr>)"
  using assms item_ok_mono [OF _ agree_append assms(3)] by (simp add: render_ok_def)

lemma written_name:
  assumes v: "valid_labels ls" "over A ls"
    and c: "off = NO_OFFSET \<and> m = length ls + 1 \<or>
      m < length ls \<and> off \<noteq> NO_OFFSET \<and> suffix_found A N ds cs off (drop m ls)"
    and b: "odata b = ds @ name_bytes ls m off"
    and N': "N \<subseteq> N'" "{length ds..<length ds + length (name_bytes ls m off)} \<subseteq> N'"
  obtains full where "valid_labels full" "over A full" "same_name cs full ls"
    "\<And>D. agree N' (odata b) D \<Longrightarrow>
      name_at D (length ds) (length ds) full (length ds + length (name_bytes ls m off))"
    "\<And>D. agree N' (odata b) D \<Longrightarrow> \<exists>rest. drop (length ds) D = wire_labels (take m full) @ rest"
    "m \<le> length full \<or> m = Suc (length full) \<and> at_or_0 b (length ds + length (wire_labels full)) = 0"
proof (cases "off = NO_OFFSET")
  case True
  then have nb: "name_bytes ls m off = wire ls" "m = Suc (length ls)" using c by (auto simp: name_bytes_def)
  show thesis
  proof (rule that [of ls])
    fix D assume "agree N' (odata b) D"
    then obtain rest where rest: "drop (length ds) D = name_bytes ls m off @ rest"
      using agree_drop [of N' ds] b N'(2) by metis
    show "name_at D (length ds) (length ds) ls (length ds + length (name_bytes ls m off))"
      using name_at_name_bytes [OF rest v(1)] True by auto
    show "\<exists>rest. drop (length ds) D = wire_labels (take m ls) @ rest" using rest nb by (simp add: wire_def)
  qed (use v nb b in \<open>auto simp: same_name_def at_or_0_eq wire_def nth_append\<close>)
next
  case False
  then have m: "m < length ls" and sf: "suffix_found A N ds cs off (drop m ls)" using c by auto
  from suffix_found_full [OF sf v False] obtain ms where ms: "valid_labels (take m ls @ ms)"
    "over A (take m ls @ ms)" "same_name cs (take m ls @ ms) ls" "denotes N ds (unat off) ms"
    "unat off \<le> MAX_COMPRESS_POINTER" "unat off < length ds" .
  show thesis
  proof (rule that [of "take m ls @ ms"])
    fix D assume ag: "agree N' (odata b) D"
    then obtain rest where rest: "drop (length ds) D = name_bytes ls m off @ rest"
      using agree_drop [of N' ds] b N'(2) by metis
    have "agree N ds D" using agree_trans [OF agree_append N'(1)] ag b by metis
    then obtain nx where "name_at D (unat off) (unat off) ms nx" using ms(4) by (auto simp: denotes_def)
    then show "name_at D (length ds) (length ds) (take m ls @ ms) (length ds + length (name_bytes ls m off))"
      using name_at_name_bytes [OF rest v(1)] ms False by auto
    show "\<exists>rest. drop (length ds) D = wire_labels (take m (take m ls @ ms)) @ rest"
      using rest m False by (simp add: name_bytes_def)
  qed (use ms m in auto)
qed

theorem WriteName_labels:
  assumes r: "render_ok A N r" and v: "valid_labels ls" "over A ls" and room: "length (odata (rbuf r)) + 300 < 2 ^ 63"
  shows "\<exists>r' bs full. WriteName r (name_of ls) compress = Ret r' \<and> odata (rbuf r') = odata (rbuf r) @ bs \<and>
    caseSensitive r' = caseSensitive r \<and> length bs \<le> 256 \<and>
    (let p = length (odata (rbuf r)); N' = N \<union> {p..<length (odata (rbuf r'))} in
       render_ok A N' r' \<and> valid_labels full \<and> over A full \<and> same_name (caseSensitive r) full ls \<and>
       (\<forall>D. agree N' (odata (rbuf r')) D \<longrightarrow> name_at D p p full (length (odata (rbuf r')))))"
proof -
  let ?ds = "odata (rbuf r)" and ?p = "length (odata (rbuf r))"
  obtain sh m off where s: "wn_search compress (Suc (length ls)) r (fromName (name_of ls)) 0 = Ret (r\<lparr>seqHashs := sh\<rparr>, m, off)"
    and sh: "length sh = MAX_LABELS" and c: "off = NO_OFFSET \<and> m = length ls + 1 \<or> compress \<and> m < length ls \<and>
      off \<noteq> NO_OFFSET \<and> suffix_found A N ?ds (caseSensitive r) off (drop m ls)"
    using wn_search_sound [OF r v(1), of "Suc (length ls)" 0 "fromName (name_of ls)" compress] by (auto simp: fromName_def)
  define bs where "bs = name_bytes ls m off"
  define N' where "N' = N \<union> {?p..<?p + length bs}"
  obtain b where b: "odata b = ?ds @ bs" and w: "WriteName r (name_of ls) compress =
      wn_remember m (r\<lparr>seqHashs := sh, rbuf := b\<rparr>) 0 ?p (length (wire ls))"
    using WriteName_emit [OF v(1) s] c unfolding bs_def by blast
  obtain full where f: "valid_labels full" "over A full" "same_name (caseSensitive r) full ls" 
    and at: "\<And>D. agree N' (odata b) D \<Longrightarrow> name_at D ?p ?p full (?p + length bs)" 
    and pre: "\<And>D. agree N' (odata b) D \<Longrightarrow> \<exists>rest. drop ?p D = wire_labels (take m full) @ rest"
    and m: "m \<le> length full \<or> m = Suc (length full) \<and> at_or_0 b (?p + length (wire_labels full)) = 0"
  proof (rule written_name [OF v _ b [unfolded bs_def], of N "caseSensitive r" N'])
  qed (use c that in \<open>auto simp: N'_def bs_def\<close>)
  have len: "length (wire full) = length (wire ls)" using same_name_lengths [OF f(3)] by simp
  have "render_ok A N' (r\<lparr>seqHashs := sh, rbuf := b\<rparr>)"
    using render_ok_append [OF r b _ sh] by (simp add: N'_def)
  then obtain t where t: "wn_remember m (r\<lparr>seqHashs := sh, rbuf := b\<rparr>) 0 ?p (length (wire full)) =
      Ret (r\<lparr>seqHashs := sh, rbuf := b, table := t\<rparr>)" "render_ok A N' (r\<lparr>seqHashs := sh, rbuf := b, table := t\<rparr>)"
    using wn_remember_ok [of A N' "r\<lparr>seqHashs := sh, rbuf := b\<rparr>" full 0 m ?p ?p] f m pre at room c
      length_labels_le [OF v(1)] valid_labelsD(1) [OF f(1)] by fastforce
  have "length bs \<le> 256"
    using valid_labelsD(1) [OF v(1)] length_wire_labels_take [of m ls] by (simp add: bs_def name_bytes_def be16_def)
  then show ?thesis
    using w t f at b unfolding len N'_def
    by (intro exI [of _ "r\<lparr>seqHashs := sh, rbuf := b, table := t\<rparr>"] exI [of _ bs] exI [of _ full]) (simp add: Let_def)
qed

section \<open>Sequences of writes\<close>

text \<open>A message is rendered by a sequence of these calls.\<close>

datatype write_op =
  OpName Name bool | OpUint8 byte | OpUint16 u16 | OpUint32 u32 | OpData "byte list" | OpSkip nat

fun run_op :: "write_op \<Rightarrow> MsgRender \<Rightarrow> (g53_error, MsgRender) go" where
  "run_op (OpName name compress) r = WriteName r name compress"
| "run_op (OpUint8 d) r = Ret (Render_WriteUint8 r d)"
| "run_op (OpUint16 d) r = Ret (Render_WriteUint16 r d)"
| "run_op (OpUint32 d) r = Ret (Render_WriteUint32 r d)"
| "run_op (OpData d) r = Ret (Render_WriteData r d)"
| "run_op (OpSkip n) r = Ret (Render_Skip r n)"

fun run_ops :: "write_op list \<Rightarrow> MsgRender \<Rightarrow> (g53_error, MsgRender) go" where
  "run_ops [] r = Ret r"
| "run_ops (op # ops) r = gbind (run_op op r) (run_ops ops)"

text \<open>Names in messages are well-formed and have no NUL byte; \<open>op_size\<close> bounds what a write appends.\<close>

fun op_ok :: "write_op \<Rightarrow> bool" where
  "op_ok (OpName name compress) \<longleftrightarrow> wf_name name \<and> nul_free (labels name)"
| "op_ok _ \<longleftrightarrow> True"

fun op_size :: "write_op \<Rightarrow> nat" where
  "op_size (OpName name compress) = 256"
| "op_size (OpUint8 d) = 1"
| "op_size (OpUint16 d) = 2"
| "op_size (OpUint32 d) = 4"
| "op_size (OpData d) = length d"
| "op_size (OpSkip n) = n"

definition ops_size :: "write_op list \<Rightarrow> nat" where
  "ops_size ops = sum_list (map op_size ops)"

lemma ops_size_simps [simp]:
  "ops_size [] = 0" "ops_size (op # ops) = op_size op + ops_size ops"
  "ops_size (ops @ ops') = ops_size ops + ops_size ops'"
  by (simp_all add: ops_size_def)

lemma render_ok_data:
  assumes "render_ok A N r" "odata b = odata (rbuf r) @ bs"
  shows "render_ok A N (r\<lparr>rbuf := b\<rparr>)"
  using render_ok_append [OF assms subset_refl, of "seqHashs r"] assms(1) by (simp add: render_ok_def)

lemma run_op_ok:
  assumes r: "render_ok (- {0}) N r" and op: "op_ok op" and room: "length (odata (rbuf r)) + op_size op + 300 < 2 ^ 63"
  shows "\<exists>N' r' bs. run_op op r = Ret r' \<and> odata (rbuf r') = odata (rbuf r) @ bs \<and> length bs \<le> op_size op \<and>
    caseSensitive r' = caseSensitive r \<and> N \<subseteq> N' \<and> render_ok (- {0}) N' r'"
proof (cases op)
  case (OpName name compress)
  then obtain ls where ls: "valid_labels ls" "name = name_of ls" "over (- {0}) ls" using op by (auto simp: over_non_zero elim: wf_nameE)
  then obtain r' bs where r': "WriteName r name compress = Ret r'" "odata (rbuf r') = odata (rbuf r) @ bs"
    "length bs \<le> 256" "caseSensitive r' = caseSensitive r"
    "render_ok (- {0}) (N \<union> {length (odata (rbuf r))..<length (odata (rbuf r'))}) r'"
    using WriteName_labels [OF r ls(1,3), of compress] room OpName unfolding Let_def by auto
  then have "run_op op r = Ret r'" "length bs \<le> op_size op" using OpName by auto
  then show ?thesis using r'(2,4,5) by blast
next
  case (OpSkip n)
  then show ?thesis using r room odata_Out_Skip [of "rbuf r" n] render_ok_data [OF r, of "Out_Skip (rbuf r) n"]
    by (auto simp: Render_Skip_def)
qed (use render_ok_data [OF r] in \<open>auto simp: Render_WriteUint8_def Render_WriteUint16_def
       Render_WriteUint32_def Render_WriteData_def be16_def be32_def\<close>)

lemma run_ops_ok:
  assumes "render_ok (- {0}) N r" "list_all op_ok ops" "length (odata (rbuf r)) + ops_size ops + 300 < 2 ^ 63"
  shows "\<exists>N' r' bs. run_ops ops r = Ret r' \<and> odata (rbuf r') = odata (rbuf r) @ bs \<and> length bs \<le> ops_size ops \<and>
    caseSensitive r' = caseSensitive r \<and> N \<subseteq> N' \<and> render_ok (- {0}) N' r'"
  using assms
proof (induction ops arbitrary: N r)
  case (Cons op ops)
  then obtain N1 r1 bs where 1: "run_op op r = Ret r1" "odata (rbuf r1) = odata (rbuf r) @ bs" "length bs \<le> op_size op"
    "caseSensitive r1 = caseSensitive r" "N \<subseteq> N1" "render_ok (- {0}) N1 r1"
    using run_op_ok [of N r op] by auto
  have "length (odata (rbuf r1)) + ops_size ops + 300 < 2 ^ 63" using 1(2,3) Cons.prems(3) by simp
  with Cons.IH [OF 1(6)] Cons.prems(2) obtain N2 r2 bs2 where 2: "run_ops ops r1 = Ret r2"
    "odata (rbuf r2) = odata (rbuf r1) @ bs2" "length bs2 \<le> ops_size ops" "caseSensitive r2 = caseSensitive r1"
    "N1 \<subseteq> N2" "render_ok (- {0}) N2 r2" by auto
  have "run_ops (op # ops) r = Ret r2" "odata (rbuf r2) = odata (rbuf r) @ bs @ bs2" "length (bs @ bs2) \<le> ops_size (op # ops)"
    using 1 2 by auto
  moreover have "caseSensitive r2 = caseSensitive r" "N \<subseteq> N2" using 1(4,5) 2(4,5) by auto
  ultimately show ?case using 2(6) by (intro exI [of _ N2] exI [of _ r2] exI [of _ "bs @ bs2"]) simp
qed auto

lemma render_ok_New: "render_ok A {} NewMsgRender"
  by (simp add: render_ok_def NewMsgRender_def)

lemma run_ops_append: "run_ops (ops @ ops') r = gbind (run_ops ops r) (run_ops ops')"
  by (induction ops arbitrary: r) (auto simp: gbind_assoc intro: gbind_cong)

lemma same_name_False: "same_name cs ls ms \<Longrightarrow> fold_case ls = fold_case ms"
  by (auto simp: same_name_def split: if_splits)

lemma rendered_name_decodes:
  assumes r: "render_ok (- {0}) N r" "wf_name name" "nul_free (labels name)" "list_all op_ok ops"
    and room: "length (odata (rbuf r)) + ops_size ops + 600 < 2 ^ 63"
  shows "\<exists>r' n b. run_ops (OpName name compress # ops) r = Ret r' \<and>
     NameFromWire (buf_at (odata (rbuf r')) (length (odata (rbuf r)))) False = Ret (n, b) \<and>
     wf_name n \<and> Equals n name = Ret True"
proof -
  obtain ls where ls: "valid_labels ls" "name = name_of ls" "over (- {0}) ls" using assms by (auto simp: over_non_zero elim: wf_nameE)
  let ?p = "length (odata (rbuf r))"
  obtain r1 bs full where r1: "WriteName r name compress = Ret r1" "odata (rbuf r1) = odata (rbuf r) @ bs" 
    "length bs \<le> 256" "render_ok (- {0}) (N \<union> {?p..<length (odata (rbuf r1))}) r1" "valid_labels full"
    "same_name (caseSensitive r) full ls"
    "\<And>D. agree (N \<union> {?p..<length (odata (rbuf r1))}) (odata (rbuf r1)) D \<Longrightarrow> name_at D ?p ?p full (length (odata (rbuf r1)))"
    using WriteName_labels [OF r(1) ls(1,3), of compress] room ls(2) by (auto simp: Let_def)
  have "length (odata (rbuf r1)) + ops_size ops + 300 < 2 ^ 63" using r1(2,3) room by simp
  from run_ops_ok [OF r1(4) r(4) this] obtain r2 bs2 where r2: "run_ops ops r1 = Ret r2"
    "odata (rbuf r2) = odata (rbuf r1) @ bs2" "length bs2 \<le> ops_size ops" by auto
  have "name_at (odata (rbuf r2)) ?p ?p full (length (odata (rbuf r1)))"
    using r1(7) agree_append unfolding r2(2) by blast
  then have "NameFromWire (buf_at (odata (rbuf r2)) ?p) False = Ret (name_of full, buf_at (odata (rbuf r2)) (length (odata (rbuf r1))))"
    using r1 r2 room by (subst NameFromWire_iff) auto
  moreover have "Equals (name_of full) name = Ret True"
    using Equals_labels [OF r1(5) ls(1)] same_name_False [OF r1(6)] ls(2) by simp
  ultimately show ?thesis using r1(1,5) r2(1) wf_name_of by auto
qed

section \<open>Properties\<close>

text \<open>C3. Name compression is lossless: however a message is rendered from an empty renderer (any
  sequence of names, integers, data and skips before, any after), a name written anywhere in it,
  compressed or not, decodes from the finished message to a name equal to it up to case. The renderer
  returns (its search through the compression table and the bytes already written ends and does not
  panic) whenever the names are well-formed and free of NUL bytes.\<close>

theorem rendered_names_decode:
  assumes "list_all op_ok before" "list_all op_ok after" "wf_name name" "nul_free (labels name)"
    and "ops_size before + ops_size after + 600 < 2 ^ 63"
  shows "\<exists>r1 r2 n b. run_ops before NewMsgRender = Ret r1 \<and>
    run_ops (before @ OpName name compress # after) NewMsgRender = Ret r2 \<and>
    NameFromWire (buf_at (odata (rbuf r2)) (length (odata (rbuf r1)))) False = Ret (n, b) \<and>
    wf_name n \<and> Equals n name = Ret True"
proof -
  have o: "odata (rbuf NewMsgRender) = []" by (simp add: NewMsgRender_def NewOutputBuffer_def)
  obtain N r1 where r1: "run_ops before NewMsgRender = Ret r1" "length (odata (rbuf r1)) \<le> ops_size before" "render_ok (- {0}) N r1"
    using run_ops_ok [OF render_ok_New assms(1)] assms(5) o by auto
  show ?thesis
    using rendered_name_decodes [OF r1(3) assms(3,4,2), of compress] r1 assms(5) by (auto simp: run_ops_append)
qed

theorem rendered_names_decode_witness:
  "\<exists>r1 r2 n b. run_ops [OpSkip 12, OpName (name_of [[99]]) True] NewMsgRender = Ret r1 \<and>
    run_ops [OpSkip 12, OpName (name_of [[99]]) True, OpName (name_of [[119], [67]]) True] NewMsgRender = Ret r2 \<and>
    NameFromWire (buf_at (odata (rbuf r2)) (length (odata (rbuf r1)))) False = Ret (n, b) \<and>
    wf_name n \<and> Equals n (name_of [[119], [67]]) = Ret True"
  using rendered_names_decode [of "[OpSkip 12, OpName (name_of [[99]]) True]" "[]" "name_of [[119], [67]]" True]
  by (simp add: wf_name_def labels_name_of valid_labels_def wire_def nul_free_def)

text \<open>C6. \<open>WriteName\<close> preserves the renderer's invariant: every entry of the compression table stays
  the offset, below 0x4000, of a name the message really holds, and the bytes a name needs (literal
  or behind a pointer) are never changed by later writes outside them.\<close>

theorem WriteName_invariant:
  assumes "render_ok A N r" "wf_name n" "over A (labels n)" "length (odata (rbuf r)) + 300 < 2 ^ 63"
  shows "\<exists>r' bs full. WriteName r n compress = Ret r' \<and> odata (rbuf r') = odata (rbuf r) @ bs \<and> length bs \<le> 256 \<and>
    (let p = length (odata (rbuf r)); N' = N \<union> {p..<length (odata (rbuf r'))} in
       render_ok A N' r' \<and> over A full \<and> same_name (caseSensitive r) full (labels n) \<and>
       (\<forall>D. agree N' (odata (rbuf r')) D \<longrightarrow> name_at D p p full (length (odata (rbuf r')))))"
  using WriteName_labels [OF assms(1) _ assms(3,4), of compress] assms(2) unfolding wf_name_def Let_def by metis

theorem WriteName_invariant_witness:
  "\<exists>r' bs. WriteName NewMsgRender (name_of [[99]]) True = Ret r' \<and> odata (rbuf r') = bs \<and> length bs \<le> 256"
  using WriteName_invariant [OF render_ok_New [of "- {0}"], of "name_of [[99]]" True]
  by (auto simp: wf_name_def labels_name_of valid_labels_def wire_def over_def NewMsgRender_def NewOutputBuffer_def)

end
