(* ===== verification/Dns_Header.thy ===== *)
theory Dns_Header
  imports Msg_Render
begin

unbundle bit_operations_syntax

text \<open>
  \<open>src/g53/header.go\<close>: the 12-byte header of a DNS message, its flags, and its wire form; with
  the names of operation and response codes of \<open>opcode.go\<close> and \<open>rcode.go\<close>.

  The theorems show that decoding an encoded header gives it back exactly when its fields fit their
  bits of the flag word, and how the flag operations act on each other.
\<close>

type_synonym FlagField = u16

abbreviation FLAG_QR :: FlagField where "FLAG_QR \<equiv> 0x8000"
abbreviation FLAG_AA :: FlagField where "FLAG_AA \<equiv> 0x0400"
abbreviation FLAG_TC :: FlagField where "FLAG_TC \<equiv> 0x0200"
abbreviation FLAG_RD :: FlagField where "FLAG_RD \<equiv> 0x0100"
abbreviation FLAG_RA :: FlagField where "FLAG_RA \<equiv> 0x0080"
abbreviation FLAG_AD :: FlagField where "FLAG_AD \<equiv> 0x0020"
abbreviation FLAG_CD :: FlagField where "FLAG_CD \<equiv> 0x0010"

abbreviation HEADERFLAG_MASK :: u16 where "HEADERFLAG_MASK \<equiv> 0x87b0"
abbreviation OPCODE_MASK :: u16 where "OPCODE_MASK \<equiv> 0x7800"
abbreviation OPCODE_SHIFT :: nat where "OPCODE_SHIFT \<equiv> 11"
abbreviation RCODE_MASK :: u16 where "RCODE_MASK \<equiv> 0x000f"

text \<open>\<open>Opcode\<close> and \<open>Rcode\<close> are declared as \<open>uint8\<close>.\<close>

record Header =
  Id :: u16
  Flag :: u16
  Opcode :: byte
  Rcode :: byte
  QDCount :: u16
  ANCount :: u16
  NSCount :: u16
  ARCount :: u16

definition Header_zero :: Header where
  "Header_zero = \<lparr>Id = 0, Flag = 0, Opcode = 0, Rcode = 0, QDCount = 0, ANCount = 0, NSCount = 0, ARCount = 0\<rparr>"

definition Header_Clear :: "Header \<Rightarrow> Header" where
  "Header_Clear h = h\<lparr>Flag := 0, QDCount := 0, ANCount := 0, NSCount := 0, ARCount := 0\<rparr>"

definition GetFlag :: "Header \<Rightarrow> FlagField \<Rightarrow> bool" where
  "GetFlag h ff \<longleftrightarrow> Flag h AND ff \<noteq> 0"

definition SetFlag :: "Header \<Rightarrow> FlagField \<Rightarrow> bool \<Rightarrow> Header" where
  "SetFlag h ff on = (if on then h\<lparr>Flag := Flag h OR ff\<rparr> else h\<lparr>Flag := Flag h AND NOT ff\<rparr>)"

definition HeaderFromWire :: "Header \<Rightarrow> InputBuffer \<Rightarrow> (g53_error, Header \<times> InputBuffer) go" where
  "HeaderFromWire h buf =
     (if datalen buf < 12 then Err HeaderTooShort
      else
        gbind (drop_err 0 buf (ReadUint16 buf)) (\<lambda>(id, buf).
        gbind (drop_err 0 buf (ReadUint16 buf)) (\<lambda>(flag, buf).
        gbind (drop_err 0 buf (ReadUint16 buf)) (\<lambda>(qd, buf).
        gbind (drop_err 0 buf (ReadUint16 buf)) (\<lambda>(an, buf).
        gbind (drop_err 0 buf (ReadUint16 buf)) (\<lambda>(ns, buf).
        gbind (drop_err 0 buf (ReadUint16 buf)) (\<lambda>(ar, buf).
        Ret (h\<lparr>Id := id, Flag := flag AND HEADERFLAG_MASK,
               Opcode := ucast (drop_bit OPCODE_SHIFT (flag AND OPCODE_MASK)),
               Rcode := ucast (flag AND RCODE_MASK),
               QDCount := qd, ANCount := an, NSCount := ns, ARCount := ar\<rparr>, buf))))))))"

definition Header_flag :: "Header \<Rightarrow> u16" where
  "Header_flag h =
     (push_bit OPCODE_SHIFT (ucast (Opcode h)) AND OPCODE_MASK)
     OR (ucast (Rcode h) AND RCODE_MASK) OR (Flag h AND HEADERFLAG_MASK)"

definition Header_Rend :: "Header \<Rightarrow> MsgRender \<Rightarrow> MsgRender" where
  "Header_Rend h r =
     (let r = Render_WriteUint16 r (Id h);
          r = Render_WriteUint16 r (Header_flag h);
          r = Render_WriteUint16 r (QDCount h);
          r = Render_WriteUint16 r (ANCount h);
          r = Render_WriteUint16 r (NSCount h)
      in Render_WriteUint16 r (ARCount h))"

definition Header_ToWire :: "Header \<Rightarrow> OutputBuffer \<Rightarrow> OutputBuffer" where
  "Header_ToWire h out =
     (let out = WriteUint16 out (Id h);
          out = WriteUint16 out (Header_flag h);
          out = WriteUint16 out (QDCount h);
          out = WriteUint16 out (ANCount h);
          out = WriteUint16 out (NSCount h)
      in WriteUint16 out (ARCount h))"

section \<open>The flag word\<close>

lemma below_16: "n < 16 \<longleftrightarrow> n \<in> {0, 1, 2, 3, 4, 5, 6, 7, 8, 9, 10, 11, 12, 13, 14, 15 :: nat}"
  by (auto simp: less_Suc_eq numeral_eq_Suc)

lemma bit_HEADERFLAG_MASK: "bit HEADERFLAG_MASK n \<longleftrightarrow> n \<in> {4, 5, 7, 8, 9, 10, 15}"
proof (cases "n < 16")
  case True
  then show ?thesis unfolding below_16 by (elim insertE emptyE) simp_all
next
  case False
  then show ?thesis using bit_imp_le_length [of HEADERFLAG_MASK n] by auto
qed

lemma header_masks: "OPCODE_MASK = push_bit 11 (mask 4)" "RCODE_MASK = mask 4" "(0xf :: byte) = mask 4"
  by (simp_all add: mask_eq_exp_minus_1 push_bit_eq_mult)

lemma Header_flag_parts:
  "Header_flag h AND HEADERFLAG_MASK = Flag h AND HEADERFLAG_MASK"
  "ucast (drop_bit OPCODE_SHIFT (Header_flag h AND OPCODE_MASK)) = Opcode h AND 0xf"
  "ucast (Header_flag h AND RCODE_MASK) = Rcode h AND 0xf"
proof -
  define H where "H = HEADERFLAG_MASK"
  have H: "bit H n \<Longrightarrow> 4 \<le> n \<and> (n < 11 \<or> 15 \<le> n)" for n unfolding H_def bit_HEADERFLAG_MASK by auto
  show "Header_flag h AND HEADERFLAG_MASK = Flag h AND HEADERFLAG_MASK"
    unfolding Header_flag_def header_masks H_def [symmetric]
    by (rule bit_word_eqI) (auto simp: bit_simps dest: H)
  show "ucast (drop_bit OPCODE_SHIFT (Header_flag h AND OPCODE_MASK)) = Opcode h AND 0xf"
    unfolding Header_flag_def header_masks H_def [symmetric]
    by (rule bit_word_eqI) (auto simp: bit_simps dest: H)
  show "ucast (Header_flag h AND RCODE_MASK) = Rcode h AND 0xf"
    unfolding Header_flag_def header_masks H_def [symmetric]
    by (rule bit_word_eqI) (auto simp: bit_simps dest: H)
qed

text \<open>What of a header the wire can carry: the defined flags, and four bits of each code.\<close>

definition header_ok :: "Header \<Rightarrow> bool" where
  "header_ok h \<longleftrightarrow> Flag h AND HEADERFLAG_MASK = Flag h \<and> Opcode h < 16 \<and> Rcode h < 16"

definition header_trunc :: "Header \<Rightarrow> Header" where
  "header_trunc h = h\<lparr>Flag := Flag h AND HEADERFLAG_MASK, Opcode := Opcode h AND 0xf, Rcode := Rcode h AND 0xf\<rparr>"

lemma and_0xf_less: "c < 16 \<Longrightarrow> c AND 0xf = (c :: byte)"
  unfolding header_masks take_bit_eq_mask [symmetric]
  by (simp add: word_unat_eq_iff unsigned_take_bit_eq take_bit_nat_eq_self word_less_nat_alt)

lemma header_trunc_ok: "header_ok h \<Longrightarrow> header_trunc h = h"
  by (simp add: header_ok_def header_trunc_def and_0xf_less)

lemma header_trunc_wf: "header_ok (header_trunc h)"
proof -
  have "c AND 0xf < (16 :: byte)" for c
    using word_and_le1 [of c "0xf"] by (rule order.strict_trans1) simp
  then show ?thesis by (simp add: header_ok_def header_trunc_def and.assoc)
qed

section \<open>The wire form\<close>

definition enc_header :: "Header \<Rightarrow> byte list" where
  "enc_header h = be16 (Id h) @ be16 (Header_flag h) @ be16 (QDCount h) @ be16 (ANCount h)
     @ be16 (NSCount h) @ be16 (ARCount h)"

lemma odata_Header_ToWire: "odata (Header_ToWire h out) = odata out @ enc_header h"
  by (simp add: Header_ToWire_def enc_header_def Let_def)

lemma odata_Header_Rend: "odata (rbuf (Header_Rend h r)) = odata (rbuf r) @ enc_header h"
  by (simp add: Header_Rend_def enc_header_def Let_def Render_WriteUint16_def)

lemma length_enc_header [simp]: "length (enc_header h) = 12"
  by (simp add: enc_header_def)

lemma read_u16_input:
  "input_ok pre (be16 d @ rest) \<Longrightarrow>
   drop_err 0 (input pre (be16 d @ rest)) (ReadUint16 (input pre (be16 d @ rest))) = Ret (d, input (pre @ be16 d) rest)"
  by (simp add: drop_err_def ReadUint16_input)

lemma HeaderFromWire_enc:
  assumes "input_ok pre (enc_header h @ post)"
  shows "HeaderFromWire h0 (input pre (enc_header h @ post)) = Ret (header_trunc h, input (pre @ enc_header h) post)"
proof -
  have "12 \<le> datalen (input pre (enc_header h @ post))" by simp
  then show ?thesis
    using assms Header_flag_parts [of h]
    by (simp add: HeaderFromWire_def enc_header_def read_u16_input header_trunc_def)
qed

interpretation header_codec: wire_codec enc_header "HeaderFromWire Header_zero" header_ok
  by unfold_locales (simp add: HeaderFromWire_enc header_trunc_ok)

section \<open>Flags\<close>

lemma single_flags:
  assumes "ff \<in> {FLAG_QR, FLAG_AA, FLAG_TC, FLAG_RD, FLAG_RA, FLAG_AD, FLAG_CD}"
  obtains k where "k < 16" "ff = push_bit k 1"
proof -
  have "FLAG_QR = push_bit 15 1" "FLAG_AA = push_bit 10 1" "FLAG_TC = push_bit 9 1" "FLAG_RD = push_bit 8 1"
    "FLAG_RA = push_bit 7 1" "FLAG_AD = push_bit 5 1" "FLAG_CD = push_bit 4 1"
    by (simp_all add: push_bit_eq_mult)
  then show ?thesis using assms that
    by (elim insertE emptyE) (metis numeral_less_iff rel_simps)+
qed

lemma GetFlag_bit: "k < 16 \<Longrightarrow> GetFlag h (push_bit k 1) \<longleftrightarrow> bit (Flag h) k"
  by (simp add: GetFlag_def bit_iff_and_push_bit_not_eq_0)

lemma Flag_SetFlag_bit: "k < 16 \<Longrightarrow> bit (Flag (SetFlag h (push_bit k 1) on)) n \<longleftrightarrow> (if n = k then on else bit (Flag h) n)"
  using bit_imp_le_length [of "Flag h" n] by (auto simp: SetFlag_def bit_simps)

section \<open>Properties\<close>

text \<open>C14. The header round trip: reading what \<open>Rend\<close> or \<open>ToWire\<close> wrote (both write the same twelve
  bytes) gives the header back with its flags masked to the defined ones and its opcode and response
  code cut to four bits; so a header within these limits is preserved.\<close>

theorem Header_round_trip:
  assumes "length (odata (rbuf r)) + length post + 12 < 2 ^ 63"
  shows "let ds = odata (rbuf (Header_Rend h r)) @ post in
    HeaderFromWire h0 (buf_at ds (length (odata (rbuf r)))) = Ret (header_trunc h, buf_at ds (length (odata (rbuf r)) + 12)) \<and>
    odata (Header_ToWire h (rbuf r)) = odata (rbuf (Header_Rend h r)) \<and> (header_ok h \<longrightarrow> header_trunc h = h)"
  using HeaderFromWire_enc [of "odata (rbuf r)" h post h0] assms
  by (simp add: odata_Header_Rend odata_Header_ToWire buf_at_input input_ok_def header_trunc_ok Let_def add.commute)

theorem Header_round_trip_witness:
  "let ds = odata (rbuf (Header_Rend (Header_zero\<lparr>Id := 7, Rcode := 3\<rparr>) NewMsgRender)) in
    HeaderFromWire Header_zero (buf_at ds 0) = Ret (Header_zero\<lparr>Id := 7, Rcode := 3\<rparr>, buf_at ds 12)"
  using Header_round_trip [of NewMsgRender "[]" "Header_zero\<lparr>Id := 7, Rcode := 3\<rparr>" Header_zero]
  by (simp add: NewMsgRender_def NewOutputBuffer_def header_ok_def Header_zero_def Let_def)

text \<open>C15. \<open>SetFlag\<close> sets or clears the given flag and no other, and \<open>GetFlag\<close> reads what was set.\<close>

theorem SetFlag_GetFlag:
  assumes "f \<in> {FLAG_QR, FLAG_AA, FLAG_TC, FLAG_RD, FLAG_RA, FLAG_AD, FLAG_CD}"
    and "g \<in> {FLAG_QR, FLAG_AA, FLAG_TC, FLAG_RD, FLAG_RA, FLAG_AD, FLAG_CD}"
  shows "GetFlag (SetFlag h f on) g = (if g = f then on else GetFlag h g) \<and>
    (Flag h AND HEADERFLAG_MASK = Flag h \<longrightarrow> Flag (SetFlag h f on) AND HEADERFLAG_MASK = Flag (SetFlag h f on))"
proof -
  define H where "H = HEADERFLAG_MASK"
  obtain j where j: "j < 16" "f = push_bit j 1" using single_flags [OF assms(1)] .
  obtain k where k: "k < 16" "g = push_bit k 1" using single_flags [OF assms(2)] .
  have "f AND H = f" unfolding H_def using assms(1) by (elim insertE emptyE) simp_all
  then have "bit (f AND H) j" using j by (simp add: bit_simps)
  then have H: "bit H j" by (simp only: bit_and_iff)
  have m: "Flag (SetFlag h f on) AND H = Flag (SetFlag h f on)" if "Flag h AND H = Flag h"
  proof (rule bit_word_eqI)
    fix n
    have "bit (Flag h) n \<Longrightarrow> bit H n" using that by (metis bit_and_iff)
    then show "bit (Flag (SetFlag h f on) AND H) n = bit (Flag (SetFlag h f on)) n"
      using H Flag_SetFlag_bit [OF j(1), of h on n] by (auto simp: j(2) bit_and_iff)
  qed
  have "bit f n \<longleftrightarrow> n = j" "bit g n \<longleftrightarrow> n = k" for n using j k by (auto simp: bit_simps)
  then have e: "g = f \<longleftrightarrow> k = j" using j(2) k(2) by metis
  have "GetFlag (SetFlag h f on) g = (if g = f then on else GetFlag h g)"
    unfolding e using GetFlag_bit [OF k(1)] Flag_SetFlag_bit [OF j(1)] by (simp add: j(2) k(2))
  then show ?thesis using m unfolding H_def by blast
qed

theorem SetFlag_GetFlag_witness:
  "GetFlag (SetFlag Header_zero FLAG_QR True) FLAG_QR \<and> \<not> GetFlag (SetFlag Header_zero FLAG_QR True) FLAG_TC"
  using SetFlag_GetFlag [of FLAG_QR FLAG_QR Header_zero True] SetFlag_GetFlag [of FLAG_QR FLAG_TC Header_zero True]
  by (simp add: GetFlag_def Header_zero_def)

end
