(* ===== verification/Render_Codec.thy ===== *)
theory Render_Codec
  imports Dns_Header
begin

text \<open>
  The contract between what a renderer writes and what the decoders read back.

  \<open>emits A sz f P\<close> says of a rendering step \<open>f\<close>: on every sound renderer with room for \<open>sz\<close> bytes it
  returns, it appends at most \<open>sz\<close> bytes, keeps the renderer sound, and \<open>P D p q\<close> holds for every
  message \<open>D\<close> that has the bytes written so far, where \<open>p\<close> and \<open>q\<close> are the positions before and
  after the step. Steps compose, and \<open>emits_patch\<close> covers the length field that is written back
  once the data behind it is complete. The locale \<open>rend_codec\<close> is the contract for a pair of a
  renderer and a decoder.
\<close>

section \<open>Rendering steps\<close>

abbreviation rlen :: "MsgRender \<Rightarrow> nat" where
  "rlen r \<equiv> length (odata (rbuf r))"

definition emits :: "byte set \<Rightarrow> nat \<Rightarrow> (MsgRender \<Rightarrow> (g53_error, MsgRender) go) \<Rightarrow> (byte list \<Rightarrow> nat \<Rightarrow> nat \<Rightarrow> bool) \<Rightarrow> bool" where
  "emits A sz f P \<longleftrightarrow> (\<forall>N r. render_ok A N r \<and> N \<subseteq> {..<rlen r} \<and> rlen r + sz + 300 < 2 ^ 63 \<longrightarrow>
     (\<exists>r' bs. f r = Ret r' \<and> odata (rbuf r') = odata (rbuf r) @ bs \<and> length bs \<le> sz \<and>
        render_ok A (N \<union> {rlen r..<rlen r'}) r' \<and>
        (\<forall>D. agree (N \<union> {rlen r..<rlen r'}) (odata (rbuf r')) D \<and> length D < 2 ^ 63 \<longrightarrow> P D (rlen r) (rlen r'))))"

lemma emitsI:
  assumes "\<And>N r. render_ok A N r \<Longrightarrow> N \<subseteq> {..<rlen r} \<Longrightarrow> rlen r + sz + 300 < 2 ^ 63 \<Longrightarrow>
     \<exists>r' bs. f r = Ret r' \<and> odata (rbuf r') = odata (rbuf r) @ bs \<and> length bs \<le> sz \<and>
        render_ok A (N \<union> {rlen r..<rlen r'}) r' \<and>
        (\<forall>D. agree (N \<union> {rlen r..<rlen r'}) (odata (rbuf r')) D \<longrightarrow> length D < 2 ^ 63 \<longrightarrow> P D (rlen r) (rlen r'))"
  shows "emits A sz f P"
  unfolding emits_def using assms by meson

lemma emitsE:
  assumes "emits A sz f P" "render_ok A N r" "N \<subseteq> {..<rlen r}" "rlen r + sz + 300 < 2 ^ 63"
  obtains r' bs where "f r = Ret r'" "odata (rbuf r') = odata (rbuf r) @ bs" "length bs \<le> sz"
    "render_ok A (N \<union> {rlen r..<rlen r'}) r'"
    "\<And>D. agree (N \<union> {rlen r..<rlen r'}) (odata (rbuf r')) D \<Longrightarrow> length D < 2 ^ 63 \<Longrightarrow> P D (rlen r) (rlen r')"
  using assms unfolding emits_def by meson

lemma emits_weaken:
  assumes "emits A sz f P" "\<And>D p q. P D p q \<Longrightarrow> p \<le> q \<Longrightarrow> q \<le> length D \<Longrightarrow> q \<le> p + sz \<Longrightarrow> length D < 2 ^ 63 \<Longrightarrow> Q D p q" "sz \<le> sz'"
  shows "emits A sz' f Q"
proof (rule emitsI)
  fix N r assume r: "render_ok A N r" "N \<subseteq> {..<rlen r}" "rlen r + sz' + 300 < 2 ^ 63"
  then have room: "rlen r + sz + 300 < 2 ^ 63" using assms(3) by simp
  from assms(1) r(1,2) room show "\<exists>r' bs. f r = Ret r' \<and> odata (rbuf r') = odata (rbuf r) @ bs \<and> length bs \<le> sz' \<and>
        render_ok A (N \<union> {rlen r..<rlen r'}) r' \<and>
        (\<forall>D. agree (N \<union> {rlen r..<rlen r'}) (odata (rbuf r')) D \<longrightarrow> length D < 2 ^ 63 \<longrightarrow> Q D (rlen r) (rlen r'))"
  proof (rule emitsE)
    fix r' bs assume s: "f r = Ret r'" "odata (rbuf r') = odata (rbuf r) @ bs" "length bs \<le> sz"
      "render_ok A (N \<union> {rlen r..<rlen r'}) r'"
      "\<And>D. agree (N \<union> {rlen r..<rlen r'}) (odata (rbuf r')) D \<Longrightarrow> length D < 2 ^ 63 \<Longrightarrow> P D (rlen r) (rlen r')"
    have "Q D (rlen r) (rlen r')" if "agree (N \<union> {rlen r..<rlen r'}) (odata (rbuf r')) D" "length D < 2 ^ 63" for D
      by (rule assms(2)) (use s that in \<open>auto simp: agree_def\<close>)
    moreover have "length bs \<le> sz'" using s(3) assms(3) by simp
    ultimately show ?thesis using s(1,2,4) by blast
  qed
qed

lemma agree_mono: "agree N ds D \<Longrightarrow> N' \<subseteq> N \<Longrightarrow> agree N' ds D"
  by (auto simp: agree_def)

lemma agree_prefix: "agree N (ds @ xs) D \<Longrightarrow> agree N ds D"
  by (auto simp: agree_def nth_append)

lemma emits_seq:
  assumes f: "emits A sz f P" and g: "emits A sz' g Q"
  shows "emits A (sz + sz') (\<lambda>r. gbind (f r) g) (\<lambda>D p q. \<exists>m. P D p m \<and> Q D m q \<and> p \<le> m \<and> m \<le> q)"
proof (rule emitsI)
  fix N r assume r: "render_ok A N r" "N \<subseteq> {..<rlen r}" "rlen r + (sz + sz') + 300 < 2 ^ 63"
  then have room: "rlen r + sz + 300 < 2 ^ 63" by simp
  obtain r1 bs1 where 1: "f r = Ret r1" "odata (rbuf r1) = odata (rbuf r) @ bs1" "length bs1 \<le> sz"
    "render_ok A (N \<union> {rlen r..<rlen r1}) r1"
    "\<And>D. agree (N \<union> {rlen r..<rlen r1}) (odata (rbuf r1)) D \<Longrightarrow> length D < 2 ^ 63 \<Longrightarrow> P D (rlen r) (rlen r1)"
    by (rule emitsE [OF f r(1,2) room]) blast
  have sub: "N \<union> {rlen r..<rlen r1} \<subseteq> {..<rlen r1}" using r(2) 1(2) by auto
  have room': "rlen r1 + sz' + 300 < 2 ^ 63" using 1(2,3) r(3) by simp
  obtain r2 bs2 where 2: "g r1 = Ret r2" "odata (rbuf r2) = odata (rbuf r1) @ bs2" "length bs2 \<le> sz'"
    "render_ok A (N \<union> {rlen r..<rlen r1} \<union> {rlen r1..<rlen r2}) r2"
    "\<And>D. agree (N \<union> {rlen r..<rlen r1} \<union> {rlen r1..<rlen r2}) (odata (rbuf r2)) D \<Longrightarrow> length D < 2 ^ 63 \<Longrightarrow> Q D (rlen r1) (rlen r2)"
    by (rule emitsE [OF g 1(4) sub room']) blast
  have N: "N \<union> {rlen r..<rlen r1} \<union> {rlen r1..<rlen r2} = N \<union> {rlen r..<rlen r2}" using 1(2) 2(2) by auto
  have P: "P D (rlen r) (rlen r1)" if D: "agree (N \<union> {rlen r..<rlen r2}) (odata (rbuf r2)) D" "length D < 2 ^ 63" for D
  proof (rule 1(5))
    show "agree (N \<union> {rlen r..<rlen r1}) (odata (rbuf r1)) D"
      using agree_prefix [of _ _ bs2 D] agree_mono [OF D(1), of "N \<union> {rlen r..<rlen r1}"] N unfolding 2(2) by blast
  qed (rule D(2))
  show "\<exists>r' bs. gbind (f r) g = Ret r' \<and> odata (rbuf r') = odata (rbuf r) @ bs \<and> length bs \<le> sz + sz' \<and>
        render_ok A (N \<union> {rlen r..<rlen r'}) r' \<and>
        (\<forall>D. agree (N \<union> {rlen r..<rlen r'}) (odata (rbuf r')) D \<longrightarrow> length D < 2 ^ 63 \<longrightarrow>
           (\<exists>m. P D (rlen r) m \<and> Q D m (rlen r') \<and> rlen r \<le> m \<and> m \<le> rlen r'))"
  proof (intro exI conjI allI impI)
    show "gbind (f r) g = Ret r2" using 1(1) 2(1) by simp
    show "odata (rbuf r2) = odata (rbuf r) @ (bs1 @ bs2)" using 1(2) 2(2) by simp
    show "length (bs1 @ bs2) \<le> sz + sz'" using 1(3) 2(3) by simp
    show "render_ok A (N \<union> {rlen r..<rlen r2}) r2" using 2(4) unfolding N .
    fix D assume D: "agree (N \<union> {rlen r..<rlen r2}) (odata (rbuf r2)) D" "length D < 2 ^ 63"
    show "P D (rlen r) (rlen r1)" using P [OF D] .
    show "Q D (rlen r1) (rlen r2)" using 2(5) [unfolded N, OF D] .
    show "rlen r \<le> rlen r1" "rlen r1 \<le> rlen r2" using 1(2) 2(2) by simp_all
  qed
qed

lemma emits_Ret: "emits A 0 Ret (\<lambda>D p q. q = p)"
  by (rule emitsI) auto

lemma emits_conj: "emits A sz f P \<Longrightarrow> emits A sz f Q \<Longrightarrow> emits A sz f (\<lambda>D p q. P D p q \<and> Q D p q)"
  unfolding emits_def by (metis go.inject(1))

lemma render_ok_mono: "render_ok A N r \<Longrightarrow> N \<subseteq> N' \<Longrightarrow> render_ok A N' r"
  unfolding render_ok_def using item_ok_mono [OF _ agree_refl] by blast


section \<open>Data\<close>

definition bytes_at :: "byte list \<Rightarrow> nat \<Rightarrow> byte list \<Rightarrow> bool" where
  "bytes_at D p bs \<longleftrightarrow> (\<exists>post. drop p D = bs @ post) \<and> p \<le> length D"

lemma bytes_atE:
  assumes "bytes_at D p bs"
  obtains pre post where "D = pre @ bs @ post" "length pre = p"
  using assms append_take_drop_id [of p D] unfolding bytes_at_def by (metis length_take min_absorb2)

lemma emits_data:
  assumes "\<And>r. f r = Ret (r\<lparr>rbuf := g (rbuf r)\<rparr>)" "\<And>b. odata (g b) = odata b @ bs"
  shows "emits A (length bs) f (\<lambda>D p q. q = p + length bs \<and> bytes_at D p bs)"
proof (rule emitsI, intro exI conjI allI impI)
  fix N r assume r: "render_ok A N r" "rlen r + length bs + 300 < 2 ^ 63"
  let ?r = "r\<lparr>rbuf := g (rbuf r)\<rparr>"
  show "f r = Ret ?r" by (rule assms(1))
  show o: "odata (rbuf ?r) = odata (rbuf r) @ bs" using assms(2) by simp
  show "length bs \<le> length bs" by simp
  show "render_ok A (N \<union> {rlen r..<rlen ?r}) ?r"
    using render_ok_mono [OF render_ok_data [OF r(1), of "g (rbuf r)" bs]] assms(2) by simp
  show "rlen ?r = rlen r + length bs" using o by simp
  fix D assume D: "agree (N \<union> {rlen r..<rlen ?r}) (odata (rbuf ?r)) D"
  then obtain rest where "drop (rlen r) D = bs @ rest" using o by (auto elim: agree_drop)
  moreover have "rlen r \<le> length D" using D o by (simp add: agree_def)
  ultimately show "bytes_at D (rlen r) bs" by (auto simp: bytes_at_def)
qed

lemma emits_Uint8: "emits A 1 (\<lambda>r. Ret (Render_WriteUint8 r d)) (\<lambda>D p q. q = p + 1 \<and> bytes_at D p [d])"
  using emits_data [of _ "\<lambda>b. WriteUint8 b d" "[d]"] by (simp add: Render_WriteUint8_def)

lemma emits_Uint16: "emits A 2 (\<lambda>r. Ret (Render_WriteUint16 r d)) (\<lambda>D p q. q = p + 2 \<and> bytes_at D p (be16 d))"
  using emits_data [of _ "\<lambda>b. WriteUint16 b d" "be16 d"] by (simp add: Render_WriteUint16_def)

lemma emits_Uint32: "emits A 4 (\<lambda>r. Ret (Render_WriteUint32 r d)) (\<lambda>D p q. q = p + 4 \<and> bytes_at D p (be32 d))"
  using emits_data [of _ "\<lambda>b. WriteUint32 b d" "be32 d"] by (simp add: Render_WriteUint32_def)

lemma emits_Data: "emits A (length d) (\<lambda>r. Ret (Render_WriteData r d)) (\<lambda>D p q. q = p + length d \<and> bytes_at D p d)"
  using emits_data [of _ "\<lambda>b. WriteData b d" d] by (simp add: Render_WriteData_def odata_WriteData)

section \<open>Names\<close>

lemma emits_name:
  assumes "wf_name n" "over A (labels n)"
  shows "emits A 256 (\<lambda>r. WriteName r n compress)
    (\<lambda>D p q. \<exists>ls. name_at D p p ls q \<and> valid_labels ls \<and> over A ls \<and> fold_case ls = fold_case (labels n))"
proof (rule emitsI)
  fix N r assume r: "render_ok A N r" "rlen r + 256 + 300 < 2 ^ 63"
  have n: "valid_labels (labels n)" "name_of (labels n) = n" using assms(1) by (auto simp: wf_name_def)
  from r(2) have room: "rlen r + 300 < 2 ^ 63" by simp
  obtain r' bs full where w: "WriteName r n compress = Ret r'" "odata (rbuf r') = odata (rbuf r) @ bs"
    "length bs \<le> 256" "render_ok A (N \<union> {rlen r..<rlen r'}) r'" "valid_labels full \<and> over A full"
    "same_name (caseSensitive r) full (labels n)"
    "\<And>D. agree (N \<union> {rlen r..<rlen r'}) (odata (rbuf r')) D \<Longrightarrow> name_at D (rlen r) (rlen r) full (rlen r')"
    using WriteName_labels [OF r(1) n(1) assms(2) room, of compress] n(2) unfolding Let_def by metis
  show "\<exists>r' bs. WriteName r n compress = Ret r' \<and> odata (rbuf r') = odata (rbuf r) @ bs \<and> length bs \<le> 256 \<and>
        render_ok A (N \<union> {rlen r..<rlen r'}) r' \<and>
        (\<forall>D. agree (N \<union> {rlen r..<rlen r'}) (odata (rbuf r')) D \<longrightarrow> length D < 2 ^ 63 \<longrightarrow>
           (\<exists>ls. name_at D (rlen r) (rlen r) ls (rlen r') \<and> valid_labels ls \<and> over A ls \<and> fold_case ls = fold_case (labels n)))"
  proof (intro exI conjI allI impI)
    fix D assume "agree (N \<union> {rlen r..<rlen r'}) (odata (rbuf r')) D"
    then show "name_at D (rlen r) (rlen r) full (rlen r')" by (rule w(7))
    show "fold_case full = fold_case (labels n)" by (rule same_name_False [OF w(6)])
  qed (use w in simp_all)
qed


section \<open>Lengths written back\<close>

text \<open>The two bytes reserved for a length are outside every name, so filling them in changes none.\<close>

definition with_length :: "(MsgRender \<Rightarrow> (g53_error, MsgRender) go) \<Rightarrow> MsgRender \<Rightarrow> (g53_error, MsgRender) go" where
  "with_length f r =
     (let p = rlen r in
      gbind (f (Render_Skip r 2)) (\<lambda>r. patch_length r (word_of_nat (usub (usub (rlen r) p) 2)) p))"

lemma replicate_numeral_two: "replicate 2 x = [x, x]"
  by (simp add: numeral_2_eq_2)

lemma agree_patch:
  assumes "length xs = p" "length b2 = length b1" "N \<inter> {p..<p + length b1} = {}"
  shows "agree N (xs @ b1 @ ys) (xs @ b2 @ ys)"
  using assms by (auto simp: agree_def nth_append disjoint_iff)

lemma render_ok_rbuf: "render_ok A N r \<Longrightarrow> agree N (odata (rbuf r)) (odata b) \<Longrightarrow> render_ok A N (r\<lparr>rbuf := b\<rparr>)"
  unfolding render_ok_def using item_ok_mono by fastforce

lemma emits_with_length:
  assumes f: "emits A sz f P"
  shows "emits A (sz + 2) (with_length f)
    (\<lambda>D p q. p + 2 \<le> q \<and> bytes_at D p (be16 (word_of_nat (q - p - 2))) \<and> P D (p + 2) q)"
proof (rule emitsI)
  fix N r assume r: "render_ok A N r" "N \<subseteq> {..<rlen r}" "rlen r + (sz + 2) + 300 < 2 ^ 63"
  let ?p = "rlen r" and ?r0 = "Render_Skip r 2"
  have o0: "odata (rbuf ?r0) = odata (rbuf r) @ [0, 0]"
    using r(3) odata_Out_Skip [of "rbuf r" 2] replicate_numeral_two by (simp add: Render_Skip_def)
  have ok0: "render_ok A N ?r0" using render_ok_data [OF r(1), of "Out_Skip (rbuf r) 2"] o0 by (simp add: Render_Skip_def)
  obtain r1 bs where 1: "f ?r0 = Ret r1" "odata (rbuf r1) = odata (rbuf ?r0) @ bs" "length bs \<le> sz"
    "render_ok A (N \<union> {rlen ?r0..<rlen r1}) r1"
    "\<And>D. agree (N \<union> {rlen ?r0..<rlen r1}) (odata (rbuf r1)) D \<Longrightarrow> length D < 2 ^ 63 \<Longrightarrow> P D (rlen ?r0) (rlen r1)"
  proof (rule emitsE [OF f ok0])
    show "N \<subseteq> {..<rlen ?r0}" using r(2) o0 by auto
    show "rlen ?r0 + sz + 300 < 2 ^ 63" using r(3) o0 by simp
  qed blast
  let ?v = "word_of_nat (length bs) :: u16"
  have o1: "odata (rbuf r1) = odata (rbuf r) @ [0, 0] @ bs" using 1(2) o0 by simp
  obtain b where b: "WriteUint16At (rbuf r1) ?v ?p = Ret b" "odata b = odata (rbuf r) @ be16 ?v @ bs"
    using WriteUint16At_mid [of "odata (rbuf r)" bs "[0, 0]" "rbuf r1" ?v] o1 1(3) r(3) by auto
  let ?r2 = "r1\<lparr>rbuf := b\<rparr>" and ?M = "N \<union> {?p + 2..<?p + 2 + length bs}"
  have M: "N \<union> {rlen ?r0..<rlen r1} = ?M" "rlen ?r0 = ?p + 2" "rlen r1 = ?p + 2 + length bs" using o0 o1 by simp_all
  have ag: "agree ?M (odata (rbuf r1)) (odata b)"
    unfolding b(2) o1 using r(2) by (intro agree_patch [of _ ?p]) (auto simp: be16_def)
  have ok2: "render_ok A (N \<union> {?p..<?p + 2 + length bs}) ?r2"
    by (rule render_ok_mono [OF render_ok_rbuf [OF 1(4) [unfolded M] ag]]) auto
  show "\<exists>r' bs. with_length f r = Ret r' \<and> odata (rbuf r') = odata (rbuf r) @ bs \<and> length bs \<le> sz + 2 \<and>
        render_ok A (N \<union> {?p..<rlen r'}) r' \<and>
        (\<forall>D. agree (N \<union> {?p..<rlen r'}) (odata (rbuf r')) D \<longrightarrow> length D < 2 ^ 63 \<longrightarrow>
           ?p + 2 \<le> rlen r' \<and> bytes_at D ?p (be16 (word_of_nat (rlen r' - ?p - 2))) \<and> P D (?p + 2) (rlen r'))"
  proof (intro exI conjI allI impI)
    show "with_length f r = Ret ?r2"
      using 1(1,3) b(1) M(3) r(3) by (simp add: with_length_def patch_length_def usub_small Render_WriteUint16At_def)
    show "odata (rbuf ?r2) = odata (rbuf r) @ (be16 ?v @ bs)" "length (be16 ?v @ bs) \<le> sz + 2"
      using b(2) 1(3) by simp_all
    show "render_ok A (N \<union> {?p..<rlen ?r2}) ?r2" using ok2 b(2) by (simp add: add.assoc)
    show "?p + 2 \<le> rlen ?r2" using b(2) by simp
    fix D assume D: "agree (N \<union> {?p..<rlen ?r2}) (odata (rbuf ?r2)) D" "length D < 2 ^ 63"
    then have "agree (N \<union> {?p..<?p + length (be16 ?v @ bs)}) (odata (rbuf r) @ be16 ?v @ bs) D" using b(2) by simp
    then obtain rest where "drop ?p D = (be16 ?v @ bs) @ rest" by (rule agree_drop) auto
    then show "bytes_at D ?p (be16 (word_of_nat (rlen ?r2 - ?p - 2)))"
      using D(1) b(2) by (simp add: bytes_at_def agree_def)
    have "?M \<subseteq> N \<union> {?p..<rlen ?r2}" using b(2) by auto
    then have "agree ?M (odata b) D" using agree_mono [OF D(1)] by simp
    then have "agree ?M (odata (rbuf r1)) D" by (rule agree_trans [OF ag subset_refl])
    then have "P D (rlen ?r0) (rlen r1)" using 1(5) D(2) unfolding M(1) by blast
    then show "P D (?p + 2) (rlen ?r2)" using M b(2) by simp
  qed
qed


section \<open>Reading back\<close>

text \<open>A decoder at a position of the message.\<close>

definition reads :: "(InputBuffer \<Rightarrow> (g53_error, 'a \<times> InputBuffer) go) \<Rightarrow> 'a \<Rightarrow> byte list \<Rightarrow> nat \<Rightarrow> nat \<Rightarrow> bool" where
  "reads dec x D p q \<longleftrightarrow> dec (buf_at D p) = Ret (x, buf_at D q)"

lemma readsD: "reads dec x D p q \<Longrightarrow> gbind (dec (buf_at D p)) f = f (x, buf_at D q)"
  by (simp add: reads_def)

context wire_codec
begin

lemma reads_bytes_at:
  assumes "ok x" "bytes_at D p (enc x)" "length D < 2 ^ 63"
  shows "reads dec x D p (p + length (enc x))"
proof -
  obtain pre post where D: "D = pre @ enc x @ post" "length pre = p" using assms(2) by (rule bytes_atE)
  then show ?thesis
    using dec_enc [OF assms(1), of pre post] assms(3) by (simp add: reads_def buf_at_input input_ok_def)
qed

end

lemma reads_name:
  assumes "name_at D p p ls q" "valid_labels ls" "length D < 2 ^ 63" "p \<le> length D"
  shows "reads (\<lambda>buf. NameFromWire buf d) (name_of (cased d ls)) D p q"
  using assms NameFromWire_iff [of D p d "name_of (cased d ls)" "buf_at D q"] by (auto simp: reads_def)

text \<open>
  The contract of a renderer and a decoder: what \<open>rend x\<close> writes is read back by \<open>dec\<close> as
  \<open>norm x\<close>, \<open>x\<close> with the case of its names lost.
\<close>

locale rend_codec =
  fixes A :: "byte set"
    and rend :: "'a \<Rightarrow> MsgRender \<Rightarrow> (g53_error, MsgRender) go"
    and dec :: "InputBuffer \<Rightarrow> (g53_error, 'b \<times> InputBuffer) go"
    and ok :: "'a \<Rightarrow> bool"
    and norm :: "'a \<Rightarrow> 'b"
    and size :: "'a \<Rightarrow> nat"
  assumes rend_reads: "ok x \<Longrightarrow> emits A (size x) (rend x) (reads dec (norm x))"
begin

lemma rend_decodes:
  assumes "ok x" "render_ok A N r" "N \<subseteq> {..<rlen r}" "rlen r + size x + 300 < 2 ^ 63"
  shows "\<exists>r'. rend x r = Ret r' \<and> dec (buf_at (odata (rbuf r')) (rlen r)) = Ret (norm x, buf_at (odata (rbuf r')) (rlen r'))"
  by (rule emitsE [OF rend_reads [OF assms(1)] assms(2-4)]) (use assms(4) in \<open>auto simp: reads_def\<close>)

end

locale rend_codec_pair = a: rend_codec A rend_a dec_a ok_a norm_a size_a + b: rend_codec A rend_b dec_b ok_b norm_b size_b
  for A and rend_a :: "'a \<Rightarrow> MsgRender \<Rightarrow> (g53_error, MsgRender) go" and dec_a ok_a and norm_a :: "'a \<Rightarrow> 'c" and size_a
    and rend_b :: "'b \<Rightarrow> MsgRender \<Rightarrow> (g53_error, MsgRender) go" and dec_b ok_b and norm_b :: "'b \<Rightarrow> 'd" and size_b
begin

lemma rend_pair:
  assumes "ok_a x" "ok_b y"
  shows "emits A (size_a x + size_b y) (\<lambda>r. gbind (rend_a x r) (rend_b y))
    (reads (\<lambda>buf. gbind (dec_a buf) (\<lambda>(x, buf). gbind (dec_b buf) (\<lambda>(y, buf). Ret ((x, y), buf)))) (norm_a x, norm_b y))"
  by (rule emits_weaken [OF emits_seq [OF a.rend_reads [OF assms(1)] b.rend_reads [OF assms(2)]]])
    (auto simp: reads_def)

end

definition name_ok :: "byte set \<Rightarrow> Name \<Rightarrow> bool" where
  "name_ok A n \<longleftrightarrow> wf_name n \<and> over A (labels n)"

definition name_norm :: "Name \<Rightarrow> Name" where
  "name_norm n = name_of (fold_case (labels n))"

interpretation name_rend: rend_codec A "\<lambda>n r. WriteName r n compress" "\<lambda>buf. NameFromWire buf True" "name_ok A" name_norm "\<lambda>_. 256" for A compress
proof
  fix n assume "name_ok A n"
  then have "emits A 256 (\<lambda>r. WriteName r n compress)
    (\<lambda>D p q. \<exists>ls. name_at D p p ls q \<and> valid_labels ls \<and> over A ls \<and> fold_case ls = fold_case (labels n))"
    by (intro emits_name) (auto simp: name_ok_def)
  then show "emits A 256 (\<lambda>r. WriteName r n compress) (reads (\<lambda>buf. NameFromWire buf True) (name_norm n))"
  proof (rule emits_weaken)
    fix D :: "byte list" and p q assume D: "p \<le> q" "q \<le> length D" "length D < 2 ^ 63"
    assume "\<exists>ls. name_at D p p ls q \<and> valid_labels ls \<and> over A ls \<and> fold_case ls = fold_case (labels n)"
    then obtain ls where "name_at D p p ls q" "valid_labels ls" and e: "fold_case (labels n) = fold_case ls" by auto
    then show "reads (\<lambda>buf. NameFromWire buf True) (name_norm n) D p q"
      using reads_name [of D p ls q True] D by (simp add: cased_def name_norm_def e)
  qed simp
qed

interpretation u8_rend: rend_codec A "\<lambda>d r. Ret (Render_WriteUint8 r d)" ReadUint8 "\<lambda>_. True" "\<lambda>d. d" "\<lambda>_. 1" for A
  by unfold_locales (rule emits_weaken [OF emits_Uint8], use u8.reads_bytes_at in auto)

interpretation u16_rend: rend_codec A "\<lambda>d r. Ret (Render_WriteUint16 r d)" ReadUint16 "\<lambda>_. True" "\<lambda>d. d" "\<lambda>_. 2" for A
  by unfold_locales (rule emits_weaken [OF emits_Uint16], use u16.reads_bytes_at in auto)

interpretation u32_rend: rend_codec A "\<lambda>d r. Ret (Render_WriteUint32 r d)" ReadUint32 "\<lambda>_. True" "\<lambda>d. d" "\<lambda>_. 4" for A
  by unfold_locales (rule emits_weaken [OF emits_Uint32], use u32.reads_bytes_at in auto)

interpretation octets_rend: rend_codec A "\<lambda>d r. Ret (Render_WriteData r d)" "\<lambda>buf. ReadBytes buf n" "\<lambda>d. length d = n" "\<lambda>d. d" length for A n
  by unfold_locales (rule emits_weaken [OF emits_Data], use octets.reads_bytes_at in auto)

interpretation u16_u16_rend: rend_codec_pair A
  "\<lambda>d r. Ret (Render_WriteUint16 r d)" ReadUint16 "\<lambda>_. True" "\<lambda>d. d" "\<lambda>_. 2"
  "\<lambda>d r. Ret (Render_WriteUint16 r d)" ReadUint16 "\<lambda>_. True" "\<lambda>d. d" "\<lambda>_. 2" for A
  by unfold_locales

lemma emits_Header: "emits A 12 (\<lambda>r. Ret (Header_Rend h r)) (\<lambda>D p q. q = p + 12 \<and> bytes_at D p (enc_header h))"
  using emits_data [of "\<lambda>r. Ret (Header_Rend h r)" "\<lambda>b. Header_ToWire h b" "enc_header h"]
  by (simp add: odata_Header_ToWire) (simp add: Header_Rend_def Header_ToWire_def Let_def Render_WriteUint16_def)

interpretation header_rend: rend_codec A "\<lambda>h r. Ret (Header_Rend h r)" "HeaderFromWire h0" "\<lambda>_. True" header_trunc "\<lambda>_. 12" for A h0
proof
  fix h
  show "emits A 12 (\<lambda>r. Ret (Header_Rend h r)) (reads (HeaderFromWire h0) (header_trunc h))"
  proof (rule emits_weaken [OF emits_Header])
    fix D :: "byte list" and p q assume "q = p + 12 \<and> bytes_at D p (enc_header h)" "length D < 2 ^ 63"
    then obtain pre post where "D = pre @ enc_header h @ post" "length pre = p" "q = p + 12" by (auto elim: bytes_atE)
    then show "reads (HeaderFromWire h0) (header_trunc h) D p q"
      using HeaderFromWire_enc [of pre h post h0] \<open>length D < 2 ^ 63\<close> by (simp add: reads_def buf_at_input input_ok_def)
  qed simp
qed

section \<open>Reading back up to a relation\<close>

text \<open>
  The weaker contract for what is read back up to a relation only: owner names keep the case of
  the text they were compressed to.
\<close>

locale rend_rel =
  fixes A :: "byte set"
    and rend :: "'a \<Rightarrow> MsgRender \<Rightarrow> (g53_error, MsgRender) go"
    and dec :: "InputBuffer \<Rightarrow> (g53_error, 'b \<times> InputBuffer) go"
    and ok :: "'a \<Rightarrow> bool"
    and rel :: "'a \<Rightarrow> 'b \<Rightarrow> bool"
    and size :: "'a \<Rightarrow> nat"
  assumes rend_rel_reads: "ok x \<Longrightarrow> emits A (size x) (rend x) (\<lambda>D p q. \<exists>y. rel x y \<and> reads dec y D p q)"
begin

lemma rend_related:
  assumes "ok x" "render_ok A N r" "N \<subseteq> {..<rlen r}" "rlen r + size x + 300 < 2 ^ 63"
  shows "\<exists>r' y. rend x r = Ret r' \<and> rel x y \<and> dec (buf_at (odata (rbuf r')) (rlen r)) = Ret (y, buf_at (odata (rbuf r')) (rlen r'))"
proof (rule emitsE [OF rend_rel_reads [OF assms(1)] assms(2-4)])
  fix r' bs assume r': "rend x r = Ret r'" "odata (rbuf r') = odata (rbuf r) @ bs" "length bs \<le> size x"
    and D: "\<And>D. agree (N \<union> {rlen r..<rlen r'}) (odata (rbuf r')) D \<Longrightarrow> length D < 2 ^ 63 \<Longrightarrow>
      \<exists>y. rel x y \<and> reads dec y D (rlen r) (rlen r')"
  then have "rlen r' < 2 ^ 63" using assms(4) by simp
  then show ?thesis using D [OF agree_refl] r'(1) by (auto simp: reads_def)
qed

end

sublocale rend_codec < related: rend_rel A rend dec ok "\<lambda>x y. y = norm x" size
  by unfold_locales (use rend_reads in simp)

text \<open>Sequences of items, written one after the other and read by as many calls.\<close>

fun rend_many :: "('a \<Rightarrow> MsgRender \<Rightarrow> (g53_error, MsgRender) go) \<Rightarrow> 'a list \<Rightarrow> MsgRender \<Rightarrow> (g53_error, MsgRender) go" where
  "rend_many rend [] r = Ret r"
| "rend_many rend (x # xs) r = gbind (rend x r) (rend_many rend xs)"

fun reads_many :: "(InputBuffer \<Rightarrow> (g53_error, 'a \<times> InputBuffer) go) \<Rightarrow> 'a list \<Rightarrow> byte list \<Rightarrow> nat \<Rightarrow> nat \<Rightarrow> bool" where
  "reads_many dec [] D p q \<longleftrightarrow> q = p"
| "reads_many dec (y # ys) D p q \<longleftrightarrow> (\<exists>m. reads dec y D p m \<and> reads_many dec ys D m q)"

lemma rend_many_Nil: "rend_many rend [] = Ret"
  by (simp add: fun_eq_iff)

lemma rend_many_append: "rend_many rend (xs @ ys) r = gbind (rend_many rend xs r) (rend_many rend ys)"
  by (induction xs arbitrary: r) (auto simp: gbind_assoc intro!: arg_cong [where f = "gbind _"])

context rend_rel
begin

lemma rend_many_reads:
  assumes "list_all ok xs"
  shows "emits A (sum_list (map size xs)) (rend_many rend xs) (\<lambda>D p q. \<exists>ys. list_all2 rel xs ys \<and> reads_many dec ys D p q)"
  using assms
proof (induction xs)
  case Nil
  have "emits A 0 Ret (\<lambda>D p q. \<exists>ys. list_all2 rel [] ys \<and> reads_many dec ys D p q)"
    by (rule emits_weaken [OF emits_Ret]) auto
  then show ?case by (simp add: rend_many_Nil)
next
  case (Cons x xs)
  then have ok: "ok x" "list_all ok xs" by simp_all
  have eq: "rend_many rend (x # xs) = (\<lambda>r. gbind (rend x r) (rend_many rend xs))" by (simp add: fun_eq_iff)
  have "emits A (size x + sum_list (map size xs)) (rend_many rend (x # xs)) (\<lambda>D p q. \<exists>ys. list_all2 rel (x # xs) ys \<and> reads_many dec ys D p q)"
    unfolding eq
  proof (rule emits_weaken [OF emits_seq [OF rend_rel_reads [OF ok(1)] Cons.IH [OF ok(2)]]], goal_cases)
    case (1 D p q)
    then obtain m y ys where "rel x y" "reads dec y D p m" "list_all2 rel xs ys" "reads_many dec ys D m q" by blast
    then show ?case by (intro exI [of _ "y # ys"]) auto
  qed simp
  then show ?case by (simp only: list.map sum_list.Cons)
qed

end

definition name_alike :: "byte set \<Rightarrow> Name \<Rightarrow> Name \<Rightarrow> bool" where
  "name_alike A n m \<longleftrightarrow> name_ok A m \<and> fold_case (labels m) = fold_case (labels n)"

interpretation owner_rend: rend_rel A Name_Rend "\<lambda>buf. NameFromWire buf False" "name_ok A" "name_alike A" "\<lambda>_. 256" for A
proof
  fix n assume "name_ok A n"
  then have n: "wf_name n" "over A (labels n)" by (auto simp: name_ok_def)
  have eq: "Name_Rend n = (\<lambda>r. WriteName r n True)" by (simp add: fun_eq_iff Name_Rend_def)
  show "emits A 256 (Name_Rend n) (\<lambda>D p q. \<exists>y. name_alike A n y \<and> reads (\<lambda>buf. NameFromWire buf False) y D p q)"
    unfolding eq
  proof (rule emits_weaken [OF emits_name [OF n]], goal_cases)
    case (1 D p q)
    then obtain ls where ls: "name_at D p p ls q" "valid_labels ls" "over A ls" "fold_case ls = fold_case (labels n)" by blast
    then have "reads (\<lambda>buf. NameFromWire buf False) (name_of ls) D p q"
      using reads_name [of D p ls q False] 1 by (simp add: cased_def)
    moreover have "name_alike A n (name_of ls)" using ls by (simp add: name_alike_def name_ok_def wf_name_of labels_name_of)
    ultimately show ?case by blast
  qed simp
qed

end
