(* ===== verification/Rdata.thy ===== *)
theory Rdata
  imports Dns_Header Name_Text
begin

unbundle bit_operations_syntax

text \<open>
  The record data of \<open>src/g53\<close>: the field codings of \<open>rdatafield.go\<close>, the record types of
  \<open>rdata_*.go\<close> and \<open>tsig.go\<close> with their wire decoders, encoders and comparisons, and the
  dispatch on the record type of \<open>rdata.go\<close>.

  A field is a Go \<open>interface{}\<close> holding one of a few dynamic types, the datatype \<open>field\<close>; a failed
  type assertion \<open>v, _ := f.(T)\<close> gives the zero value of \<open>T\<close>, as in the accessors \<open>as_uint8\<close> etc.
  \<open>Digest\<close>, \<open>Salt\<close> and \<open>NextHash\<close>, which the code stores as hex or base32 text, are held as the
  bytes this text encodes. A \<open>TSIG\<close> here is one that came from the wire (its \<open>hash\<close> is nil).
\<close>

section \<open>Fields\<close>

datatype RDFCodingType =
  RDF_C_NAME | RDF_C_NAME_UNCOMPRESS | RDF_C_UINT8 | RDF_C_UINT16 | RDF_C_UINT32
| RDF_C_IPV4 | RDF_C_IPV6 | RDF_C_BINARY | RDF_C_BYTE_BINARY | RDF_C_TXT

datatype field =
  FName Name | FUint8 byte | FUint16 u16 | FUint32 u32 | FIP "byte list" | FBytes "byte list"
| FString "byte list" | FStrings "byte list list"

fun as_uint8 :: "field \<Rightarrow> byte" where
  "as_uint8 (FUint8 d) = d"
| "as_uint8 _ = 0"

fun as_uint16 :: "field \<Rightarrow> u16" where
  "as_uint16 (FUint16 d) = d"
| "as_uint16 _ = 0"

fun as_uint32 :: "field \<Rightarrow> u32" where
  "as_uint32 (FUint32 d) = d"
| "as_uint32 _ = 0"

fun as_ip :: "field \<Rightarrow> byte list" where
  "as_ip (FIP d) = d"
| "as_ip _ = []"

fun as_bytes :: "field \<Rightarrow> byte list" where
  "as_bytes (FBytes d) = d"
| "as_bytes _ = []"

fun as_strings :: "field \<Rightarrow> byte list list" where
  "as_strings (FStrings d) = d"
| "as_strings _ = []"

text \<open>A \<open>*Name\<close> that is nil panics when it is used; every use of \<open>n, _ := f.(*Name)\<close> uses it.\<close>

fun as_name :: "field \<Rightarrow> (g53_error, Name) go" where
  "as_name (FName n) = Ret n"
| "as_name _ = Panic"

definition byteBinaryFromWire :: "InputBuffer \<Rightarrow> u16 \<Rightarrow> (g53_error, field \<times> u16 \<times> InputBuffer) go" where
  "byteBinaryFromWire buf ll =
     gbind (ReadUint8 buf) (\<lambda>(l, buf).
     if ll < 1 then Err DataIsTooShort
     else
       let ll = ll - 1 in
       if ucast l > ll then Err StringIsTooLong
       else
         gbind (ReadBytes buf (unat l)) (\<lambda>(d, buf).
         if ll < ucast l then Err DataIsTooShort
         else Ret (FBytes d, ll - ucast l, buf)))"

lemma byteBinaryFromWire_shrinks:
  "byteBinaryFromWire buf ll = Ret (d, ll', buf') \<Longrightarrow> unat ll' < unat ll"
proof -
  assume "byteBinaryFromWire buf ll = Ret (d, ll', buf')"
  then obtain l where l: "\<not> ll < 1" "\<not> ucast (l :: byte) > ll - 1" "ll' = ll - 1 - ucast l"
    by (auto simp: byteBinaryFromWire_def gbind_eq_Ret_iff Let_def split: if_splits)
  then have "unat (ll - 1) = unat ll - 1" "0 < unat ll" by (auto simp: unat_sub word_less_nat_alt word_le_nat_alt not_less)
  moreover have "unat ll' \<le> unat (ll - 1)" using l(2,3) by (simp add: unat_sub not_less)
  ultimately show ?thesis by simp
qed

function txtFromWire :: "InputBuffer \<Rightarrow> u16 \<Rightarrow> byte list list \<Rightarrow> (g53_error, field \<times> u16 \<times> InputBuffer) go" where
  "txtFromWire buf ll ss =
     (if ll > 0 then
        gbind (byteBinaryFromWire buf ll) (\<lambda>(d, ll, buf). txtFromWire buf ll (ss @ [as_bytes d]))
      else Ret (FStrings ss, 0, buf))"
  by pat_completeness auto
termination
  by (relation "measure (\<lambda>(_, ll, _). unat ll)") (auto dest: byteBinaryFromWire_shrinks)

declare txtFromWire.simps [simp del]

definition fieldFromWire :: "RDFCodingType \<Rightarrow> InputBuffer \<Rightarrow> u16 \<Rightarrow> (g53_error, field \<times> u16 \<times> InputBuffer) go" where
  "fieldFromWire ct buf ll =
     (case ct of
        RDF_C_NAME \<Rightarrow>
          gbind (NameFromWire buf True) (\<lambda>(n, buf').
          let namelen = word_of_nat (usub (pos buf') (pos buf)) in
          if ll < namelen then Err DataIsTooShort else Ret (FName n, ll - namelen, buf'))
      | RDF_C_NAME_UNCOMPRESS \<Rightarrow>
          gbind (NameFromWire buf True) (\<lambda>(n, buf').
          let namelen = word_of_nat (usub (pos buf') (pos buf)) in
          if ll < namelen then Err DataIsTooShort else Ret (FName n, ll - namelen, buf'))
      | RDF_C_UINT8 \<Rightarrow>
          gbind (ReadUint8 buf) (\<lambda>(d, buf).
          if ll < 1 then Err DataIsTooShort else Ret (FUint8 d, ll - 1, buf))
      | RDF_C_UINT16 \<Rightarrow>
          gbind (ReadUint16 buf) (\<lambda>(d, buf).
          if ll < 2 then Err DataIsTooShort else Ret (FUint16 d, ll - 2, buf))
      | RDF_C_UINT32 \<Rightarrow>
          gbind (ReadUint32 buf) (\<lambda>(d, buf).
          if ll < 4 then Err DataIsTooShort else Ret (FUint32 d, ll - 4, buf))
      | RDF_C_IPV4 \<Rightarrow>
          gbind (ReadBytes buf 4) (\<lambda>(d, buf).
          if ll < 4 then Err DataIsTooShort else Ret (FIP d, ll - 4, buf))
      | RDF_C_IPV6 \<Rightarrow>
          gbind (ReadBytes buf 16) (\<lambda>(d, buf).
          if ll < 16 then Err DataIsTooShort else Ret (FIP d, ll - 16, buf))
      | RDF_C_TXT \<Rightarrow> txtFromWire buf ll []
      | RDF_C_BINARY \<Rightarrow> gbind (ReadBytes buf (unat ll)) (\<lambda>(d, buf). Ret (FBytes d, 0, buf))
      | RDF_C_BYTE_BINARY \<Rightarrow> byteBinaryFromWire buf ll)"

definition rendBytes :: "byte list \<Rightarrow> MsgRender \<Rightarrow> MsgRender" where
  "rendBytes d r = Render_WriteData (Render_WriteUint8 r (word_of_nat (length d))) d"

definition rendField :: "RDFCodingType \<Rightarrow> field \<Rightarrow> MsgRender \<Rightarrow> (g53_error, MsgRender) go" where
  "rendField ct d r =
     (case ct of
        RDF_C_NAME \<Rightarrow> gbind (as_name d) (\<lambda>n. WriteName r n True)
      | RDF_C_NAME_UNCOMPRESS \<Rightarrow> gbind (as_name d) (\<lambda>n. WriteName r n False)
      | RDF_C_UINT8 \<Rightarrow> Ret (Render_WriteUint8 r (as_uint8 d))
      | RDF_C_UINT16 \<Rightarrow> Ret (Render_WriteUint16 r (as_uint16 d))
      | RDF_C_UINT32 \<Rightarrow> Ret (Render_WriteUint32 r (as_uint32 d))
      | RDF_C_IPV4 \<Rightarrow> Ret (Render_WriteData r (as_ip d))
      | RDF_C_IPV6 \<Rightarrow> Ret (Render_WriteData r (as_ip d))
      | RDF_C_BINARY \<Rightarrow> Ret (Render_WriteData r (as_bytes d))
      | RDF_C_TXT \<Rightarrow> Ret (fold (\<lambda>s. rendBytes (as_bytes (FBytes s))) (as_strings d) r)
      | RDF_C_BYTE_BINARY \<Rightarrow> Ret (rendBytes (as_bytes d) r))"

definition toWireBytes :: "byte list \<Rightarrow> OutputBuffer \<Rightarrow> OutputBuffer" where
  "toWireBytes d out = WriteData (WriteUint8 out (word_of_nat (length d))) d"

text \<open>The \<open>RDF_C_TXT\<close> case hands a \<open>string\<close> to the \<open>RDF_C_BYTE_BINARY\<close> case, which asserts \<open>[]uint8\<close>.\<close>

definition fieldToWire :: "RDFCodingType \<Rightarrow> field \<Rightarrow> OutputBuffer \<Rightarrow> (g53_error, OutputBuffer) go" where
  "fieldToWire ct d out =
     (case ct of
        RDF_C_NAME \<Rightarrow> gbind (as_name d) (\<lambda>n. Ret (Name_ToWire n out))
      | RDF_C_NAME_UNCOMPRESS \<Rightarrow> gbind (as_name d) (\<lambda>n. Ret (Name_ToWire n out))
      | RDF_C_UINT8 \<Rightarrow> Ret (WriteUint8 out (as_uint8 d))
      | RDF_C_UINT16 \<Rightarrow> Ret (WriteUint16 out (as_uint16 d))
      | RDF_C_UINT32 \<Rightarrow> Ret (WriteUint32 out (as_uint32 d))
      | RDF_C_IPV4 \<Rightarrow> Ret (WriteData out (as_ip d))
      | RDF_C_IPV6 \<Rightarrow> Ret (WriteData out (as_ip d))
      | RDF_C_BINARY \<Rightarrow> Ret (WriteData out (as_bytes d))
      | RDF_C_TXT \<Rightarrow> Ret (fold (\<lambda>s. toWireBytes (as_bytes (FString s))) (as_strings d) out)
      | RDF_C_BYTE_BINARY \<Rightarrow> Ret (toWireBytes (as_bytes d) out))"

text \<open>
  \<open>bytes.Compare\<close> and \<open>strings.Compare\<close>; \<open>StringSliceCompare\<close> of \<open>util/string.go\<close>, whose
  \<open>strings.ToLower\<close> is the ASCII one here (every call passes \<open>caseSensitive = true\<close>).
\<close>

fun bytes_compare :: "byte list \<Rightarrow> byte list \<Rightarrow> int" where
  "bytes_compare [] [] = 0"
| "bytes_compare [] (_ # _) = -1"
| "bytes_compare (_ # _) [] = 1"
| "bytes_compare (x # xs) (y # ys) = (if x < y then -1 else if y < x then 1 else bytes_compare xs ys)"

fun StringSliceCompare :: "byte list list \<Rightarrow> byte list list \<Rightarrow> bool \<Rightarrow> int" where
  "StringSliceCompare (s1 # strs1) (s2 # strs2) cs =
     (let order = bytes_compare (if cs then s1 else map maptolower s1) (if cs then s2 else map maptolower s2) in
      if order \<noteq> 0 then order else StringSliceCompare strs1 strs2 cs)"
| "StringSliceCompare [] [] cs = 0"
| "StringSliceCompare (_ # _) [] cs = 1"
| "StringSliceCompare [] (_ # _) cs = -1"

definition fieldCompare :: "RDFCodingType \<Rightarrow> field \<Rightarrow> field \<Rightarrow> (g53_error, int) go" where
  "fieldCompare ct d1 d2 =
     (case ct of
        RDF_C_NAME \<Rightarrow> gbind (as_name d1) (\<lambda>n1. gbind (as_name d2) (\<lambda>n2.
          gbind (Compare n1 n2 False) (\<lambda>c. Ret (Order c))))
      | RDF_C_NAME_UNCOMPRESS \<Rightarrow> gbind (as_name d1) (\<lambda>n1. gbind (as_name d2) (\<lambda>n2.
          gbind (Compare n1 n2 False) (\<lambda>c. Ret (Order c))))
      | RDF_C_UINT8 \<Rightarrow> Ret (uint (as_uint8 d1) - uint (as_uint8 d2))
      | RDF_C_UINT16 \<Rightarrow> Ret (uint (as_uint16 d1) - uint (as_uint16 d2))
      | RDF_C_UINT32 \<Rightarrow> Ret (if as_uint32 d1 = as_uint32 d2 then 0 else if as_uint32 d1 < as_uint32 d2 then -1 else 1)
      | RDF_C_IPV4 \<Rightarrow> Ret (bytes_compare (as_ip d1) (as_ip d2))
      | RDF_C_IPV6 \<Rightarrow> Ret (bytes_compare (as_ip d1) (as_ip d2))
      | RDF_C_BINARY \<Rightarrow> Ret (bytes_compare (as_bytes d1) (as_bytes d2))
      | RDF_C_TXT \<Rightarrow> Ret (StringSliceCompare (as_strings d1) (as_strings d2) True)
      | RDF_C_BYTE_BINARY \<Rightarrow> Ret (bytes_compare (as_bytes d1) (as_bytes d2)))"

end
