(* ===== verification/Encodings.thy ===== *)
theory Encodings
  imports Go_Prelude
begin
unbundle bit_operations_syntax

text \<open>
  The parts of Go's \<open>encoding/hex\<close>, \<open>encoding/base32\<close> and \<open>encoding/base64\<close> the record types use:
  \<open>EncodeToString\<close> and the decoders. The first two decoders return what they decoded before the
  first error together with whether there was none; the callers of the third drop everything on
  an error. Base32 is \<open>HexEncoding\<close> and base64 is \<open>StdEncoding\<close>, both with padding.
\<close>

section \<open>Hexadecimal\<close>

definition hex_char :: "byte \<Rightarrow> byte" where
  "hex_char v = (if v < 10 then 0x30 + v else 0x57 + v)"

definition fromHexChar :: "byte \<Rightarrow> byte option" where
  "fromHexChar c =
     (if 0x30 \<le> c \<and> c \<le> 0x39 then Some (c - 0x30)
      else if 0x61 \<le> c \<and> c \<le> 0x66 then Some (c - 0x57)
      else if 0x41 \<le> c \<and> c \<le> 0x46 then Some (c - 0x37)
      else None)"

fun hex_EncodeToString :: "byte list \<Rightarrow> byte list" where
  "hex_EncodeToString [] = []"
| "hex_EncodeToString (b # bs) = hex_char (drop_bit 4 b) # hex_char (b AND 0xf) # hex_EncodeToString bs"

fun hex_DecodeString :: "byte list \<Rightarrow> byte list \<times> bool" where
  "hex_DecodeString (x # y # s) =
     (case (fromHexChar x, fromHexChar y) of
        (Some a, Some b) \<Rightarrow> (let (ds, ok) = hex_DecodeString s in ((push_bit 4 a OR b) # ds, ok))
      | _ \<Rightarrow> ([], False))"
| "hex_DecodeString [x] = ([], False)"
| "hex_DecodeString [] = ([], True)"

lemma byte_below: "list_all P (map word_of_nat [0..<k]) \<Longrightarrow> unat v < k \<Longrightarrow> P (v :: byte)"
  by (auto simp: list_all_iff dest: bspec [of _ _ "unat v"])

lemma nibble_char: "v < 16 \<Longrightarrow> fromHexChar (hex_char v) = Some v"
proof -
  have "list_all (\<lambda>v. fromHexChar (hex_char v) = Some v) (map word_of_nat [0..<16])" by code_simp
  then show "v < 16 \<Longrightarrow> ?thesis" by (rule byte_below) (simp add: word_less_nat_alt)
qed

lemma byte_nibbles: "push_bit 4 (drop_bit 4 b) OR b AND 0xf = (b :: byte)" "drop_bit 4 b < 16" "b AND 0xf < 16"
proof -
  have m: "(0xf :: byte) = mask 4" by (simp add: mask_eq_exp_minus_1)
  show "push_bit 4 (drop_bit 4 b) OR b AND 0xf = b"
    unfolding m by (rule bit_word_eqI) (auto simp: bit_simps)
  show "drop_bit 4 b < 16" using unat_byte_less [of b] drop_bit_eq_div [of 4 "unat b"]
    by (simp add: word_less_nat_alt unsigned_drop_bit_eq take_bit_nat_eq_self)
  show "b AND 0xf < 16" unfolding m take_bit_eq_mask [symmetric]
    using take_bit_eq_mod [of 4 "unat b"] by (simp add: word_less_nat_alt unsigned_take_bit_eq)
qed

lemma hex_Decode_Encode [simp]: "hex_DecodeString (hex_EncodeToString bs) = (bs, True)"
  by (induction bs) (simp_all add: nibble_char byte_nibbles)

section \<open>Base32\<close>

definition b32_char :: "byte \<Rightarrow> byte" where
  "b32_char v = (if v < 10 then 0x30 + v else 0x37 + v)"

definition b32_value :: "byte \<Rightarrow> byte option" where
  "b32_value c =
     (if 0x30 \<le> c \<and> c \<le> 0x39 then Some (c - 0x30)
      else if 0x41 \<le> c \<and> c \<le> 0x56 then Some (c - 0x37)
      else None)"

abbreviation b32_pad :: byte where "b32_pad \<equiv> 0x3d"

definition b32_group :: "byte \<Rightarrow> byte \<Rightarrow> byte \<Rightarrow> byte \<Rightarrow> byte \<Rightarrow> byte list" where
  "b32_group a b c d e =
     [drop_bit 3 a,
      (drop_bit 6 b AND 0x1f) OR (push_bit 2 a AND 0x1f),
      drop_bit 1 b AND 0x1f,
      (drop_bit 4 c AND 0x1f) OR (push_bit 4 b AND 0x1f),
      drop_bit 7 d OR (push_bit 1 c AND 0x1f),
      drop_bit 2 d AND 0x1f,
      drop_bit 5 e OR (push_bit 3 d AND 0x1f),
      e AND 0x1f]"

fun b32_EncodeToString :: "byte list \<Rightarrow> byte list" where
  "b32_EncodeToString [] = []"
| "b32_EncodeToString [a] = map b32_char (take 2 (b32_group a 0 0 0 0)) @ replicate 6 b32_pad"
| "b32_EncodeToString [a, b] = map b32_char (take 4 (b32_group a b 0 0 0)) @ replicate 4 b32_pad"
| "b32_EncodeToString [a, b, c] = map b32_char (take 5 (b32_group a b c 0 0)) @ replicate 3 b32_pad"
| "b32_EncodeToString [a, b, c, d] = map b32_char (take 7 (b32_group a b c d 0)) @ replicate 1 b32_pad"
| "b32_EncodeToString (a # b # c # d # e # s) = map b32_char (b32_group a b c d e) @ b32_EncodeToString s"

text \<open>A quantum of the decoder is eight values and what follows, fewer at valid padding, or an error.\<close>

datatype quantum = QFull "byte list" "byte list" | QLast "byte list" | QCorrupt

fun b32_quantum :: "byte list \<Rightarrow> byte list \<Rightarrow> quantum" where
  "b32_quantum dbuf src =
     (let j = length dbuf in
      if j \<ge> 8 then QFull dbuf src
      else case src of
        [] \<Rightarrow> QCorrupt
      | ch # src' \<Rightarrow>
          if ch = b32_pad \<and> j \<ge> 2 \<and> length src' < 8 then
            if length src' + j < 7 then QCorrupt
            else if \<exists>x \<in> set (take (7 - j) src'). x \<noteq> b32_pad then QCorrupt
            else if j \<in> {1, 3, 6} then QCorrupt
            else QLast dbuf
          else case b32_value ch of None \<Rightarrow> QCorrupt | Some v \<Rightarrow> b32_quantum (dbuf @ [v]) src')"

declare b32_quantum.simps [simp del]

definition b32_pack :: "byte list \<Rightarrow> byte list" where
  "b32_pack dbuf =
     (let g = (\<lambda>i. if i < length dbuf then dbuf ! i else 0);
          dst = [push_bit 3 (g 0) OR drop_bit 2 (g 1),
                 push_bit 6 (g 1) OR push_bit 1 (g 2) OR drop_bit 4 (g 3),
                 push_bit 4 (g 3) OR drop_bit 1 (g 4),
                 push_bit 7 (g 4) OR push_bit 2 (g 5) OR drop_bit 3 (g 6),
                 push_bit 5 (g 6) OR g 7]
      in take (length dbuf * 5 div 8) dst)"

lemma b32_quantum_shorter: "b32_quantum dbuf src = QFull ds rest \<Longrightarrow> length dbuf < 8 \<Longrightarrow> length rest < length src"
proof (induction dbuf src rule: b32_quantum.induct)
  case (1 dbuf src)
  show ?case
  proof (cases src)
    case (Cons ch src')
    then obtain v where v: "b32_quantum (dbuf @ [v]) src' = QFull ds rest"
      "\<not> (ch = b32_pad \<and> length dbuf \<ge> 2 \<and> length src' < 8)" "b32_value ch = Some v"
      using "1.prems" by (subst (asm) b32_quantum.simps) (auto simp: Let_def split: if_splits option.splits)
    show ?thesis
    proof (cases "length dbuf = 7")
      case True
      then show ?thesis using v(1) Cons by (simp add: b32_quantum.simps [of "dbuf @ [v]"])
    next
      case False
      then have "length rest < length src'"
        using "1.IH" [OF refl _ Cons v(2,3,1)] "1.prems"(2) by simp
      then show ?thesis using Cons by simp
    qed
  qed (use "1.prems" in \<open>auto simp: b32_quantum.simps [of dbuf] Let_def\<close>)
qed

function b32_decode :: "byte list \<Rightarrow> byte list \<times> bool" where
  "b32_decode src =
     (if src = [] then ([], True)
      else case b32_quantum [] src of
        QCorrupt \<Rightarrow> ([], False)
      | QLast dbuf \<Rightarrow> (b32_pack dbuf, True)
      | QFull dbuf src' \<Rightarrow> (let (ds, ok) = b32_decode src' in (b32_pack dbuf @ ds, ok)))"
  by pat_completeness auto
termination
  by (relation "measure length") (auto dest: b32_quantum_shorter)

declare b32_decode.simps [simp del]

definition b32_Decode :: "byte list \<Rightarrow> byte list \<times> bool" where
  "b32_Decode s = b32_decode (filter (\<lambda>c. c \<noteq> 0x0d \<and> c \<noteq> 0x0a) s)"


lemma b32_value_char: "v < 32 \<Longrightarrow> b32_value (b32_char v) = Some v \<and> b32_char v \<notin> {b32_pad, 0x0d, 0x0a}"
proof -
  have "list_all (\<lambda>v. b32_value (b32_char v) = Some v \<and> b32_char v \<notin> {b32_pad, 0x0d, 0x0a}) (map word_of_nat [0..<32])"
    by code_simp
  then show "v < 32 \<Longrightarrow> ?thesis" by (rule byte_below) (simp add: word_less_nat_alt)
qed

lemma b32_masks: "(0x1f :: byte) = mask 5" "(32 :: byte) = 2 ^ 5"
  by (simp_all add: mask_eq_exp_minus_1)

lemma byte_bit: "bit (a :: byte) n \<Longrightarrow> n < 8"
  using bit_imp_le_length [of a n] by simp

lemma b32_group_length [simp]: "length (b32_group a b c d e) = 8"
  by (simp add: b32_group_def)

lemma b32_group_less: "v \<in> set (b32_group a b c d e) \<Longrightarrow> v < 32"
proof -
  have no: "5 \<le> n \<Longrightarrow> \<not> bit x (k + n)" if "3 \<le> k" for x :: byte and k n
    using byte_bit [of x "k + n"] that by linarith
  have "\<not> bit v n" if "v \<in> set (b32_group a b c d e)" "5 \<le> n" for n
    using that no unfolding b32_group_def b32_masks
    by (auto simp: bit_simps simp del: push_bit_Suc)
  then have "take_bit 5 v = v" if "v \<in> set (b32_group a b c d e)"
    using that by (intro bit_word_eqI) (metis bit_take_bit_iff not_le)
  then have "take_bit 5 (unat v) = unat v" if "v \<in> set (b32_group a b c d e)"
    using that by (metis unsigned_take_bit_eq)
  then show "v \<in> set (b32_group a b c d e) \<Longrightarrow> v < 32"
    by (simp add: word_less_nat_alt take_bit_nat_eq_self_iff)
qed

lemma byte_eqI:
  assumes "bit a 0 = bit b 0" "bit a 1 = bit b 1" "bit a 2 = bit b 2" "bit a 3 = bit b 3"
    "bit a 4 = bit b 4" "bit a 5 = bit b 5" "bit a 6 = bit b 6" "bit a 7 = bit b 7"
  shows "a = (b :: byte)"
proof (rule bit_word_eqI)
  fix n assume "n < LENGTH(8)"
  then consider "n = 0" | "n = 1" | "n = 2" | "n = 3" | "n = 4" | "n = 5" | "n = 6" | "n = 7" by fastforce
  then show "bit a n = bit b n" using assms by cases simp_all
qed

lemma b32_bytes:
  fixes a b c d e :: byte
  shows "push_bit 3 (drop_bit 3 a) OR drop_bit 2 ((drop_bit 6 b AND mask 5) OR (push_bit 2 a AND mask 5)) = a"
    and "push_bit 6 ((drop_bit 6 b AND mask 5) OR (push_bit 2 a AND mask 5)) OR push_bit 1 (drop_bit 1 b AND mask 5)
           OR drop_bit 4 ((drop_bit 4 c AND mask 5) OR (push_bit 4 b AND mask 5)) = b"
    and "push_bit 4 ((drop_bit 4 c AND mask 5) OR (push_bit 4 b AND mask 5)) OR drop_bit 1 (drop_bit 7 d OR (push_bit 1 c AND mask 5)) = c"
    and "push_bit 7 (drop_bit 7 d OR (push_bit 1 c AND mask 5)) OR push_bit 2 (drop_bit 2 d AND mask 5)
           OR drop_bit 3 (drop_bit 5 e OR (push_bit 3 d AND mask 5)) = d"
    and "push_bit 5 (drop_bit 5 e OR (push_bit 3 d AND mask 5)) OR (e AND mask 5) = e"
proof -
  have no: "\<not> bit x 8" "\<not> bit x 9" "\<not> bit x 10" "\<not> bit x 11" "\<not> bit x 12" for x :: byte
    by (auto dest: byte_bit)
  note bs = bit_or_iff bit_and_iff bit_push_bit_iff bit_drop_bit_eq bit_mask_iff no
  show "push_bit 3 (drop_bit 3 a) OR drop_bit 2 ((drop_bit 6 b AND mask 5) OR (push_bit 2 a AND mask 5)) = a"
    by (rule byte_eqI; simp add: bs del: One_nat_def push_bit_Suc drop_bit_Suc; simp)
  show "push_bit 6 ((drop_bit 6 b AND mask 5) OR (push_bit 2 a AND mask 5)) OR push_bit 1 (drop_bit 1 b AND mask 5)
           OR drop_bit 4 ((drop_bit 4 c AND mask 5) OR (push_bit 4 b AND mask 5)) = b"
    by (rule byte_eqI; simp add: bs del: One_nat_def push_bit_Suc drop_bit_Suc; simp)
  show "push_bit 4 ((drop_bit 4 c AND mask 5) OR (push_bit 4 b AND mask 5)) OR drop_bit 1 (drop_bit 7 d OR (push_bit 1 c AND mask 5)) = c"
    by (rule byte_eqI; simp add: bs del: One_nat_def push_bit_Suc drop_bit_Suc; simp)
  show "push_bit 7 (drop_bit 7 d OR (push_bit 1 c AND mask 5)) OR push_bit 2 (drop_bit 2 d AND mask 5)
           OR drop_bit 3 (drop_bit 5 e OR (push_bit 3 d AND mask 5)) = d"
    by (rule byte_eqI; simp add: bs del: One_nat_def push_bit_Suc drop_bit_Suc; simp)
  show "push_bit 5 (drop_bit 5 e OR (push_bit 3 d AND mask 5)) OR (e AND mask 5) = e"
    by (rule byte_eqI; simp add: bs del: One_nat_def push_bit_Suc drop_bit_Suc; simp)
qed

lemma b32_pack_group:
  "b32_pack (b32_group a b c d e) = [a, b, c, d, e]"
  "b32_pack (take 7 (b32_group a b c d 0)) = [a, b, c, d]"
  "b32_pack (take 5 (b32_group a b c 0 0)) = [a, b, c]"
  "b32_pack (take 4 (b32_group a b 0 0 0)) = [a, b]"
  "b32_pack (take 2 (b32_group a 0 0 0 0)) = [a]"
  using b32_bytes [of a b] b32_bytes(2) [of b a c] b32_bytes(3) [of c b d] b32_bytes(4) [of d c e] b32_bytes(5) [of e d]
    b32_bytes(2) [of b a 0] b32_bytes(3) [of c b 0] b32_bytes(4) [of d c 0] b32_bytes(1) [of a 0]
  by (simp_all add: b32_pack_def b32_group_def b32_masks Let_def take_Cons' del: push_bit_Suc drop_bit_Suc One_nat_def)

lemma b32_quantum_chars:
  "\<forall>v \<in> set vs. v < 32 \<Longrightarrow> length dbuf + length vs \<le> 8 \<Longrightarrow>
   b32_quantum dbuf (map b32_char vs @ src) = b32_quantum (dbuf @ vs) src"
proof (induction vs arbitrary: dbuf)
  case (Cons v vs)
  then have "b32_quantum dbuf (map b32_char (v # vs) @ src) = b32_quantum (dbuf @ [v]) (map b32_char vs @ src)"
    using b32_value_char [of v] by (subst b32_quantum.simps) (simp add: Let_def)
  then show ?case using Cons by simp
qed simp

lemma b32_quantum_pad:
  assumes "length dbuf \<in> {2, 4, 5, 7}"
  shows "b32_quantum dbuf (replicate (8 - length dbuf) b32_pad) = QLast dbuf"
proof -
  have "replicate (8 - length dbuf) b32_pad = b32_pad # replicate (7 - length dbuf) b32_pad"
    using assms by (auto simp: numeral_eq_Suc)
  then show ?thesis using assms by (subst b32_quantum.simps) (auto simp: Let_def)
qed

lemma b32_last:
  assumes "k \<in> {2, 4, 5, 7}" "g = b32_group a b c d e"
  shows "b32_decode (map b32_char (take k g) @ replicate (8 - k) b32_pad) = (b32_pack (take k g), True)"
proof -
  have "length (take k g) = k" using assms by (auto simp: b32_group_def)
  moreover have "\<forall>v \<in> set (take k g). v < 32" using b32_group_less assms(2) by (meson in_set_takeD)
  ultimately show ?thesis
    using b32_quantum_chars [of "take k g" "[]"] b32_quantum_pad [of "take k g"] assms(1)
    by (subst b32_decode.simps) auto
qed

lemma b32_decode_Encode: "b32_decode (b32_EncodeToString bs) = (bs, True)"
proof (induction bs rule: b32_EncodeToString.induct)
  case 1
  then show ?case by (simp add: b32_decode.simps)
next
  case (6 a b c d e s)
  have "b32_quantum [] (map b32_char (b32_group a b c d e) @ b32_EncodeToString s)
      = QFull (b32_group a b c d e) (b32_EncodeToString s)"
    using b32_quantum_chars [of "b32_group a b c d e" "[]"] b32_group_less
    by (auto simp: b32_quantum.simps)
  moreover have "map b32_char (b32_group a b c d e) \<noteq> []" by (simp add: b32_group_def)
  ultimately show ?case using "6.IH" by (subst b32_decode.simps) (simp add: b32_pack_group)
qed (use b32_last [OF _ refl, of 2] b32_last [OF _ refl, of 4] b32_last [OF _ refl, of 5] b32_last [OF _ refl, of 7]
     in \<open>simp_all add: b32_pack_group\<close>)

lemma b32_Decode_Encode [simp]: "b32_Decode (b32_EncodeToString bs) = (bs, True)"
proof -
  have "c \<in> set (b32_EncodeToString bs) \<Longrightarrow> c \<noteq> 0x0d \<and> c \<noteq> 0x0a" for c
    by (induction bs rule: b32_EncodeToString.induct)
      (use b32_value_char b32_group_less in \<open>fastforce dest: in_set_takeD\<close>)+
  then have "filter (\<lambda>c. c \<noteq> 0x0d \<and> c \<noteq> 0x0a) (b32_EncodeToString bs) = b32_EncodeToString bs"
    by (intro filter_True) auto
  then show ?thesis by (simp add: b32_Decode_def b32_decode_Encode)
qed

section \<open>Base64\<close>

definition b64_value :: "byte \<Rightarrow> byte option" where
  "b64_value c =
     (if 0x41 \<le> c \<and> c \<le> 0x5a then Some (c - 0x41)
      else if 0x61 \<le> c \<and> c \<le> 0x7a then Some (c - 0x47)
      else if 0x30 \<le> c \<and> c \<le> 0x39 then Some (c + 4)
      else if c = 0x2b then Some 62
      else if c = 0x2f then Some 63
      else None)"

fun b64_decode :: "byte list \<Rightarrow> byte list option" where
  "b64_decode [] = Some []"
| "b64_decode (a # b # c # d # s) =
     (case (b64_value a, b64_value b, b64_value c, b64_value d) of
        (Some v0, Some v1, Some v2, Some v3) \<Rightarrow>
          map_option (\<lambda>ds. (push_bit 2 v0 OR drop_bit 4 v1) # (push_bit 4 v1 OR drop_bit 2 v2) #
                           (push_bit 6 v2 OR v3) # ds) (b64_decode s)
      | (Some v0, Some v1, Some v2, None) \<Rightarrow>
          if d = 0x3d \<and> s = [] then Some [push_bit 2 v0 OR drop_bit 4 v1, push_bit 4 v1 OR drop_bit 2 v2] else None
      | (Some v0, Some v1, None, _) \<Rightarrow>
          if c = 0x3d \<and> d = 0x3d \<and> s = [] then Some [push_bit 2 v0 OR drop_bit 4 v1] else None
      | _ \<Rightarrow> None)"
| "b64_decode _ = None"

definition b64_Decode :: "byte list \<Rightarrow> byte list option" where
  "b64_Decode s = b64_decode (filter (\<lambda>c. c \<noteq> 0x0d \<and> c \<noteq> 0x0a) s)"

end
