(* ===== verification/Rdata_Types.thy ===== *)
theory Rdata_Types
  imports Rdata Encodings
begin

unbundle bit_operations_syntax

text \<open>
  The record types of \<open>src/g53/rdata_*.go\<close>, one group per type: the struct, its decoder \<open>XFromWire\<close> and
  its methods \<open>Rend\<close>, \<open>ToWire\<close> and \<open>Compare\<close>. A struct with one field is that field. The argument of
  \<open>Compare\<close> is an \<open>Rdata\<close> that is asserted to have the receiver's type; the assertion is the
  dispatch of \<open>Rdata_Compare\<close>, and the methods take what it yields.
\<close>

type_synonym RRType = u16
type_synonym RRClass = u16
type_synonym RRTTL = u32

abbreviation RR_A :: RRType where "RR_A \<equiv> 1"
abbreviation RR_NS :: RRType where "RR_NS \<equiv> 2"
abbreviation RR_CNAME :: RRType where "RR_CNAME \<equiv> 5"
abbreviation RR_SOA :: RRType where "RR_SOA \<equiv> 6"
abbreviation RR_PTR :: RRType where "RR_PTR \<equiv> 12"
abbreviation RR_HINFO :: RRType where "RR_HINFO \<equiv> 13"
abbreviation RR_MX :: RRType where "RR_MX \<equiv> 15"
abbreviation RR_TXT :: RRType where "RR_TXT \<equiv> 16"
abbreviation RR_RP :: RRType where "RR_RP \<equiv> 17"
abbreviation RR_AAAA :: RRType where "RR_AAAA \<equiv> 28"
abbreviation RR_SRV :: RRType where "RR_SRV \<equiv> 33"
abbreviation RR_NAPTR :: RRType where "RR_NAPTR \<equiv> 35"
abbreviation RR_DNAME :: RRType where "RR_DNAME \<equiv> 39"
abbreviation RR_OPT :: RRType where "RR_OPT \<equiv> 41"
abbreviation RR_DS :: RRType where "RR_DS \<equiv> 43"
abbreviation RR_RRSIG :: RRType where "RR_RRSIG \<equiv> 46"
abbreviation RR_NSEC3 :: RRType where "RR_NSEC3 \<equiv> 50"
abbreviation RR_SPF :: RRType where "RR_SPF \<equiv> 99"
abbreviation RR_TSIG :: RRType where "RR_TSIG \<equiv> 250"

section \<open>Sequences of fields\<close>

fun rendFields :: "(RDFCodingType \<times> field) list \<Rightarrow> MsgRender \<Rightarrow> (g53_error, MsgRender) go" where
  "rendFields [] r = Ret r"
| "rendFields ((ct, d) # fs) r = gbind (rendField ct d r) (rendFields fs)"

fun fieldsToWire :: "(RDFCodingType \<times> field) list \<Rightarrow> OutputBuffer \<Rightarrow> (g53_error, OutputBuffer) go" where
  "fieldsToWire [] out = Ret out"
| "fieldsToWire ((ct, d) # fs) out = gbind (fieldToWire ct d out) (fieldsToWire fs)"

text \<open>The first non-zero order of a sequence of comparisons is returned.\<close>

fun fieldsCompare :: "(RDFCodingType \<times> field \<times> field) list \<Rightarrow> (g53_error, int) go" where
  "fieldsCompare [] = Ret 0"
| "fieldsCompare ((ct, d1, d2) # fs) =
     gbind (fieldCompare ct d1 d2) (\<lambda>order. if order \<noteq> 0 then Ret order else fieldsCompare fs)"

section \<open>Addresses\<close>

definition AFromWire :: "InputBuffer \<Rightarrow> u16 \<Rightarrow> (g53_error, byte list \<times> InputBuffer) go" where
  "AFromWire buf ll =
     gbind (fieldFromWire RDF_C_IPV4 buf ll) (\<lambda>(f, ll, buf).
     if ll \<noteq> 0 then Err ExtraData else Ret (as_ip f, buf))"

definition A_Rend :: "byte list \<Rightarrow> MsgRender \<Rightarrow> (g53_error, MsgRender) go" where
  "A_Rend ip r = rendField RDF_C_IPV4 (FIP ip) r"

definition A_ToWire :: "byte list \<Rightarrow> OutputBuffer \<Rightarrow> (g53_error, OutputBuffer) go" where
  "A_ToWire ip out = fieldToWire RDF_C_IPV4 (FIP ip) out"

definition A_Compare :: "byte list \<Rightarrow> byte list \<Rightarrow> (g53_error, int) go" where
  "A_Compare ip other = fieldCompare RDF_C_IPV4 (FIP ip) (FIP other)"

text \<open>\<open>To16\<close> of a 16-byte address is the address.\<close>

definition AAAAFromWire :: "InputBuffer \<Rightarrow> u16 \<Rightarrow> (g53_error, byte list \<times> InputBuffer) go" where
  "AAAAFromWire buf ll =
     gbind (fieldFromWire RDF_C_IPV6 buf ll) (\<lambda>(f, ll, buf).
     if ll \<noteq> 0 then Err ExtraData else Ret (as_ip f, buf))"

definition AAAA_Rend :: "byte list \<Rightarrow> MsgRender \<Rightarrow> (g53_error, MsgRender) go" where
  "AAAA_Rend ip r = rendField RDF_C_IPV6 (FIP ip) r"

definition AAAA_ToWire :: "byte list \<Rightarrow> OutputBuffer \<Rightarrow> (g53_error, OutputBuffer) go" where
  "AAAA_ToWire ip out = fieldToWire RDF_C_IPV6 (FIP ip) out"

definition AAAA_Compare :: "byte list \<Rightarrow> byte list \<Rightarrow> (g53_error, int) go" where
  "AAAA_Compare ip other = fieldCompare RDF_C_IPV6 (FIP ip) (FIP other)"

section \<open>Types that hold one name\<close>

definition CNameFromWire :: "InputBuffer \<Rightarrow> u16 \<Rightarrow> (g53_error, Name \<times> InputBuffer) go" where
  "CNameFromWire buf ll =
     gbind (fieldFromWire RDF_C_NAME buf ll) (\<lambda>(n, ll, buf).
     if ll \<noteq> 0 then Err ExtraData else gbind (as_name n) (\<lambda>name. Ret (name, buf)))"

definition CName_Rend :: "Name \<Rightarrow> MsgRender \<Rightarrow> (g53_error, MsgRender) go" where
  "CName_Rend n r = rendField RDF_C_NAME (FName n) r"

definition CName_ToWire :: "Name \<Rightarrow> OutputBuffer \<Rightarrow> (g53_error, OutputBuffer) go" where
  "CName_ToWire n out = fieldToWire RDF_C_NAME (FName n) out"

definition CName_Compare :: "Name \<Rightarrow> (g53_error, int) go" where
  "CName_Compare n = Ret 0"

definition NSFromWire :: "InputBuffer \<Rightarrow> u16 \<Rightarrow> (g53_error, Name \<times> InputBuffer) go" where
  "NSFromWire buf ll =
     gbind (fieldFromWire RDF_C_NAME buf ll) (\<lambda>(n, ll, buf).
     if ll \<noteq> 0 then Err ExtraData else gbind (as_name n) (\<lambda>name. Ret (name, buf)))"

definition NS_Rend :: "Name \<Rightarrow> MsgRender \<Rightarrow> (g53_error, MsgRender) go" where
  "NS_Rend n r = rendField RDF_C_NAME (FName n) r"

definition NS_ToWire :: "Name \<Rightarrow> OutputBuffer \<Rightarrow> (g53_error, OutputBuffer) go" where
  "NS_ToWire n out = fieldToWire RDF_C_NAME (FName n) out"

definition NS_Compare :: "Name \<Rightarrow> Name \<Rightarrow> (g53_error, int) go" where
  "NS_Compare n other = fieldCompare RDF_C_NAME (FName n) (FName other)"

definition PTRFromWire :: "InputBuffer \<Rightarrow> u16 \<Rightarrow> (g53_error, Name \<times> InputBuffer) go" where
  "PTRFromWire buf ll =
     gbind (fieldFromWire RDF_C_NAME buf ll) (\<lambda>(n, ll, buf).
     if ll \<noteq> 0 then Err ExtraData else gbind (as_name n) (\<lambda>name. Ret (name, buf)))"

definition PTR_Rend :: "Name \<Rightarrow> MsgRender \<Rightarrow> (g53_error, MsgRender) go" where
  "PTR_Rend n r = rendField RDF_C_NAME (FName n) r"

definition PTR_ToWire :: "Name \<Rightarrow> OutputBuffer \<Rightarrow> (g53_error, OutputBuffer) go" where
  "PTR_ToWire n out = fieldToWire RDF_C_NAME (FName n) out"

definition PTR_Compare :: "Name \<Rightarrow> Name \<Rightarrow> (g53_error, int) go" where
  "PTR_Compare n other = fieldCompare RDF_C_NAME (FName n) (FName other)"

definition DNameFromWire :: "InputBuffer \<Rightarrow> u16 \<Rightarrow> (g53_error, Name \<times> InputBuffer) go" where
  "DNameFromWire buf ll =
     gbind (fieldFromWire RDF_C_NAME buf ll) (\<lambda>(n, ll, buf).
     if ll \<noteq> 0 then Err ExtraData else gbind (as_name n) (\<lambda>name. Ret (name, buf)))"

definition DName_Rend :: "Name \<Rightarrow> MsgRender \<Rightarrow> (g53_error, MsgRender) go" where
  "DName_Rend n r = rendField RDF_C_NAME (FName n) r"

definition DName_ToWire :: "Name \<Rightarrow> OutputBuffer \<Rightarrow> (g53_error, OutputBuffer) go" where
  "DName_ToWire n out = fieldToWire RDF_C_NAME (FName n) out"

definition DName_Compare :: "Name \<Rightarrow> Name \<Rightarrow> (g53_error, int) go" where
  "DName_Compare n other = fieldCompare RDF_C_NAME (FName n) (FName other)"

section \<open>SOA, MX and SRV\<close>

record SOA =
  soa_MName :: Name
  soa_RName :: Name
  soa_Serial :: u32
  soa_Refresh :: u32
  soa_Retry :: u32
  soa_Expire :: u32
  soa_Minimum :: u32

definition SOAFromWire :: "InputBuffer \<Rightarrow> u16 \<Rightarrow> (g53_error, SOA \<times> InputBuffer) go" where
  "SOAFromWire buf ll =
     gbind (fieldFromWire RDF_C_NAME buf ll) (\<lambda>(mname, ll, buf).
     gbind (fieldFromWire RDF_C_NAME buf ll) (\<lambda>(rname, ll, buf).
     gbind (fieldFromWire RDF_C_UINT32 buf ll) (\<lambda>(serial, ll, buf).
     gbind (fieldFromWire RDF_C_UINT32 buf ll) (\<lambda>(refresh, ll, buf).
     gbind (fieldFromWire RDF_C_UINT32 buf ll) (\<lambda>(retry, ll, buf).
     gbind (fieldFromWire RDF_C_UINT32 buf ll) (\<lambda>(expire, ll, buf).
     gbind (fieldFromWire RDF_C_UINT32 buf ll) (\<lambda>(minimum, ll, buf).
     if ll \<noteq> 0 then Err ExtraData
     else gbind (as_name mname) (\<lambda>mname. gbind (as_name rname) (\<lambda>rname.
       Ret (\<lparr>soa_MName = mname, soa_RName = rname, soa_Serial = as_uint32 serial,
              soa_Refresh = as_uint32 refresh, soa_Retry = as_uint32 retry,
              soa_Expire = as_uint32 expire, soa_Minimum = as_uint32 minimum\<rparr>, buf))))))))))"

definition SOA_Rend :: "SOA \<Rightarrow> MsgRender \<Rightarrow> (g53_error, MsgRender) go" where
  "SOA_Rend soa r = rendFields
     [(RDF_C_NAME, FName (soa_MName soa)), (RDF_C_NAME, FName (soa_RName soa)),
      (RDF_C_UINT32, FUint32 (soa_Serial soa)), (RDF_C_UINT32, FUint32 (soa_Refresh soa)),
      (RDF_C_UINT32, FUint32 (soa_Retry soa)), (RDF_C_UINT32, FUint32 (soa_Expire soa)),
      (RDF_C_UINT32, FUint32 (soa_Minimum soa))] r"

definition SOA_ToWire :: "SOA \<Rightarrow> OutputBuffer \<Rightarrow> (g53_error, OutputBuffer) go" where
  "SOA_ToWire soa out = fieldsToWire
     [(RDF_C_NAME, FName (soa_MName soa)), (RDF_C_NAME, FName (soa_RName soa)),
      (RDF_C_UINT32, FUint32 (soa_Serial soa)), (RDF_C_UINT32, FUint32 (soa_Refresh soa)),
      (RDF_C_UINT32, FUint32 (soa_Retry soa)), (RDF_C_UINT32, FUint32 (soa_Expire soa)),
      (RDF_C_UINT32, FUint32 (soa_Minimum soa))] out"

definition SOA_Compare :: "SOA \<Rightarrow> (g53_error, int) go" where
  "SOA_Compare soa = Ret 0"

text \<open>Serial number arithmetic (RFC 1982); \<open>year68\<close> is half of the number space.\<close>

definition CompareSerial :: "u32 \<Rightarrow> u32 \<Rightarrow> int" where
  "CompareSerial serial1 serial2 =
     (if serial1 = serial2 then 0
      else if serial1 < serial2 then if serial2 - serial1 < 2 ^ 31 then -1 else 1
      else if serial1 - serial2 < 2 ^ 31 then 1 else -1)"

record MX =
  mx_Preference :: u16
  mx_Exchange :: Name

definition MXFromWire :: "InputBuffer \<Rightarrow> u16 \<Rightarrow> (g53_error, MX \<times> InputBuffer) go" where
  "MXFromWire buf ll =
     gbind (fieldFromWire RDF_C_UINT16 buf ll) (\<lambda>(preference, ll, buf).
     gbind (fieldFromWire RDF_C_NAME buf ll) (\<lambda>(exchange, ll, buf).
     if ll \<noteq> 0 then Err ExtraData
     else gbind (as_name exchange) (\<lambda>exchange.
       Ret (\<lparr>mx_Preference = as_uint16 preference, mx_Exchange = exchange\<rparr>, buf))))"

definition MX_Rend :: "MX \<Rightarrow> MsgRender \<Rightarrow> (g53_error, MsgRender) go" where
  "MX_Rend mx r = rendFields
     [(RDF_C_UINT16, FUint16 (mx_Preference mx)), (RDF_C_NAME, FName (mx_Exchange mx))] r"

definition MX_ToWire :: "MX \<Rightarrow> OutputBuffer \<Rightarrow> (g53_error, OutputBuffer) go" where
  "MX_ToWire mx out = fieldsToWire
     [(RDF_C_UINT16, FUint16 (mx_Preference mx)), (RDF_C_NAME, FName (mx_Exchange mx))] out"

definition MX_Compare :: "MX \<Rightarrow> MX \<Rightarrow> (g53_error, int) go" where
  "MX_Compare mx other = fieldsCompare
     [(RDF_C_UINT16, FUint16 (mx_Preference mx), FUint16 (mx_Preference other)),
      (RDF_C_NAME, FName (mx_Exchange mx), FName (mx_Exchange other))]"

record SRV =
  srv_Priority :: u16
  srv_Weight :: u16
  srv_Port :: u16
  srv_Target :: Name

definition SRVFromWire :: "InputBuffer \<Rightarrow> u16 \<Rightarrow> (g53_error, SRV \<times> InputBuffer) go" where
  "SRVFromWire buf ll =
     gbind (fieldFromWire RDF_C_UINT16 buf ll) (\<lambda>(p, ll, buf).
     gbind (fieldFromWire RDF_C_UINT16 buf ll) (\<lambda>(w, ll, buf).
     gbind (fieldFromWire RDF_C_UINT16 buf ll) (\<lambda>(port, ll, buf).
     gbind (fieldFromWire RDF_C_NAME buf ll) (\<lambda>(t, ll, buf).
     if ll \<noteq> 0 then Err ExtraData
     else gbind (as_name t) (\<lambda>t.
       Ret (\<lparr>srv_Priority = as_uint16 p, srv_Weight = as_uint16 w, srv_Port = as_uint16 port,
              srv_Target = t\<rparr>, buf))))))"

definition SRV_Rend :: "SRV \<Rightarrow> MsgRender \<Rightarrow> (g53_error, MsgRender) go" where
  "SRV_Rend srv r = rendFields
     [(RDF_C_UINT16, FUint16 (srv_Priority srv)), (RDF_C_UINT16, FUint16 (srv_Weight srv)),
      (RDF_C_UINT16, FUint16 (srv_Port srv)), (RDF_C_NAME_UNCOMPRESS, FName (srv_Target srv))] r"

definition SRV_ToWire :: "SRV \<Rightarrow> OutputBuffer \<Rightarrow> (g53_error, OutputBuffer) go" where
  "SRV_ToWire srv out = fieldsToWire
     [(RDF_C_UINT16, FUint16 (srv_Priority srv)), (RDF_C_UINT16, FUint16 (srv_Weight srv)),
      (RDF_C_UINT16, FUint16 (srv_Port srv)), (RDF_C_NAME, FName (srv_Target srv))] out"

definition SRV_Compare :: "SRV \<Rightarrow> SRV \<Rightarrow> (g53_error, int) go" where
  "SRV_Compare srv other = fieldsCompare
     [(RDF_C_UINT16, FUint16 (srv_Priority srv), FUint16 (srv_Priority other)),
      (RDF_C_UINT16, FUint16 (srv_Weight srv), FUint16 (srv_Weight other)),
      (RDF_C_UINT16, FUint16 (srv_Port srv), FUint16 (srv_Port other)),
      (RDF_C_NAME, FName (srv_Target srv), FName (srv_Target other))]"

section \<open>Character strings: TXT, SPF, RP, HINFO, NAPTR\<close>

definition TxtFromWire :: "InputBuffer \<Rightarrow> u16 \<Rightarrow> (g53_error, byte list list \<times> InputBuffer) go" where
  "TxtFromWire buf ll =
     gbind (fieldFromWire RDF_C_TXT buf ll) (\<lambda>(f, ll, buf).
     if ll \<noteq> 0 then Err ExtraData else Ret (as_strings f, buf))"

definition Txt_Rend :: "byte list list \<Rightarrow> MsgRender \<Rightarrow> (g53_error, MsgRender) go" where
  "Txt_Rend d r = rendField RDF_C_TXT (FStrings d) r"

definition Txt_ToWire :: "byte list list \<Rightarrow> OutputBuffer \<Rightarrow> (g53_error, OutputBuffer) go" where
  "Txt_ToWire d out = fieldToWire RDF_C_TXT (FStrings d) out"

definition Txt_Compare :: "byte list list \<Rightarrow> byte list list \<Rightarrow> (g53_error, int) go" where
  "Txt_Compare d other = fieldCompare RDF_C_TXT (FStrings d) (FStrings other)"

definition SPFFromWire :: "InputBuffer \<Rightarrow> u16 \<Rightarrow> (g53_error, byte list list \<times> InputBuffer) go" where
  "SPFFromWire buf ll =
     gbind (fieldFromWire RDF_C_TXT buf ll) (\<lambda>(f, ll, buf).
     if ll \<noteq> 0 then Err ExtraData else Ret (as_strings f, buf))"

definition SPF_Rend :: "byte list list \<Rightarrow> MsgRender \<Rightarrow> (g53_error, MsgRender) go" where
  "SPF_Rend d r = rendField RDF_C_TXT (FStrings d) r"

definition SPF_ToWire :: "byte list list \<Rightarrow> OutputBuffer \<Rightarrow> (g53_error, OutputBuffer) go" where
  "SPF_ToWire d out = fieldToWire RDF_C_TXT (FStrings d) out"

definition SPF_Compare :: "byte list list \<Rightarrow> byte list list \<Rightarrow> (g53_error, int) go" where
  "SPF_Compare d other = fieldCompare RDF_C_TXT (FStrings d) (FStrings other)"

record RP =
  rp_Mbox :: Name
  rp_Txt :: Name

definition RPFromWire :: "InputBuffer \<Rightarrow> u16 \<Rightarrow> (g53_error, RP \<times> InputBuffer) go" where
  "RPFromWire buf ll =
     gbind (fieldFromWire RDF_C_NAME buf ll) (\<lambda>(mbox, ll, buf).
     gbind (fieldFromWire RDF_C_NAME buf ll) (\<lambda>(txt, ll, buf).
     if ll \<noteq> 0 then Err ExtraData
     else gbind (as_name mbox) (\<lambda>mbox. gbind (as_name txt) (\<lambda>txt.
       Ret (\<lparr>rp_Mbox = mbox, rp_Txt = txt\<rparr>, buf)))))"

definition RP_Rend :: "RP \<Rightarrow> MsgRender \<Rightarrow> (g53_error, MsgRender) go" where
  "RP_Rend rp r = rendFields
     [(RDF_C_NAME, FName (rp_Mbox rp)), (RDF_C_NAME, FName (rp_Txt rp))] r"

definition RP_ToWire :: "RP \<Rightarrow> OutputBuffer \<Rightarrow> (g53_error, OutputBuffer) go" where
  "RP_ToWire rp out = fieldsToWire
     [(RDF_C_NAME, FName (rp_Mbox rp)), (RDF_C_NAME, FName (rp_Txt rp))] out"

definition RP_Compare :: "RP \<Rightarrow> RP \<Rightarrow> (g53_error, int) go" where
  "RP_Compare rp other = fieldsCompare
     [(RDF_C_NAME, FName (rp_Mbox rp), FName (rp_Mbox other)),
      (RDF_C_NAME, FName (rp_Txt rp), FName (rp_Txt other))]"

record HINFO =
  hinfo_CPU :: "byte list"
  hinfo_OS :: "byte list"

definition HINFOFromWire :: "InputBuffer \<Rightarrow> u16 \<Rightarrow> (g53_error, HINFO \<times> InputBuffer) go" where
  "HINFOFromWire buf ll =
     gbind (fieldFromWire RDF_C_BYTE_BINARY buf ll) (\<lambda>(c, ll, buf).
     gbind (fieldFromWire RDF_C_BYTE_BINARY buf ll) (\<lambda>(os, ll, buf).
     if ll \<noteq> 0 then Err ExtraData
     else Ret (\<lparr>hinfo_CPU = as_bytes c, hinfo_OS = as_bytes os\<rparr>, buf)))"

definition HINFO_Rend :: "HINFO \<Rightarrow> MsgRender \<Rightarrow> (g53_error, MsgRender) go" where
  "HINFO_Rend h r = rendFields
     [(RDF_C_BYTE_BINARY, FBytes (hinfo_CPU h)), (RDF_C_BYTE_BINARY, FBytes (hinfo_OS h))] r"

definition HINFO_ToWire :: "HINFO \<Rightarrow> OutputBuffer \<Rightarrow> (g53_error, OutputBuffer) go" where
  "HINFO_ToWire h out = fieldsToWire
     [(RDF_C_BYTE_BINARY, FBytes (hinfo_CPU h)), (RDF_C_BYTE_BINARY, FBytes (hinfo_OS h))] out"

definition HINFO_Compare :: "HINFO \<Rightarrow> HINFO \<Rightarrow> (g53_error, int) go" where
  "HINFO_Compare h other = fieldsCompare
     [(RDF_C_BYTE_BINARY, FBytes (hinfo_CPU h), FBytes (hinfo_CPU other)),
      (RDF_C_BYTE_BINARY, FBytes (hinfo_OS h), FBytes (hinfo_OS other))]"

record NAPTR =
  naptr_Order :: u16
  naptr_Preference :: u16
  naptr_Flags :: "byte list"
  naptr_Services :: "byte list"
  naptr_Regexp :: "byte list"
  naptr_Replacement :: Name

definition NAPTRFromWire :: "InputBuffer \<Rightarrow> u16 \<Rightarrow> (g53_error, NAPTR \<times> InputBuffer) go" where
  "NAPTRFromWire buf ll =
     gbind (fieldFromWire RDF_C_UINT16 buf ll) (\<lambda>(ord, ll, buf).
     gbind (fieldFromWire RDF_C_UINT16 buf ll) (\<lambda>(p, ll, buf).
     gbind (fieldFromWire RDF_C_BYTE_BINARY buf ll) (\<lambda>(f, ll, buf).
     gbind (fieldFromWire RDF_C_BYTE_BINARY buf ll) (\<lambda>(s, ll, buf).
     gbind (fieldFromWire RDF_C_BYTE_BINARY buf ll) (\<lambda>(r, ll, buf).
     gbind (fieldFromWire RDF_C_NAME buf ll) (\<lambda>(n, ll, buf).
     if ll \<noteq> 0 then Err ExtraData
     else gbind (as_name n) (\<lambda>n.
       Ret (\<lparr>naptr_Order = as_uint16 ord, naptr_Preference = as_uint16 p, naptr_Flags = as_bytes f,
              naptr_Services = as_bytes s, naptr_Regexp = as_bytes r, naptr_Replacement = n\<rparr>, buf))))))))"

definition NAPTR_Rend :: "NAPTR \<Rightarrow> MsgRender \<Rightarrow> (g53_error, MsgRender) go" where
  "NAPTR_Rend naptr r = rendFields
     [(RDF_C_UINT16, FUint16 (naptr_Order naptr)), (RDF_C_UINT16, FUint16 (naptr_Preference naptr)),
      (RDF_C_BYTE_BINARY, FBytes (naptr_Flags naptr)), (RDF_C_BYTE_BINARY, FBytes (naptr_Services naptr)),
      (RDF_C_BYTE_BINARY, FBytes (naptr_Regexp naptr)), (RDF_C_NAME, FName (naptr_Replacement naptr))] r"

definition NAPTR_ToWire :: "NAPTR \<Rightarrow> OutputBuffer \<Rightarrow> (g53_error, OutputBuffer) go" where
  "NAPTR_ToWire naptr out = fieldsToWire
     [(RDF_C_UINT16, FUint16 (naptr_Order naptr)), (RDF_C_UINT16, FUint16 (naptr_Preference naptr)),
      (RDF_C_BYTE_BINARY, FBytes (naptr_Flags naptr)), (RDF_C_BYTE_BINARY, FBytes (naptr_Services naptr)),
      (RDF_C_BYTE_BINARY, FBytes (naptr_Regexp naptr)), (RDF_C_NAME, FName (naptr_Replacement naptr))] out"

definition NAPTR_Compare :: "NAPTR \<Rightarrow> NAPTR \<Rightarrow> (g53_error, int) go" where
  "NAPTR_Compare naptr other = fieldsCompare
     [(RDF_C_UINT16, FUint16 (naptr_Order naptr), FUint16 (naptr_Order other)),
      (RDF_C_UINT16, FUint16 (naptr_Preference naptr), FUint16 (naptr_Preference other)),
      (RDF_C_BYTE_BINARY, FBytes (naptr_Flags naptr), FBytes (naptr_Flags other)),
      (RDF_C_BYTE_BINARY, FBytes (naptr_Services naptr), FBytes (naptr_Services other)),
      (RDF_C_BYTE_BINARY, FBytes (naptr_Regexp naptr), FBytes (naptr_Regexp other)),
      (RDF_C_NAME, FName (naptr_Replacement naptr), FName (naptr_Replacement other))]"

section \<open>DS, OPT and RRSIG\<close>

text \<open>The digest is kept as hexadecimal text; the error of \<open>hex.DecodeString\<close> is dropped.\<close>

definition encodeStringToHex :: "byte list \<Rightarrow> byte list" where
  "encodeStringToHex s = fst (hex_DecodeString s)"

record DS =
  ds_KeyTag :: u16
  ds_Algorithm :: byte
  ds_DigestType :: byte
  ds_Digest :: "byte list"

definition DSFromWire :: "InputBuffer \<Rightarrow> u16 \<Rightarrow> (g53_error, DS \<times> InputBuffer) go" where
  "DSFromWire buf ll =
     gbind (fieldFromWire RDF_C_UINT16 buf ll) (\<lambda>(keyTag, ll, buf).
     gbind (fieldFromWire RDF_C_UINT8 buf ll) (\<lambda>(algorithm, ll, buf).
     gbind (fieldFromWire RDF_C_UINT8 buf ll) (\<lambda>(typ, ll, buf).
     gbind (fieldFromWire RDF_C_BINARY buf ll) (\<lambda>(digest, ll, buf).
     if ll \<noteq> 0 then Err ExtraData
     else Ret (\<lparr>ds_KeyTag = as_uint16 keyTag, ds_Algorithm = as_uint8 algorithm,
                 ds_DigestType = as_uint8 typ, ds_Digest = hex_EncodeToString (as_bytes digest)\<rparr>, buf)))))"

definition DS_Rend :: "DS \<Rightarrow> MsgRender \<Rightarrow> (g53_error, MsgRender) go" where
  "DS_Rend ds r = rendFields
     [(RDF_C_UINT16, FUint16 (ds_KeyTag ds)), (RDF_C_UINT8, FUint8 (ds_Algorithm ds)),
      (RDF_C_UINT8, FUint8 (ds_DigestType ds)), (RDF_C_BINARY, FBytes (encodeStringToHex (ds_Digest ds)))] r"

definition DS_ToWire :: "DS \<Rightarrow> OutputBuffer \<Rightarrow> (g53_error, OutputBuffer) go" where
  "DS_ToWire ds out = fieldsToWire
     [(RDF_C_UINT16, FUint16 (ds_KeyTag ds)), (RDF_C_UINT8, FUint8 (ds_Algorithm ds)),
      (RDF_C_UINT8, FUint8 (ds_DigestType ds)), (RDF_C_BINARY, FBytes (encodeStringToHex (ds_Digest ds)))] out"

definition DS_Compare :: "DS \<Rightarrow> DS \<Rightarrow> (g53_error, int) go" where
  "DS_Compare ds other = fieldsCompare
     [(RDF_C_UINT16, FUint16 (ds_KeyTag ds), FUint16 (ds_KeyTag other)),
      (RDF_C_UINT8, FUint8 (ds_Algorithm ds), FUint8 (ds_Algorithm other)),
      (RDF_C_UINT8, FUint8 (ds_DigestType ds), FUint8 (ds_DigestType other)),
      (RDF_C_BYTE_BINARY, FBytes (ds_Digest ds), FBytes (ds_Digest other))]"

definition OPTFromWire :: "InputBuffer \<Rightarrow> u16 \<Rightarrow> (g53_error, byte list \<times> InputBuffer) go" where
  "OPTFromWire buf ll =
     gbind (fieldFromWire RDF_C_BINARY buf ll) (\<lambda>(f, ll, buf).
     if ll \<noteq> 0 then Err ExtraData else Ret (as_bytes f, buf))"

definition OPT_Rend :: "byte list \<Rightarrow> MsgRender \<Rightarrow> (g53_error, MsgRender) go" where
  "OPT_Rend d r = rendField RDF_C_BINARY (FBytes d) r"

definition OPT_ToWire :: "byte list \<Rightarrow> OutputBuffer \<Rightarrow> (g53_error, OutputBuffer) go" where
  "OPT_ToWire d out = fieldToWire RDF_C_BINARY (FBytes d) out"

definition OPT_Compare :: "byte list \<Rightarrow> byte list \<Rightarrow> (g53_error, int) go" where
  "OPT_Compare d other = fieldCompare RDF_C_BINARY (FBytes d) (FBytes other)"

record RRSig =
  sig_Covered :: RRType
  sig_Algorithm :: byte
  sig_Labels :: byte
  sig_OriginalTtl :: u32
  sig_SigExpire :: u32
  sig_Inception :: u32
  sig_Tag :: u16
  sig_Signer :: Name
  sig_Signature :: "byte list"

definition RRSigFromWire :: "InputBuffer \<Rightarrow> u16 \<Rightarrow> (g53_error, RRSig \<times> InputBuffer) go" where
  "RRSigFromWire buf ll =
     gbind (fieldFromWire RDF_C_UINT16 buf ll) (\<lambda>(covered, ll, buf).
     gbind (fieldFromWire RDF_C_UINT8 buf ll) (\<lambda>(algorithm, ll, buf).
     gbind (fieldFromWire RDF_C_UINT8 buf ll) (\<lambda>(labels, ll, buf).
     gbind (fieldFromWire RDF_C_UINT32 buf ll) (\<lambda>(originalTtl, ll, buf).
     gbind (fieldFromWire RDF_C_UINT32 buf ll) (\<lambda>(sigExpire, ll, buf).
     gbind (fieldFromWire RDF_C_UINT32 buf ll) (\<lambda>(inception, ll, buf).
     gbind (fieldFromWire RDF_C_UINT16 buf ll) (\<lambda>(tag, ll, buf).
     gbind (fieldFromWire RDF_C_NAME buf ll) (\<lambda>(signer, ll, buf).
     gbind (fieldFromWire RDF_C_BINARY buf ll) (\<lambda>(signature, ll, buf).
     if ll \<noteq> 0 then Err ExtraData
     else gbind (as_name signer) (\<lambda>signer.
       Ret (\<lparr>sig_Covered = as_uint16 covered, sig_Algorithm = as_uint8 algorithm,
              sig_Labels = as_uint8 labels, sig_OriginalTtl = as_uint32 originalTtl,
              sig_SigExpire = as_uint32 sigExpire, sig_Inception = as_uint32 inception,
              sig_Tag = as_uint16 tag, sig_Signer = signer, sig_Signature = as_bytes signature\<rparr>, buf)))))))))))"

definition RRSig_Rend :: "RRSig \<Rightarrow> MsgRender \<Rightarrow> (g53_error, MsgRender) go" where
  "RRSig_Rend s r = rendFields
     [(RDF_C_UINT16, FUint16 (sig_Covered s)), (RDF_C_UINT8, FUint8 (sig_Algorithm s)),
      (RDF_C_UINT8, FUint8 (sig_Labels s)), (RDF_C_UINT32, FUint32 (sig_OriginalTtl s)),
      (RDF_C_UINT32, FUint32 (sig_SigExpire s)), (RDF_C_UINT32, FUint32 (sig_Inception s)),
      (RDF_C_UINT16, FUint16 (sig_Tag s)), (RDF_C_NAME, FName (sig_Signer s)),
      (RDF_C_BINARY, FBytes (sig_Signature s))] r"

definition RRSig_ToWire :: "RRSig \<Rightarrow> OutputBuffer \<Rightarrow> (g53_error, OutputBuffer) go" where
  "RRSig_ToWire s out = fieldsToWire
     [(RDF_C_UINT16, FUint16 (sig_Covered s)), (RDF_C_UINT8, FUint8 (sig_Algorithm s)),
      (RDF_C_UINT8, FUint8 (sig_Labels s)), (RDF_C_UINT32, FUint32 (sig_OriginalTtl s)),
      (RDF_C_UINT32, FUint32 (sig_SigExpire s)), (RDF_C_UINT32, FUint32 (sig_Inception s)),
      (RDF_C_UINT16, FUint16 (sig_Tag s)), (RDF_C_NAME, FName (sig_Signer s)),
      (RDF_C_BINARY, FBytes (sig_Signature s))] out"

definition RRSig_Compare :: "RRSig \<Rightarrow> RRSig \<Rightarrow> (g53_error, int) go" where
  "RRSig_Compare s other = fieldsCompare
     [(RDF_C_UINT16, FUint16 (sig_Covered s), FUint16 (sig_Covered other)),
      (RDF_C_UINT8, FUint8 (sig_Algorithm s), FUint8 (sig_Algorithm other)),
      (RDF_C_UINT8, FUint8 (sig_Labels s), FUint8 (sig_Labels other)),
      (RDF_C_UINT32, FUint32 (sig_OriginalTtl s), FUint32 (sig_OriginalTtl other)),
      (RDF_C_UINT32, FUint32 (sig_SigExpire s), FUint32 (sig_SigExpire other)),
      (RDF_C_UINT32, FUint32 (sig_Inception s), FUint32 (sig_Inception other)),
      (RDF_C_UINT16, FUint16 (sig_Tag s), FUint16 (sig_Tag other)),
      (RDF_C_NAME, FName (sig_Signer s), FName (sig_Signer other)),
      (RDF_C_BINARY, FBytes (sig_Signature s), FBytes (sig_Signature other))]"

section \<open>NSEC3\<close>

record NSEC3 =
  nsec3_Algorithm :: byte
  nsec3_Flags :: byte
  nsec3_Iterations :: u16
  nsec3_SaltLength :: byte
  nsec3_Salt :: "byte list"
  nsec3_HashLength :: byte
  nsec3_NextHash :: "byte list"
  nsec3_Types :: "RRType list"

text \<open>The type bitmap of NSEC3: windows of up to 32 bytes, most significant bit first.\<close>

definition nsec3_byte_types :: "nat \<Rightarrow> byte \<Rightarrow> RRType list" where
  "nsec3_byte_types base b =
     map (\<lambda>i. word_of_nat (base + 7 - i)) (filter (\<lambda>i. drop_bit i b AND 1 \<noteq> 0) (rev [0..<8]))"

fun nsec3_window_types :: "nat \<Rightarrow> byte list \<Rightarrow> RRType list" where
  "nsec3_window_types base [] = []"
| "nsec3_window_types base (b # bs) = nsec3_byte_types base b @ nsec3_window_types (base + 8) bs"

function decodeNSEC3Types_loop :: "byte list \<Rightarrow> nat \<Rightarrow> int \<Rightarrow> RRType list \<Rightarrow> (g53_error, RRType list) go" where
  "decodeNSEC3Types_loop msg offset lastwindow types =
     (if offset < length msg then
        if offset + 2 > length msg then Err Nsec3TypesInvalid
        else
          gbind (idx msg offset) (\<lambda>window.
          gbind (idx msg (offset + 1)) (\<lambda>len.
          if uint window \<le> lastwindow then Err Nsec3TypesInvalid
          else if len = 0 then Err Nsec3TypesInvalid
          else if len > 32 then Err Nsec3TypesInvalid
          else if offset + 2 + unat len > length msg then Err Nsec3TypesInvalid
          else
            gbind (gslice msg (offset + 2) (offset + 2 + unat len)) (\<lambda>bs.
            decodeNSEC3Types_loop msg (offset + 2 + unat len) (uint window)
              (types @ nsec3_window_types (unat window * 256) bs))))
      else Ret types)"
  by pat_completeness auto
termination by (relation "measure (\<lambda>(msg, offset, _). length msg - offset)") auto

declare decodeNSEC3Types_loop.simps [simp del]

definition decodeNSEC3Types :: "byte list \<Rightarrow> (g53_error, RRType list) go" where
  "decodeNSEC3Types msg = decodeNSEC3Types_loop msg 0 (-1) []"

fun encodeNSEC3Bytes_loop :: "RRType list \<Rightarrow> byte list \<Rightarrow> u16 \<Rightarrow> u16 \<Rightarrow> nat \<Rightarrow> (g53_error, byte list) go" where
  "encodeNSEC3Bytes_loop [] types lastwindow lastlength offset =
     gslice types 0 (offset + unat lastlength + 2)"
| "encodeNSEC3Bytes_loop (typ # typs) types lastwindow lastlength offset =
     (let window = typ div 256;
          len = (typ - window * 256) div 8 + 1;
          offset = (if window > lastwindow \<and> lastlength \<noteq> 0 then offset + unat lastlength + 2 else offset)
      in gbind (upd types offset (ucast window)) (\<lambda>types.
         gbind (upd types (offset + 1) (ucast len)) (\<lambda>types.
         gbind (idx types (offset + 1 + unat len)) (\<lambda>b.
         gbind (upd types (offset + 1 + unat len) (b OR push_bit (unat (7 - typ mod 8)) 1)) (\<lambda>types.
         encodeNSEC3Bytes_loop typs types window len offset)))))"

definition encodeNSEC3Bytes :: "RRType list \<Rightarrow> (g53_error, byte list) go" where
  "encodeNSEC3Bytes typs = encodeNSEC3Bytes_loop typs (replicate (34 * length typs) 0) 0 0 0"

text \<open>The salt is kept as hexadecimal, the next hash as base32 text.\<close>

definition encodeNSEC3NextHash :: "byte list \<Rightarrow> byte list" where
  "encodeNSEC3NextHash nextHash = fst (b32_Decode nextHash)"

definition NSEC3FromWire :: "InputBuffer \<Rightarrow> u16 \<Rightarrow> (g53_error, NSEC3 \<times> InputBuffer) go" where
  "NSEC3FromWire buf ll =
     gbind (fieldFromWire RDF_C_UINT8 buf ll) (\<lambda>(algorithm, ll, buf).
     gbind (fieldFromWire RDF_C_UINT8 buf ll) (\<lambda>(flags, ll, buf).
     gbind (fieldFromWire RDF_C_UINT16 buf ll) (\<lambda>(iterations, ll, buf).
     gbind (fieldFromWire RDF_C_UINT8 buf ll) (\<lambda>(saltLen, ll, buf).
     gbind (fieldFromWire RDF_C_BINARY buf (ucast (as_uint8 saltLen))) (\<lambda>(salt, _, buf).
     let ll = ll - ucast (as_uint8 saltLen) in
     gbind (fieldFromWire RDF_C_UINT8 buf ll) (\<lambda>(hashLen, ll, buf).
     gbind (fieldFromWire RDF_C_BINARY buf (ucast (as_uint8 hashLen))) (\<lambda>(nextHash, _, buf).
     let ll = ll - ucast (as_uint8 hashLen) in
     gbind (fieldFromWire RDF_C_BINARY buf ll) (\<lambda>(nsec3Types, ll, buf).
     if ll \<noteq> 0 then Err ExtraData
     else gbind (decodeNSEC3Types (as_bytes nsec3Types)) (\<lambda>types.
       Ret (\<lparr>nsec3_Algorithm = as_uint8 algorithm, nsec3_Flags = as_uint8 flags,
              nsec3_Iterations = as_uint16 iterations, nsec3_SaltLength = as_uint8 saltLen,
              nsec3_Salt = hex_EncodeToString (as_bytes salt), nsec3_HashLength = as_uint8 hashLen,
              nsec3_NextHash = b32_EncodeToString (as_bytes nextHash), nsec3_Types = types\<rparr>, buf))))))))))"

definition NSEC3_Rend :: "NSEC3 \<Rightarrow> MsgRender \<Rightarrow> (g53_error, MsgRender) go" where
  "NSEC3_Rend n r =
     gbind (rendFields
     [(RDF_C_UINT8, FUint8 (nsec3_Algorithm n)), (RDF_C_UINT8, FUint8 (nsec3_Flags n)),
      (RDF_C_UINT16, FUint16 (nsec3_Iterations n)), (RDF_C_UINT8, FUint8 (nsec3_SaltLength n)),
      (RDF_C_BINARY, FBytes (encodeStringToHex (nsec3_Salt n))),
      (RDF_C_UINT8, FUint8 (nsec3_HashLength n)),
      (RDF_C_BINARY, FBytes (encodeNSEC3NextHash (nsec3_NextHash n)))] r) (\<lambda>r.
     gbind (encodeNSEC3Bytes (nsec3_Types n)) (\<lambda>bs. rendField RDF_C_BINARY (FBytes bs) r))"

definition NSEC3_ToWire :: "NSEC3 \<Rightarrow> OutputBuffer \<Rightarrow> (g53_error, OutputBuffer) go" where
  "NSEC3_ToWire n out =
     gbind (fieldsToWire
     [(RDF_C_UINT8, FUint8 (nsec3_Algorithm n)), (RDF_C_UINT8, FUint8 (nsec3_Flags n)),
      (RDF_C_UINT16, FUint16 (nsec3_Iterations n)), (RDF_C_UINT8, FUint8 (nsec3_SaltLength n)),
      (RDF_C_BINARY, FBytes (encodeStringToHex (nsec3_Salt n))),
      (RDF_C_UINT8, FUint8 (nsec3_HashLength n)),
      (RDF_C_BINARY, FBytes (encodeNSEC3NextHash (nsec3_NextHash n)))] out) (\<lambda>out.
     gbind (encodeNSEC3Bytes (nsec3_Types n)) (\<lambda>bs. fieldToWire RDF_C_BINARY (FBytes bs) out))"

text \<open>The loop over \<open>nsec3.Types\<close> reads the other record's types at the same index.\<close>

fun nsec3_compare_types :: "RRType list \<Rightarrow> RRType list \<Rightarrow> (g53_error, int) go" where
  "nsec3_compare_types [] other = Ret 0"
| "nsec3_compare_types (typ # types) [] = Panic"
| "nsec3_compare_types (typ # types) (o1 # other) =
     gbind (fieldCompare RDF_C_UINT16 (FUint16 typ) (FUint16 o1)) (\<lambda>order.
     if order \<noteq> 0 then Ret order else nsec3_compare_types types other)"

definition NSEC3_Compare :: "NSEC3 \<Rightarrow> NSEC3 \<Rightarrow> (g53_error, int) go" where
  "NSEC3_Compare n other =
     gbind (fieldsCompare
     [(RDF_C_UINT8, FUint8 (nsec3_Algorithm n), FUint8 (nsec3_Algorithm other)),
      (RDF_C_UINT8, FUint8 (nsec3_Flags n), FUint8 (nsec3_Flags other)),
      (RDF_C_UINT16, FUint16 (nsec3_Iterations n), FUint16 (nsec3_Iterations other)),
      (RDF_C_UINT8, FUint8 (nsec3_SaltLength n), FUint8 (nsec3_SaltLength other)),
      (RDF_C_BYTE_BINARY, FBytes (nsec3_Salt n), FBytes (nsec3_Salt other)),
      (RDF_C_UINT8, FUint8 (nsec3_HashLength n), FUint8 (nsec3_HashLength other)),
      (RDF_C_BYTE_BINARY, FBytes (nsec3_NextHash n), FBytes (nsec3_NextHash other))]) (\<lambda>order.
     if order \<noteq> 0 then Ret order else nsec3_compare_types (nsec3_Types n) (nsec3_Types other))"

end
