(* ===== verification/Tsig.thy ===== *)
theory Tsig
  imports Rdata_Types Name_Text
begin

unbundle bit_operations_syntax

text \<open>
  \<open>src/g53/tsig.go\<close>: transaction signatures. The struct \<open>TSIG\<close> holds a value of the interface
  \<open>hash.Hash\<close>; it is modelled by what was written to it and by its digest as a function of that.
  The keyed digests of \<open>crypto/hmac\<close> are the parameter \<open>hmac\<close> (algorithm, key, message), and the
  clock is the parameter \<open>now\<close>. \<open>Rend\<close> signs the message, so it also returns the changed \<open>TSIG\<close>.
  \<open>VerifyTsig\<close> renders a message and stands with the messages.
\<close>

abbreviation ascii :: "string \<Rightarrow> byte list" where
  "ascii \<equiv> map of_char"

type_synonym TSIGAlgorithm = "byte list"

abbreviation HmacMD5 :: TSIGAlgorithm where "HmacMD5 \<equiv> ascii ''hmac-md5.sig-alg.reg.int.''"
abbreviation HmacSHA1 :: TSIGAlgorithm where "HmacSHA1 \<equiv> ascii ''hmac-sha1.''"
abbreviation HmacSHA256 :: TSIGAlgorithm where "HmacSHA256 \<equiv> ascii ''hmac-sha256.''"
abbreviation HmacSHA512 :: TSIGAlgorithm where "HmacSHA512 \<equiv> ascii ''hmac-sha512.''"

text \<open>Algorithm names are ASCII, where \<open>strings.ToLower\<close> is the table of name.go.\<close>

definition AlgorithmFromString :: "byte list \<Rightarrow> (g53_error, TSIGAlgorithm) go" where
  "AlgorithmFromString name =
     (let l = map maptolower name in
      if l \<in> {ascii ''hmac-md5'', ascii ''hmac-md5.sig-alg.reg.int.''} then Ret HmacMD5
      else if l \<in> {ascii ''hmac-sha1'', ascii ''hmac-sha1.''} then Ret HmacSHA1
      else if l \<in> {ascii ''hmac-sha256'', ascii ''hmac-sha256.''} then Ret HmacSHA256
      else if l \<in> {ascii ''hmac-sha512'', ascii ''hmac-sha512.''} then Ret HmacSHA512
      else Err NoSuchAlgorithm)"

section \<open>The record\<close>

record TsigHeader =
  th_Name :: Name
  th_Rrtype :: RRType
  th_Class :: RRClass
  th_Ttl :: RRTTL
  th_Rdlength :: u16

definition TsigHeader_Rend :: "TsigHeader \<Rightarrow> MsgRender \<Rightarrow> (g53_error, MsgRender) go" where
  "TsigHeader_Rend h r =
     gbind (Name_Rend (th_Name h) r) (\<lambda>r.
     let r = Render_WriteUint16 r (th_Rrtype h);
         r = Render_WriteUint16 r (th_Class h);
         r = Render_WriteUint32 r (th_Ttl h)
     in Ret (Render_Skip r 2))"

definition TsigHeader_ToWire :: "TsigHeader \<Rightarrow> OutputBuffer \<Rightarrow> OutputBuffer" where
  "TsigHeader_ToWire h out =
     (let out = Name_ToWire (th_Name h) out;
          out = WriteUint16 out (th_Rrtype h);
          out = WriteUint16 out (th_Class h);
          out = WriteUint32 out (th_Ttl h)
      in Out_Skip out 2)"

record hash_Hash =
  hash_Sum :: "byte list \<Rightarrow> byte list"
  hash_written :: "byte list"

record TSIG =
  tsig_Header :: "TsigHeader option"
  tsig_Algorithm :: TSIGAlgorithm
  tsig_TimeSigned :: "64 word"
  tsig_Fudge :: u16
  tsig_MACSize :: u16
  tsig_MAC :: "byte list option"
  tsig_OrigId :: u16
  tsig_Error :: u16
  tsig_OtherLen :: u16
  tsig_OtherData :: "byte list"
  tsig_hash :: "hash_Hash option"

abbreviation CLASS_ANY :: RRClass where "CLASS_ANY \<equiv> 255"

definition fromBase64 :: "byte list \<Rightarrow> (g53_error, byte list) go" where
  "fromBase64 s = (case b64_Decode s of None \<Rightarrow> Err Base64Corrupt | Some d \<Rightarrow> Ret d)"

definition hashSelect ::
  "(TSIGAlgorithm \<Rightarrow> byte list \<Rightarrow> byte list \<Rightarrow> byte list) \<Rightarrow> TSIGAlgorithm \<Rightarrow> byte list
   \<Rightarrow> (g53_error, hash_Hash) go" where
  "hashSelect hmac algo secret =
     gbind (fromBase64 secret) (\<lambda>rawsecret.
     if algo \<in> {HmacMD5, HmacSHA1, HmacSHA256, HmacSHA512}
     then Ret \<lparr>hash_Sum = hmac algo rawsecret, hash_written = []\<rparr>
     else Panic)"

definition NewTSIG ::
  "(TSIGAlgorithm \<Rightarrow> byte list \<Rightarrow> byte list \<Rightarrow> byte list) \<Rightarrow> 64 word \<Rightarrow> byte list \<Rightarrow> byte list \<Rightarrow> byte list
   \<Rightarrow> (g53_error, TSIG) go" where
  "NewTSIG hmac now key secret alg =
     gbind (NameFromString key) (\<lambda>name.
     gbind (AlgorithmFromString alg) (\<lambda>algo.
     gbind (hashSelect hmac algo secret) (\<lambda>h.
     Ret \<lparr>tsig_Header = Some \<lparr>th_Name = name, th_Rrtype = RR_TSIG, th_Class = CLASS_ANY, th_Ttl = 0, th_Rdlength = 0\<rparr>,
          tsig_Algorithm = algo, tsig_TimeSigned = now, tsig_Fudge = 300, tsig_MACSize = 0, tsig_MAC = None,
          tsig_OrigId = 0, tsig_Error = 0, tsig_OtherLen = 0, tsig_OtherData = [], tsig_hash = Some h\<rparr>)))"

definition TSIGFromWire :: "InputBuffer \<Rightarrow> u16 \<Rightarrow> (g53_error, TSIG \<times> InputBuffer) go" where
  "TSIGFromWire buf ll =
     gbind (fieldFromWire RDF_C_NAME buf ll) (\<lambda>(alg, ll, buf).
     gbind (as_name alg) (\<lambda>alg.
     gbind (Name_String alg False) (\<lambda>algo.
     gbind (fieldFromWire RDF_C_UINT16 buf ll) (\<lambda>(ts1, ll, buf).
     gbind (fieldFromWire RDF_C_UINT32 buf ll) (\<lambda>(ts2, ll, buf).
     gbind (fieldFromWire RDF_C_UINT16 buf ll) (\<lambda>(fudge, ll, buf).
     gbind (fieldFromWire RDF_C_UINT16 buf ll) (\<lambda>(macSize, ll, buf).
     gbind (fieldFromWire RDF_C_BINARY buf (as_uint16 macSize)) (\<lambda>(mac, _, buf).
     let ll = ll - as_uint16 macSize in
     gbind (fieldFromWire RDF_C_UINT16 buf ll) (\<lambda>(oid, ll, buf).
     gbind (fieldFromWire RDF_C_UINT16 buf ll) (\<lambda>(erro, ll, buf).
     gbind (fieldFromWire RDF_C_UINT16 buf ll) (\<lambda>(len, ll, buf).
     gbind (fieldFromWire RDF_C_BINARY buf (as_uint16 len)) (\<lambda>(odata, _, buf).
     let ll = ll - as_uint16 len in
     if ll \<noteq> 0 then Err ExtraData
     else Ret (\<lparr>tsig_Header = None, tsig_Algorithm = algo,
            tsig_TimeSigned = push_bit 32 (ucast (as_uint16 ts1) AND 0xffff) + ucast (as_uint32 ts2),
            tsig_Fudge = as_uint16 fudge, tsig_MACSize = as_uint16 macSize, tsig_MAC = Some (as_bytes mac),
            tsig_OrigId = as_uint16 oid, tsig_Error = as_uint16 erro, tsig_OtherLen = as_uint16 len,
            tsig_OtherData = as_bytes odata, tsig_hash = None\<rparr>, buf)))))))))))))"

section \<open>Signing\<close>

text \<open>The error of \<open>NameFromString\<close> is dropped, and the nil name panics when it is written.\<close>

definition algorithm_name :: "TSIGAlgorithm \<Rightarrow> (g53_error, Name) go" where
  "algorithm_name algo = (case NameFromString algo of Err _ \<Rightarrow> Panic | res \<Rightarrow> res)"

record tsigWireFmt =
  twf_Name :: Name
  twf_Class :: RRClass
  twf_Ttl :: RRTTL
  twf_Algorithm :: TSIGAlgorithm
  twf_TimeSigned :: "64 word"
  twf_Fudge :: u16
  twf_Error :: u16
  twf_OtherLen :: u16
  twf_OtherData :: "byte list"

definition tsigWireFmt_Rend :: "tsigWireFmt \<Rightarrow> MsgRender \<Rightarrow> (g53_error, MsgRender) go" where
  "tsigWireFmt_Rend twf r =
     gbind (Name_Rend (twf_Name twf) r) (\<lambda>r.
     let r = Render_WriteUint16 r (twf_Class twf);
         r = Render_WriteUint32 r (twf_Ttl twf)
     in gbind (algorithm_name (twf_Algorithm twf)) (\<lambda>alg.
        gbind (Name_Rend alg r) (\<lambda>r.
        let r = Render_WriteUint16 r (ucast (drop_bit 32 (twf_TimeSigned twf AND 0x0000ffff00000000)));
            r = Render_WriteUint32 r (ucast (twf_TimeSigned twf AND 0x00000000ffffffff));
            r = Render_WriteUint16 r (twf_Fudge twf);
            r = Render_WriteUint16 r (twf_Error twf);
            r = Render_WriteUint16 r (twf_OtherLen twf)
        in Ret (Render_WriteData r (twf_OtherData twf)))))"

definition tsigWireFmt_ToWire :: "tsigWireFmt \<Rightarrow> OutputBuffer \<Rightarrow> (g53_error, OutputBuffer) go" where
  "tsigWireFmt_ToWire twf out =
     (let out = Name_ToWire (twf_Name twf) out;
          out = WriteUint16 out (twf_Class twf);
          out = WriteUint32 out (twf_Ttl twf)
      in gbind (algorithm_name (twf_Algorithm twf)) (\<lambda>alg.
         let out = Name_ToWire alg out;
             out = WriteUint16 out (ucast (drop_bit 32 (twf_TimeSigned twf AND 0x0000ffff00000000)));
             out = WriteUint32 out (ucast (twf_TimeSigned twf AND 0x00000000ffffffff));
             out = WriteUint16 out (twf_Fudge twf);
             out = WriteUint16 out (twf_Error twf);
             out = WriteUint16 out (twf_OtherLen twf)
         in Ret (WriteData out (twf_OtherData twf))))"

record macWirefmt =
  mwf_MACSize :: u16
  mwf_MAC :: "byte list"

definition macWirefmt_Rend :: "macWirefmt \<Rightarrow> MsgRender \<Rightarrow> MsgRender" where
  "macWirefmt_Rend mwf r = Render_WriteData (Render_WriteUint16 r (mwf_MACSize mwf)) (mwf_MAC mwf)"

definition macWirefmt_ToWire :: "macWirefmt \<Rightarrow> OutputBuffer \<Rightarrow> OutputBuffer" where
  "macWirefmt_ToWire mwf out = WriteData (WriteUint16 out (mwf_MACSize mwf)) (mwf_MAC mwf)"

text \<open>A zero time or fudge of the record is filled in first.\<close>

definition toWireFmtBuf ::
  "64 word \<Rightarrow> TSIG \<Rightarrow> byte list \<Rightarrow> byte list option \<Rightarrow> (g53_error, TSIG \<times> byte list) go" where
  "toWireFmtBuf now t msgBuf requestMac =
     (let buf = NewOutputBuffer 512;
          t = (if tsig_TimeSigned t = 0 then t\<lparr>tsig_TimeSigned := now\<rparr> else t);
          t = (if tsig_Fudge t = 0 then t\<lparr>tsig_Fudge := 300\<rparr> else t);
          buf = (case requestMac of
                   None \<Rightarrow> buf
                 | Some mac \<Rightarrow> macWirefmt_ToWire \<lparr>mwf_MACSize = word_of_nat (length mac), mwf_MAC = mac\<rparr> buf);
          buf = WriteData buf msgBuf
      in case tsig_Header t of
           None \<Rightarrow> Panic
         | Some h \<Rightarrow>
             gbind (tsigWireFmt_ToWire
               \<lparr>twf_Name = th_Name h, twf_Class = CLASS_ANY, twf_Ttl = th_Ttl h,
                twf_Algorithm = tsig_Algorithm t, twf_TimeSigned = tsig_TimeSigned t,
                twf_Fudge = tsig_Fudge t, twf_Error = tsig_Error t, twf_OtherLen = tsig_OtherLen t,
                twf_OtherData = tsig_OtherData t\<rparr> buf) (\<lambda>buf. Ret (t, odata buf)))"

definition genMessageHash :: "64 word \<Rightarrow> TSIG \<Rightarrow> byte list \<Rightarrow> (g53_error, TSIG) go" where
  "genMessageHash now t messageRaw =
     (if tsig_Error t = 0 then
        gbind (toWireFmtBuf now t messageRaw (tsig_MAC t)) (\<lambda>(t, buf).
        case tsig_hash t of
          None \<Rightarrow> Panic
        | Some h \<Rightarrow>
            let h = h\<lparr>hash_written := hash_written h @ buf\<rparr>;
                mac = hash_Sum h (hash_written h)
            in Ret (t\<lparr>tsig_hash := Some h, tsig_MAC := Some mac, tsig_MACSize := word_of_nat (length mac)\<rparr>))
      else Ret t)"

definition mac_bytes :: "TSIG \<Rightarrow> byte list" where
  "mac_bytes t = (case tsig_MAC t of None \<Rightarrow> [] | Some mac \<Rightarrow> mac)"

definition TSIG_Rend :: "64 word \<Rightarrow> TSIG \<Rightarrow> MsgRender \<Rightarrow> (g53_error, TSIG \<times> MsgRender) go" where
  "TSIG_Rend now t r =
     gbind (genMessageHash now t (odata (rbuf r))) (\<lambda>t.
     case tsig_Header t of
       None \<Rightarrow> Panic
     | Some h \<Rightarrow>
         gbind (TsigHeader_Rend h r) (\<lambda>r.
         let p = length (odata (rbuf r)) in
         gbind (algorithm_name (tsig_Algorithm t)) (\<lambda>alg.
         gbind (Name_Rend alg r) (\<lambda>r.
         let r = Render_WriteUint16 r (ucast (drop_bit 32 (tsig_TimeSigned t AND 0x0000ffff00000000)));
             r = Render_WriteUint32 r (ucast (tsig_TimeSigned t AND 0x00000000ffffffff));
             r = Render_WriteUint16 r (tsig_Fudge t);
             r = Render_WriteUint16 r (tsig_MACSize t);
             r = Render_WriteData r (mac_bytes t);
             r = Render_WriteUint16 r (tsig_OrigId t);
             r = Render_WriteUint16 r (tsig_Error t);
             r = Render_WriteUint16 r (tsig_OtherLen t);
             r = Render_WriteData r (tsig_OtherData t)
         in gbind (patch_length r (word_of_nat (length (odata (rbuf r)) - p)) (usub p 2)) (\<lambda>r. Ret (t, r))))))"

definition TSIG_ToWire :: "TSIG \<Rightarrow> OutputBuffer \<Rightarrow> (g53_error, OutputBuffer) go" where
  "TSIG_ToWire t out =
     (case tsig_Header t of
        None \<Rightarrow> Panic
      | Some h \<Rightarrow>
          let out = TsigHeader_ToWire h out;
              p = length (odata out)
          in gbind (algorithm_name (tsig_Algorithm t)) (\<lambda>alg.
             let out = Name_ToWire alg out;
                 out = WriteUint16 out (ucast (drop_bit 32 (tsig_TimeSigned t AND 0x0000ffff00000000)));
                 out = WriteUint32 out (ucast (tsig_TimeSigned t AND 0x00000000ffffffff));
                 out = WriteUint16 out (tsig_Fudge t);
                 out = WriteUint16 out (tsig_MACSize t);
                 out = WriteData out (mac_bytes t);
                 out = WriteUint16 out (tsig_OrigId t);
                 out = WriteUint16 out (tsig_Error t);
                 out = WriteUint16 out (tsig_OtherLen t);
                 out = WriteData out (tsig_OtherData t)
             in case WriteUint16At out (word_of_nat (length (odata out) - p)) (usub p 2) of
                  Err _ \<Rightarrow> Ret out | res \<Rightarrow> res))"

end
