(* ===== verification/Rdata_Iface.thy ===== *)
theory Rdata_Iface
  imports Tsig
begin

text \<open>
  \<open>src/g53/rdata.go\<close>: the interface \<open>Rdata\<close> as a datatype with one constructor per implementing type,
  the decoder that chooses by record type, and the methods by dispatch. A nil \<open>Rdata\<close>, which the
  decoder returns for empty data, is \<open>None\<close>.
\<close>

datatype Rdata =
  A_rdata "byte list" | AAAA_rdata "byte list" | CName_rdata Name | NS_rdata Name | PTR_rdata Name
| DName_rdata Name | SOA_rdata SOA | MX_rdata MX | SRV_rdata SRV | Txt_rdata "byte list list"
| SPF_rdata "byte list list" | RP_rdata RP | HINFO_rdata HINFO | NAPTR_rdata NAPTR | DS_rdata DS
| OPT_rdata "byte list" | RRSig_rdata RRSig | NSEC3_rdata NSEC3 | TSIG_rdata TSIG

definition as_rdata :: "('a \<Rightarrow> Rdata) \<Rightarrow> (g53_error, 'a \<times> InputBuffer) go \<Rightarrow> (g53_error, Rdata option \<times> InputBuffer) go" where
  "as_rdata f m = gbind m (\<lambda>(x, buf). Ret (Some (f x), buf))"

definition RdataFromWire :: "RRType \<Rightarrow> InputBuffer \<Rightarrow> (g53_error, Rdata option \<times> InputBuffer) go" where
  "RdataFromWire t buf =
     gbind (ReadUint16 buf) (\<lambda>(rdlen, buf).
     if rdlen = 0 then Ret (None, buf)
     else if t = RR_A then as_rdata A_rdata (AFromWire buf rdlen)
     else if t = RR_AAAA then as_rdata AAAA_rdata (AAAAFromWire buf rdlen)
     else if t = RR_CNAME then as_rdata CName_rdata (CNameFromWire buf rdlen)
     else if t = RR_SOA then as_rdata SOA_rdata (SOAFromWire buf rdlen)
     else if t = RR_NS then as_rdata NS_rdata (NSFromWire buf rdlen)
     else if t = RR_OPT then as_rdata OPT_rdata (OPTFromWire buf rdlen)
     else if t = RR_PTR then as_rdata PTR_rdata (PTRFromWire buf rdlen)
     else if t = RR_SRV then as_rdata SRV_rdata (SRVFromWire buf rdlen)
     else if t = RR_NAPTR then as_rdata NAPTR_rdata (NAPTRFromWire buf rdlen)
     else if t = RR_DNAME then as_rdata DName_rdata (DNameFromWire buf rdlen)
     else if t = RR_RRSIG then as_rdata RRSig_rdata (RRSigFromWire buf rdlen)
     else if t = RR_MX then as_rdata MX_rdata (MXFromWire buf rdlen)
     else if t = RR_TXT then as_rdata Txt_rdata (TxtFromWire buf rdlen)
     else if t = RR_RP then as_rdata RP_rdata (RPFromWire buf rdlen)
     else if t = RR_SPF then as_rdata SPF_rdata (SPFFromWire buf rdlen)
     else if t = RR_TSIG then as_rdata TSIG_rdata (TSIGFromWire buf rdlen)
     else if t = RR_NSEC3 then as_rdata NSEC3_rdata (NSEC3FromWire buf rdlen)
     else if t = RR_DS then as_rdata DS_rdata (DSFromWire buf rdlen)
     else if t = RR_HINFO then as_rdata HINFO_rdata (HINFOFromWire buf rdlen)
     else Err UnimplementedType)"

text \<open>
  Rendering a \<open>TSIG\<close> signs it; the signature it leaves in the record is of no interest where the
  record is one of a section, and is dropped.
\<close>

primrec Rdata_Rend :: "64 word \<Rightarrow> Rdata \<Rightarrow> MsgRender \<Rightarrow> (g53_error, MsgRender) go" where
  "Rdata_Rend now (A_rdata ip) r = A_Rend ip r"
| "Rdata_Rend now (AAAA_rdata ip) r = AAAA_Rend ip r"
| "Rdata_Rend now (CName_rdata n) r = CName_Rend n r"
| "Rdata_Rend now (NS_rdata n) r = NS_Rend n r"
| "Rdata_Rend now (PTR_rdata n) r = PTR_Rend n r"
| "Rdata_Rend now (DName_rdata n) r = DName_Rend n r"
| "Rdata_Rend now (SOA_rdata soa) r = SOA_Rend soa r"
| "Rdata_Rend now (MX_rdata mx) r = MX_Rend mx r"
| "Rdata_Rend now (SRV_rdata srv) r = SRV_Rend srv r"
| "Rdata_Rend now (Txt_rdata d) r = Txt_Rend d r"
| "Rdata_Rend now (SPF_rdata d) r = SPF_Rend d r"
| "Rdata_Rend now (RP_rdata rp) r = RP_Rend rp r"
| "Rdata_Rend now (HINFO_rdata h) r = HINFO_Rend h r"
| "Rdata_Rend now (NAPTR_rdata n) r = NAPTR_Rend n r"
| "Rdata_Rend now (DS_rdata ds) r = DS_Rend ds r"
| "Rdata_Rend now (OPT_rdata d) r = OPT_Rend d r"
| "Rdata_Rend now (RRSig_rdata s) r = RRSig_Rend s r"
| "Rdata_Rend now (NSEC3_rdata n) r = NSEC3_Rend n r"
| "Rdata_Rend now (TSIG_rdata t) r = gbind (TSIG_Rend now t r) (\<lambda>(_, r). Ret r)"

primrec Rdata_ToWire :: "Rdata \<Rightarrow> OutputBuffer \<Rightarrow> (g53_error, OutputBuffer) go" where
  "Rdata_ToWire (A_rdata ip) out = A_ToWire ip out"
| "Rdata_ToWire (AAAA_rdata ip) out = AAAA_ToWire ip out"
| "Rdata_ToWire (CName_rdata n) out = CName_ToWire n out"
| "Rdata_ToWire (NS_rdata n) out = NS_ToWire n out"
| "Rdata_ToWire (PTR_rdata n) out = PTR_ToWire n out"
| "Rdata_ToWire (DName_rdata n) out = DName_ToWire n out"
| "Rdata_ToWire (SOA_rdata soa) out = SOA_ToWire soa out"
| "Rdata_ToWire (MX_rdata mx) out = MX_ToWire mx out"
| "Rdata_ToWire (SRV_rdata srv) out = SRV_ToWire srv out"
| "Rdata_ToWire (Txt_rdata d) out = Txt_ToWire d out"
| "Rdata_ToWire (SPF_rdata d) out = SPF_ToWire d out"
| "Rdata_ToWire (RP_rdata rp) out = RP_ToWire rp out"
| "Rdata_ToWire (HINFO_rdata h) out = HINFO_ToWire h out"
| "Rdata_ToWire (NAPTR_rdata n) out = NAPTR_ToWire n out"
| "Rdata_ToWire (DS_rdata ds) out = DS_ToWire ds out"
| "Rdata_ToWire (OPT_rdata d) out = OPT_ToWire d out"
| "Rdata_ToWire (RRSig_rdata s) out = RRSig_ToWire s out"
| "Rdata_ToWire (NSEC3_rdata n) out = NSEC3_ToWire n out"
| "Rdata_ToWire (TSIG_rdata t) out = TSIG_ToWire t out"

text \<open>
  \<open>a.Compare(other)\<close> asserts that \<open>other\<close> has the type of \<open>a\<close> and panics otherwise, except for
  CNAME, SOA and TSIG, which do not look at it.
\<close>

primrec Rdata_Compare :: "Rdata \<Rightarrow> Rdata \<Rightarrow> (g53_error, int) go" where
  "Rdata_Compare (A_rdata a) other = (case other of A_rdata b \<Rightarrow> A_Compare a b | _ \<Rightarrow> Panic)"
| "Rdata_Compare (AAAA_rdata a) other = (case other of AAAA_rdata b \<Rightarrow> AAAA_Compare a b | _ \<Rightarrow> Panic)"
| "Rdata_Compare (CName_rdata a) other = CName_Compare a"
| "Rdata_Compare (NS_rdata a) other = (case other of NS_rdata b \<Rightarrow> NS_Compare a b | _ \<Rightarrow> Panic)"
| "Rdata_Compare (PTR_rdata a) other = (case other of PTR_rdata b \<Rightarrow> PTR_Compare a b | _ \<Rightarrow> Panic)"
| "Rdata_Compare (DName_rdata a) other = (case other of DName_rdata b \<Rightarrow> DName_Compare a b | _ \<Rightarrow> Panic)"
| "Rdata_Compare (SOA_rdata a) other = SOA_Compare a"
| "Rdata_Compare (MX_rdata a) other = (case other of MX_rdata b \<Rightarrow> MX_Compare a b | _ \<Rightarrow> Panic)"
| "Rdata_Compare (SRV_rdata a) other = (case other of SRV_rdata b \<Rightarrow> SRV_Compare a b | _ \<Rightarrow> Panic)"
| "Rdata_Compare (Txt_rdata a) other = (case other of Txt_rdata b \<Rightarrow> Txt_Compare a b | _ \<Rightarrow> Panic)"
| "Rdata_Compare (SPF_rdata a) other = (case other of SPF_rdata b \<Rightarrow> SPF_Compare a b | _ \<Rightarrow> Panic)"
| "Rdata_Compare (RP_rdata a) other = (case other of RP_rdata b \<Rightarrow> RP_Compare a b | _ \<Rightarrow> Panic)"
| "Rdata_Compare (HINFO_rdata a) other = (case other of HINFO_rdata b \<Rightarrow> HINFO_Compare a b | _ \<Rightarrow> Panic)"
| "Rdata_Compare (NAPTR_rdata a) other = (case other of NAPTR_rdata b \<Rightarrow> NAPTR_Compare a b | _ \<Rightarrow> Panic)"
| "Rdata_Compare (DS_rdata a) other = (case other of DS_rdata b \<Rightarrow> DS_Compare a b | _ \<Rightarrow> Panic)"
| "Rdata_Compare (OPT_rdata a) other = (case other of OPT_rdata b \<Rightarrow> OPT_Compare a b | _ \<Rightarrow> Panic)"
| "Rdata_Compare (RRSig_rdata a) other = (case other of RRSig_rdata b \<Rightarrow> RRSig_Compare a b | _ \<Rightarrow> Panic)"
| "Rdata_Compare (NSEC3_rdata a) other = (case other of NSEC3_rdata b \<Rightarrow> NSEC3_Compare a b | _ \<Rightarrow> Panic)"
| "Rdata_Compare (TSIG_rdata a) other = Ret 0"

end
