(* ===== verification/Rdata_Codec.thy ===== *)
theory Rdata_Codec
  imports Render_Codec Rdata_Iface
begin

text \<open>
  What the fields and record data write is what their decoders read. A field is read back with
  its names in lower case (\<open>field_norm\<close>), given that as many bytes as it took are left; the record
  types whose methods are sequences of fields follow from that in one go.
\<close>

section \<open>Fields\<close>

definition greedy :: "RDFCodingType \<Rightarrow> bool" where
  "greedy ct \<longleftrightarrow> ct = RDF_C_BINARY \<or> ct = RDF_C_TXT"

primrec field_ok :: "byte set \<Rightarrow> RDFCodingType \<Rightarrow> field \<Rightarrow> bool" where
  "field_ok A ct (FName n) \<longleftrightarrow> (ct = RDF_C_NAME \<or> ct = RDF_C_NAME_UNCOMPRESS) \<and> name_ok A n"
| "field_ok A ct (FUint8 _) \<longleftrightarrow> ct = RDF_C_UINT8"
| "field_ok A ct (FUint16 _) \<longleftrightarrow> ct = RDF_C_UINT16"
| "field_ok A ct (FUint32 _) \<longleftrightarrow> ct = RDF_C_UINT32"
| "field_ok A ct (FIP ip) \<longleftrightarrow> ct = RDF_C_IPV4 \<and> length ip = 4 \<or> ct = RDF_C_IPV6 \<and> length ip = 16"
| "field_ok A ct (FBytes d) \<longleftrightarrow> ct = RDF_C_BINARY \<or> ct = RDF_C_BYTE_BINARY \<and> length d \<le> 255"
| "field_ok A ct (FString _) \<longleftrightarrow> False"
| "field_ok A ct (FStrings ss) \<longleftrightarrow> ct = RDF_C_TXT \<and> list_all (\<lambda>s. length s \<le> 255) ss"

primrec field_norm :: "field \<Rightarrow> field" where
  "field_norm (FName n) = FName (name_norm n)"
| "field_norm (FUint8 d) = FUint8 d"
| "field_norm (FUint16 d) = FUint16 d"
| "field_norm (FUint32 d) = FUint32 d"
| "field_norm (FIP d) = FIP d"
| "field_norm (FBytes d) = FBytes d"
| "field_norm (FString d) = FString d"
| "field_norm (FStrings ss) = FStrings ss"

primrec field_size :: "field \<Rightarrow> nat" where
  "field_size (FName n) = 256"
| "field_size (FUint8 d) = 1"
| "field_size (FUint16 d) = 2"
| "field_size (FUint32 d) = 4"
| "field_size (FIP d) = length d"
| "field_size (FBytes d) = length d + 1"
| "field_size (FString d) = length d"
| "field_size (FStrings ss) = sum_list (map (\<lambda>s. length s + 1) ss)"

definition field_reads :: "RDFCodingType \<Rightarrow> field \<Rightarrow> byte list \<Rightarrow> nat \<Rightarrow> nat \<Rightarrow> bool" where
  "field_reads ct d D p q \<longleftrightarrow>
     (\<forall>ll. q - p \<le> unat ll \<and> (greedy ct \<longrightarrow> unat ll = q - p) \<longrightarrow>
        fieldFromWire ct (buf_at D p) ll = Ret (d, ll - word_of_nat (q - p), buf_at D q))"

lemma bytes_at_append: "bytes_at D p (xs @ ys) \<longleftrightarrow> bytes_at D p xs \<and> bytes_at D (p + length xs) ys"
proof -
  have "(\<exists>post. drop p D = xs @ ys @ post) \<longleftrightarrow> (\<exists>post. drop p D = xs @ post) \<and> (\<exists>post. drop (p + length xs) D = ys @ post)"
    by (auto simp: drop_drop [symmetric] add.commute [of p] simp del: drop_drop)
  moreover have "p + length xs \<le> length D" if "drop p D = xs @ post" "p \<le> length D" for post
    using arg_cong [OF that(1), of length] that(2) by simp
  ultimately show ?thesis by (fastforce simp: bytes_at_def)
qed

lemma ll_room: "k \<le> unat (ll :: u16) \<Longrightarrow> \<not> ll < word_of_nat k"
  using unat_u16_less [of ll] by (simp add: word_less_nat_alt)

lemma field_reads_name:
  assumes "reads (\<lambda>buf. NameFromWire buf True) n D p q" "p \<le> q" "q \<le> length D" "length D < 2 ^ 63"
    and "ct = RDF_C_NAME \<or> ct = RDF_C_NAME_UNCOMPRESS"
  shows "field_reads ct (FName n) D p q"
  unfolding field_reads_def
proof (intro allI impI)
  fix ll :: u16 assume "q - p \<le> unat ll \<and> (greedy ct \<longrightarrow> unat ll = q - p)"
  then have "\<not> ll < word_of_nat (q - p)" using ll_room by blast
  then show "fieldFromWire ct (buf_at D p) ll = Ret (FName n, ll - word_of_nat (q - p), buf_at D q)"
    using assms by (auto simp: reads_def fieldFromWire_def Let_def usub_small simp del: of_nat_diff)
qed

lemma field_readsI:
  assumes "reads dec x D p (p + k)" "K = word_of_nat k"
    and "\<And>buf ll. fieldFromWire ct buf ll =
      gbind (dec buf) (\<lambda>(x, buf). if ll < K then Err DataIsTooShort else Ret (f x, ll - K, buf))"
  shows "field_reads ct (f x) D p (p + k)"
  using assms ll_room by (auto simp: field_reads_def reads_def)

lemma field_reads_uint:
  assumes "length D < 2 ^ 63"
  shows "bytes_at D p [d1] \<Longrightarrow> field_reads RDF_C_UINT8 (FUint8 d1) D p (p + 1)"
    and "bytes_at D p (be16 d2) \<Longrightarrow> field_reads RDF_C_UINT16 (FUint16 d2) D p (p + 2)"
    and "bytes_at D p (be32 d4) \<Longrightarrow> field_reads RDF_C_UINT32 (FUint32 d4) D p (p + 4)"
    and "bytes_at D p ip \<Longrightarrow> length ip = 4 \<Longrightarrow> field_reads RDF_C_IPV4 (FIP ip) D p (p + 4)"
    and "bytes_at D p ip \<Longrightarrow> length ip = 16 \<Longrightarrow> field_reads RDF_C_IPV6 (FIP ip) D p (p + 16)"
  using u8.reads_bytes_at [where x = d1 and D = D and p = p] u16.reads_bytes_at [where x = d2 and D = D and p = p]
    u32.reads_bytes_at [where x = d4 and D = D and p = p] octets.reads_bytes_at [where x = ip and D = D and p = p] assms
    field_readsI [of ReadUint8 d1 D p 1 1 RDF_C_UINT8 FUint8] field_readsI [of ReadUint16 d2 D p 2 2 RDF_C_UINT16 FUint16]
    field_readsI [of ReadUint32 d4 D p 4 4 RDF_C_UINT32 FUint32] field_readsI [of "\<lambda>buf. ReadBytes buf 4" ip D p 4 4 RDF_C_IPV4 FIP]
    field_readsI [of "\<lambda>buf. ReadBytes buf 16" ip D p 16 16 RDF_C_IPV6 FIP]
  by (simp_all add: fieldFromWire_def)

lemma field_reads_binary:
  assumes "bytes_at D p bs" "length D < 2 ^ 63"
  shows "field_reads RDF_C_BINARY (FBytes bs) D p (p + length bs)"
  using assms octets.reads_bytes_at [where x = bs and D = D and p = p]
  by (auto simp: field_reads_def reads_def fieldFromWire_def greedy_def dest: unat_u16_eqD)

lemma byteBinary_reads:
  assumes b: "bytes_at D p (word_of_nat (length d) # d)" and D: "length D < 2 ^ 63" and d: "length d \<le> 255" and ll: "length d + 1 \<le> unat ll"
  shows "byteBinaryFromWire (buf_at D p) ll = Ret (FBytes d, ll - word_of_nat (length d + 1), buf_at D (p + (length d + 1)))"
proof -
  let ?l = "word_of_nat (length d) :: byte"
  have "bytes_at D p [?l]" "bytes_at D (p + 1) d" using b bytes_at_append [of D p "[?l]" d] by simp_all
  then have r: "ReadUint8 (buf_at D p) = Ret (?l, buf_at D (p + 1))"
    "ReadBytes (buf_at D (p + 1)) (length d) = Ret (d, buf_at D (p + 1 + length d))"
    using u8.reads_bytes_at [where x = ?l] octets.reads_bytes_at [where x = d] D by (fastforce simp: reads_def)+
  have "unat ?l = length d" "unat (ucast ?l :: u16) = length d"
    using d unat_ucast_byte [of ?l] by simp_all
  moreover have "unat (ll - 1) = unat ll - 1" using ll by (simp add: unat_sub word_le_nat_alt)
  moreover have "(ucast ?l :: u16) = word_of_nat (length d)" using d by (simp add: word_unat_eq_iff)
  ultimately show ?thesis
    using r ll by (simp add: byteBinaryFromWire_def word_less_nat_alt Let_def algebra_simps)
qed


lemma emits_rendBytes:
  "emits A (length d + 1) (\<lambda>r. Ret (rendBytes d r)) (\<lambda>D p q. q = p + (length d + 1) \<and> bytes_at D p (word_of_nat (length d) # d))"
  using emits_data [of "\<lambda>r. Ret (rendBytes d r)" "\<lambda>b. WriteData (WriteUint8 b (word_of_nat (length d))) d" "word_of_nat (length d) # d"]
  by (simp add: rendBytes_def Render_WriteData_def Render_WriteUint8_def)

lemma emits_strings:
  assumes "list_all (\<lambda>s. length s \<le> 255) ss"
  shows "emits A (sum_list (map (\<lambda>s. length s + 1) ss)) (\<lambda>r. Ret (fold rendBytes ss r))
    (\<lambda>D p q. \<forall>ll acc. unat ll = q - p \<longrightarrow> txtFromWire (buf_at D p) ll acc = Ret (FStrings (acc @ ss), 0, buf_at D q))"
  using assms
proof (induction ss)
  case Nil
  have "txtFromWire (buf_at D p) 0 acc = Ret (FStrings acc, 0, buf_at D p)" for D p acc
    by (simp add: txtFromWire.simps)
  then show ?case
    using emits_weaken [OF emits_Ret] by (auto simp: unat_eq_0)
next
  case (Cons s ss)
  let ?Q = "\<lambda>D p q. \<forall>ll acc. unat ll = q - p \<longrightarrow> txtFromWire (buf_at D p) ll acc = Ret (FStrings (acc @ ss), 0, buf_at D q)"
  have s: "length s \<le> 255" using Cons.prems by simp
  have "emits A (length s + 1 + sum_list (map (\<lambda>s. length s + 1) ss)) (\<lambda>r. gbind (Ret (rendBytes s r)) (\<lambda>r. Ret (fold rendBytes ss r)))
     (\<lambda>D p q. \<forall>ll acc. unat ll = q - p \<longrightarrow> txtFromWire (buf_at D p) ll acc = Ret (FStrings (acc @ s # ss), 0, buf_at D q))"
  proof (rule emits_weaken [OF emits_seq [OF emits_rendBytes Cons.IH]], goal_cases)
    case (2 D p q)
    then obtain m where m: "m = p + (length s + 1)" "bytes_at D p (word_of_nat (length s) # s)" "?Q D m q" "m \<le> q" by blast
    show ?case
    proof (intro allI impI)
      fix ll :: u16 and acc assume ll: "unat ll = q - p"
      then have "unat (ll - word_of_nat (length s + 1)) = q - m"
        using m(1,4) unat_sub_u16 [of "length s + 1" ll] by simp
      moreover have "txtFromWire (buf_at D p) ll acc = txtFromWire (buf_at D m) (ll - word_of_nat (length s + 1)) (acc @ [s])"
        using ll m(1,4) byteBinary_reads [OF m(2) 2(5) s, of ll]
        by (subst txtFromWire.simps) (auto simp: word_less_nat_alt)
      ultimately show "txtFromWire (buf_at D p) ll acc = Ret (FStrings (acc @ s # ss), 0, buf_at D q)" using m(3) by simp
    qed
  qed (use Cons.prems in simp_all)
  then show ?case by simp
qed


lemma rendField_simps:
  "rendField RDF_C_NAME (FName n) = (\<lambda>r. WriteName r n True)"
  "rendField RDF_C_NAME_UNCOMPRESS (FName n) = (\<lambda>r. WriteName r n False)"
  "rendField RDF_C_UINT8 (FUint8 d1) = (\<lambda>r. Ret (Render_WriteUint8 r d1))"
  "rendField RDF_C_UINT16 (FUint16 d2) = (\<lambda>r. Ret (Render_WriteUint16 r d2))"
  "rendField RDF_C_UINT32 (FUint32 d4) = (\<lambda>r. Ret (Render_WriteUint32 r d4))"
  "rendField RDF_C_IPV4 (FIP ip) = (\<lambda>r. Ret (Render_WriteData r ip))"
  "rendField RDF_C_IPV6 (FIP ip) = (\<lambda>r. Ret (Render_WriteData r ip))"
  "rendField RDF_C_BINARY (FBytes bs) = (\<lambda>r. Ret (Render_WriteData r bs))"
  "rendField RDF_C_BYTE_BINARY (FBytes bs) = (\<lambda>r. Ret (rendBytes bs r))"
  "rendField RDF_C_TXT (FStrings ss) = (\<lambda>r. Ret (fold rendBytes ss r))"
  by (simp_all add: rendField_def fun_eq_iff)

lemma emits_field_name:
  assumes "name_ok A n" "ct = RDF_C_NAME \<or> ct = RDF_C_NAME_UNCOMPRESS"
  shows "emits A 256 (\<lambda>r. WriteName r n compress) (field_reads ct (FName (name_norm n)))"
  by (rule emits_weaken [OF name_rend.rend_reads [OF assms(1)]]) (use assms(2) field_reads_name in auto)

lemma emits_field_strings:
  assumes "list_all (\<lambda>s. length s \<le> 255) ss"
  shows "emits A (sum_list (map (\<lambda>s. length s + 1) ss)) (\<lambda>r. Ret (fold rendBytes ss r)) (field_reads RDF_C_TXT (FStrings ss))"
  by (rule emits_weaken [OF emits_strings [OF assms]])
    (auto simp: field_reads_def fieldFromWire_def greedy_def unat_u16_eqD simp del: of_nat_diff)

lemma emits_field_bytes:
  assumes "length v \<le> 255"
  shows "emits A (length v + 1) (\<lambda>r. Ret (rendBytes v r)) (field_reads RDF_C_BYTE_BINARY (FBytes v))"
proof (rule emits_weaken [OF emits_rendBytes])
  fix D :: "byte list" and p q
  assume "q = p + (length v + 1) \<and> bytes_at D p (word_of_nat (length v) # v)" "length D < 2 ^ 63"
  then show "field_reads RDF_C_BYTE_BINARY (FBytes v) D p q"
    using byteBinary_reads [of D p v] assms by (auto simp: field_reads_def fieldFromWire_def)
qed simp

lemma emits_field_fixed:
  "emits A 1 (\<lambda>r. Ret (Render_WriteUint8 r d1)) (field_reads RDF_C_UINT8 (FUint8 d1))"
  "emits A 2 (\<lambda>r. Ret (Render_WriteUint16 r d2)) (field_reads RDF_C_UINT16 (FUint16 d2))"
  "emits A 4 (\<lambda>r. Ret (Render_WriteUint32 r d4)) (field_reads RDF_C_UINT32 (FUint32 d4))"
  by (rule emits_weaken [OF emits_Uint8], use field_reads_uint(1) in blast, simp)
    (rule emits_weaken [OF emits_Uint16], use field_reads_uint(2) in blast, simp,
     rule emits_weaken [OF emits_Uint32], use field_reads_uint(3) in blast, simp)

lemma emits_field_data:
  "length ip4 = 4 \<Longrightarrow> emits A 4 (\<lambda>r. Ret (Render_WriteData r ip4)) (field_reads RDF_C_IPV4 (FIP ip4))"
  "length ip6 = 16 \<Longrightarrow> emits A 16 (\<lambda>r. Ret (Render_WriteData r ip6)) (field_reads RDF_C_IPV6 (FIP ip6))"
  "emits A (length v + 1) (\<lambda>r. Ret (Render_WriteData r v)) (field_reads RDF_C_BINARY (FBytes v))"
  by (rule emits_weaken [OF emits_Data], use field_reads_uint(4) in metis, simp)
    (rule emits_weaken [OF emits_Data], use field_reads_uint(5) in metis, simp,
     rule emits_weaken [OF emits_Data], use field_reads_binary in blast, simp)

lemma emits_field:
  assumes "field_ok A ct d"
  shows "emits A (field_size d) (rendField ct d) (field_reads ct (field_norm d))"
  using assms
  by (cases d) (auto simp: rendField_simps emits_field_fixed emits_field_data emits_field_name emits_field_strings
      emits_field_bytes simp del: One_nat_def)

text \<open>\<open>fieldsFromWire\<close> is the sequence of reads of a decoder. Only its last field may take all that is left.\<close>

fun fieldsFromWire :: "RDFCodingType list \<Rightarrow> InputBuffer \<Rightarrow> u16 \<Rightarrow> (g53_error, field list \<times> u16 \<times> InputBuffer) go" where
  "fieldsFromWire [] buf ll = Ret ([], ll, buf)"
| "fieldsFromWire (ct # cts) buf ll =
     gbind (fieldFromWire ct buf ll) (\<lambda>(d, ll, buf).
     gbind (fieldsFromWire cts buf ll) (\<lambda>(ds, ll, buf). Ret (d # ds, ll, buf)))"

fun fields_ok :: "byte set \<Rightarrow> (RDFCodingType \<times> field) list \<Rightarrow> bool" where
  "fields_ok A [] \<longleftrightarrow> True"
| "fields_ok A ((ct, d) # fs) \<longleftrightarrow> field_ok A ct d \<and> (greedy ct \<longrightarrow> fs = []) \<and> fields_ok A fs"

definition fields_size :: "(RDFCodingType \<times> field) list \<Rightarrow> nat" where
  "fields_size fs = sum_list (map (\<lambda>(ct, d). field_size d) fs)"

lemma emits_fields:
  assumes "fields_ok A fs"
  shows "emits A (fields_size fs) (rendFields fs)
    (\<lambda>D p q. \<forall>ll. unat ll = q - p \<longrightarrow>
       fieldsFromWire (map fst fs) (buf_at D p) ll = Ret (map (\<lambda>f. field_norm (snd f)) fs, 0, buf_at D q))"
  using assms
proof (induction fs rule: list.induct [case_names 1 2])
  case 1
  have "emits A 0 Ret (\<lambda>D p q. \<forall>ll. unat ll = q - p \<longrightarrow> Ret ([], ll, buf_at D p) = Ret ([], 0, buf_at D q))"
    by (rule emits_weaken [OF emits_Ret]) (auto simp: unat_eq_0)
  then show ?case by (simp add: fields_size_def eta_contract_eq)
next
  case (2 f fs)
  obtain ct d where f: "f = (ct, d)" by (cases f)
  let ?R = "\<lambda>fs D p q. \<forall>ll. unat ll = q - p \<longrightarrow>
      fieldsFromWire (map fst fs) (buf_at D p) ll = Ret (map (\<lambda>f. field_norm (snd f)) fs, 0, buf_at D q)"
  have ok: "field_ok A ct d" "greedy ct \<Longrightarrow> fs = []" "fields_ok A fs" using "2.prems" f by auto
  have "emits A (field_size d + fields_size fs) (\<lambda>r. gbind (rendField ct d r) (rendFields fs)) (?R ((ct, d) # fs))"
  proof (rule emits_weaken [OF emits_seq [OF emits_field [OF ok(1)] "2.IH" [OF ok(3)]]])
    fix D :: "byte list" and p q
    assume "\<exists>m. field_reads ct (field_norm d) D p m \<and> ?R fs D m q \<and> p \<le> m \<and> m \<le> q"
    then obtain m where m: "field_reads ct (field_norm d) D p m" "?R fs D m q" "p \<le> m" "m \<le> q" by blast
    show "?R ((ct, d) # fs) D p q"
    proof (intro allI impI)
      fix ll :: u16 assume ll: "unat ll = q - p"
      then have small: "q - m < 65536" "m - p \<le> unat ll" using unat_u16_less [of ll] m(3,4) by simp_all
      have "m = q" if "greedy ct"
        using m(2) [rule_format, of "word_of_nat (q - m)"] ok(2) [OF that] small by (auto simp: buf_at_def simp del: of_nat_diff)
      then have "fieldFromWire ct (buf_at D p) ll = Ret (field_norm d, ll - word_of_nat (m - p), buf_at D m)"
        using m(1) ll small unfolding field_reads_def by metis
      moreover have "unat (ll - word_of_nat (m - p)) = q - m" using unat_sub_u16 [OF small(2)] ll m(3,4) by simp
      ultimately show "fieldsFromWire (map fst ((ct, d) # fs)) (buf_at D p) ll = Ret (map (\<lambda>f. field_norm (snd f)) ((ct, d) # fs), 0, buf_at D q)"
        using m(2) by simp
    qed
  qed simp
  then show ?case by (simp add: f fields_size_def)
qed

section \<open>Record data\<close>

text \<open>A field that writes something.\<close>

primrec field_visible :: "field \<Rightarrow> bool" where
  "field_visible (FName n) \<longleftrightarrow> True"
| "field_visible (FUint8 d) \<longleftrightarrow> True"
| "field_visible (FUint16 d) \<longleftrightarrow> True"
| "field_visible (FUint32 d) \<longleftrightarrow> True"
| "field_visible (FIP d) \<longleftrightarrow> True"
| "field_visible (FBytes d) \<longleftrightarrow> d \<noteq> []"
| "field_visible (FString d) \<longleftrightarrow> True"
| "field_visible (FStrings ss) \<longleftrightarrow> ss \<noteq> []"

lemma emits_strings_visible: "ss \<noteq> [] \<Longrightarrow> emits A (sum_list (map (\<lambda>s. length s + 1) ss)) (\<lambda>r. Ret (fold rendBytes ss r)) (\<lambda>D p q. p < q)"
proof (induction ss)
  case (Cons s ss)
  have rest: "emits A (sum_list (map (\<lambda>s. length s + 1) ss)) (\<lambda>r. Ret (fold rendBytes ss r)) (\<lambda>D p q. True)"
  proof (cases "ss = []")
    case True
    then show ?thesis using emits_weaken [OF emits_Ret, of "\<lambda>_ _ _. True" 0] by (simp add: eta_contract_eq)
  next
    case False
    then show ?thesis by (rule emits_weaken [OF Cons.IH]) auto
  qed
  have "emits A (length s + 1 + sum_list (map (\<lambda>s. length s + 1) ss)) (\<lambda>r. gbind (Ret (rendBytes s r)) (\<lambda>r. Ret (fold rendBytes ss r))) (\<lambda>D p q. p < q)"
    by (rule emits_weaken [OF emits_seq [OF emits_rendBytes rest]]) auto
  then show ?case by simp
qed simp

lemma emits_field_visible:
  assumes "field_ok A ct d" "field_visible d"
  shows "emits A (field_size d) (rendField ct d) (\<lambda>D p q. p < q)"
proof (cases d)
  case (FName n)
  have "emits A 256 (\<lambda>r. WriteName r n c) (\<lambda>D p q. p < q)" for c
    by (rule emits_weaken [OF emits_name]) (use assms FName name_at_next in \<open>auto simp: name_ok_def\<close>)
  then show ?thesis using FName assms(1) by (auto simp: rendField_simps)
next
  case (FIP x)
  have "x \<noteq> [] \<Longrightarrow> emits A (length x) (\<lambda>r. Ret (Render_WriteData r x)) (\<lambda>D p q. p < q)"
    by (rule emits_weaken [OF emits_Data]) auto
  moreover have "x \<noteq> []" using FIP assms(1) by auto
  ultimately show ?thesis using FIP assms(1) by (auto simp: rendField_simps)
next
  case (FBytes x)
  have "x \<noteq> [] \<Longrightarrow> emits A (length x + 1) (\<lambda>r. Ret (Render_WriteData r x)) (\<lambda>D p q. p < q)"
    by (rule emits_weaken [OF emits_Data]) auto
  moreover have "emits A (length x + 1) (\<lambda>r. Ret (rendBytes x r)) (\<lambda>D p q. p < q)"
    by (rule emits_weaken [OF emits_rendBytes]) auto
  ultimately show ?thesis using FBytes assms by (auto simp: rendField_simps simp del: One_nat_def)
next
  case (FUint8 x)
  have "emits A 1 (\<lambda>r. Ret (Render_WriteUint8 r x)) (\<lambda>D p q. p < q)" by (rule emits_weaken [OF emits_Uint8]) auto
  then show ?thesis using FUint8 assms(1) by (simp add: rendField_simps)
next
  case (FUint16 x)
  have "emits A 2 (\<lambda>r. Ret (Render_WriteUint16 r x)) (\<lambda>D p q. p < q)" by (rule emits_weaken [OF emits_Uint16]) auto
  then show ?thesis using FUint16 assms(1) by (simp add: rendField_simps)
next
  case (FUint32 x)
  have "emits A 4 (\<lambda>r. Ret (Render_WriteUint32 r x)) (\<lambda>D p q. p < q)" by (rule emits_weaken [OF emits_Uint32]) auto
  then show ?thesis using FUint32 assms(1) by (simp add: rendField_simps)
qed (use assms emits_strings_visible in \<open>auto simp: rendField_simps simp del: One_nat_def\<close>)

text \<open>The fields of the types that are sequences of fields, as they are rendered.\<close>

fun rdata_fields :: "Rdata \<Rightarrow> (RDFCodingType \<times> field) list" where
  "rdata_fields (A_rdata ip) = [(RDF_C_IPV4, FIP ip)]"
| "rdata_fields (AAAA_rdata ip) = [(RDF_C_IPV6, FIP ip)]"
| "rdata_fields (CName_rdata n) = [(RDF_C_NAME, FName n)]"
| "rdata_fields (NS_rdata n) = [(RDF_C_NAME, FName n)]"
| "rdata_fields (PTR_rdata n) = [(RDF_C_NAME, FName n)]"
| "rdata_fields (DName_rdata n) = [(RDF_C_NAME, FName n)]"
| "rdata_fields (SOA_rdata soa) =
     [(RDF_C_NAME, FName (soa_MName soa)), (RDF_C_NAME, FName (soa_RName soa)),
      (RDF_C_UINT32, FUint32 (soa_Serial soa)), (RDF_C_UINT32, FUint32 (soa_Refresh soa)),
      (RDF_C_UINT32, FUint32 (soa_Retry soa)), (RDF_C_UINT32, FUint32 (soa_Expire soa)),
      (RDF_C_UINT32, FUint32 (soa_Minimum soa))]"
| "rdata_fields (MX_rdata mx) = [(RDF_C_UINT16, FUint16 (mx_Preference mx)), (RDF_C_NAME, FName (mx_Exchange mx))]"
| "rdata_fields (SRV_rdata srv) =
     [(RDF_C_UINT16, FUint16 (srv_Priority srv)), (RDF_C_UINT16, FUint16 (srv_Weight srv)),
      (RDF_C_UINT16, FUint16 (srv_Port srv)), (RDF_C_NAME_UNCOMPRESS, FName (srv_Target srv))]"
| "rdata_fields (Txt_rdata d) = [(RDF_C_TXT, FStrings d)]"
| "rdata_fields (SPF_rdata d) = [(RDF_C_TXT, FStrings d)]"
| "rdata_fields (RP_rdata rp) = [(RDF_C_NAME, FName (rp_Mbox rp)), (RDF_C_NAME, FName (rp_Txt rp))]"
| "rdata_fields (HINFO_rdata h) = [(RDF_C_BYTE_BINARY, FBytes (hinfo_CPU h)), (RDF_C_BYTE_BINARY, FBytes (hinfo_OS h))]"
| "rdata_fields (NAPTR_rdata n) =
     [(RDF_C_UINT16, FUint16 (naptr_Order n)), (RDF_C_UINT16, FUint16 (naptr_Preference n)),
      (RDF_C_BYTE_BINARY, FBytes (naptr_Flags n)), (RDF_C_BYTE_BINARY, FBytes (naptr_Services n)),
      (RDF_C_BYTE_BINARY, FBytes (naptr_Regexp n)), (RDF_C_NAME, FName (naptr_Replacement n))]"
| "rdata_fields (DS_rdata ds) =
     [(RDF_C_UINT16, FUint16 (ds_KeyTag ds)), (RDF_C_UINT8, FUint8 (ds_Algorithm ds)),
      (RDF_C_UINT8, FUint8 (ds_DigestType ds)), (RDF_C_BINARY, FBytes (encodeStringToHex (ds_Digest ds)))]"
| "rdata_fields (OPT_rdata d) = [(RDF_C_BINARY, FBytes d)]"
| "rdata_fields (RRSig_rdata s) =
     [(RDF_C_UINT16, FUint16 (sig_Covered s)), (RDF_C_UINT8, FUint8 (sig_Algorithm s)),
      (RDF_C_UINT8, FUint8 (sig_Labels s)), (RDF_C_UINT32, FUint32 (sig_OriginalTtl s)),
      (RDF_C_UINT32, FUint32 (sig_SigExpire s)), (RDF_C_UINT32, FUint32 (sig_Inception s)),
      (RDF_C_UINT16, FUint16 (sig_Tag s)), (RDF_C_NAME, FName (sig_Signer s)),
      (RDF_C_BINARY, FBytes (sig_Signature s))]"
| "rdata_fields _ = []"

primrec rdata_type :: "Rdata \<Rightarrow> RRType" where
  "rdata_type (A_rdata _) = RR_A"
| "rdata_type (AAAA_rdata _) = RR_AAAA"
| "rdata_type (CName_rdata _) = RR_CNAME"
| "rdata_type (NS_rdata _) = RR_NS"
| "rdata_type (PTR_rdata _) = RR_PTR"
| "rdata_type (DName_rdata _) = RR_DNAME"
| "rdata_type (SOA_rdata _) = RR_SOA"
| "rdata_type (MX_rdata _) = RR_MX"
| "rdata_type (SRV_rdata _) = RR_SRV"
| "rdata_type (Txt_rdata _) = RR_TXT"
| "rdata_type (SPF_rdata _) = RR_SPF"
| "rdata_type (RP_rdata _) = RR_RP"
| "rdata_type (HINFO_rdata _) = RR_HINFO"
| "rdata_type (NAPTR_rdata _) = RR_NAPTR"
| "rdata_type (DS_rdata _) = RR_DS"
| "rdata_type (OPT_rdata _) = RR_OPT"
| "rdata_type (RRSig_rdata _) = RR_RRSIG"
| "rdata_type (NSEC3_rdata _) = RR_NSEC3"
| "rdata_type (TSIG_rdata _) = RR_TSIG"

primrec rdata_norm :: "Rdata \<Rightarrow> Rdata" where
  "rdata_norm (A_rdata ip) = A_rdata ip"
| "rdata_norm (AAAA_rdata ip) = AAAA_rdata ip"
| "rdata_norm (CName_rdata n) = CName_rdata (name_norm n)"
| "rdata_norm (NS_rdata n) = NS_rdata (name_norm n)"
| "rdata_norm (PTR_rdata n) = PTR_rdata (name_norm n)"
| "rdata_norm (DName_rdata n) = DName_rdata (name_norm n)"
| "rdata_norm (SOA_rdata soa) = SOA_rdata (soa\<lparr>soa_MName := name_norm (soa_MName soa), soa_RName := name_norm (soa_RName soa)\<rparr>)"
| "rdata_norm (MX_rdata mx) = MX_rdata (mx\<lparr>mx_Exchange := name_norm (mx_Exchange mx)\<rparr>)"
| "rdata_norm (SRV_rdata srv) = SRV_rdata (srv\<lparr>srv_Target := name_norm (srv_Target srv)\<rparr>)"
| "rdata_norm (Txt_rdata d) = Txt_rdata d"
| "rdata_norm (SPF_rdata d) = SPF_rdata d"
| "rdata_norm (RP_rdata rp) = RP_rdata \<lparr>rp_Mbox = name_norm (rp_Mbox rp), rp_Txt = name_norm (rp_Txt rp)\<rparr>"
| "rdata_norm (HINFO_rdata h) = HINFO_rdata h"
| "rdata_norm (NAPTR_rdata n) = NAPTR_rdata (n\<lparr>naptr_Replacement := name_norm (naptr_Replacement n)\<rparr>)"
| "rdata_norm (DS_rdata ds) = DS_rdata (ds\<lparr>ds_Digest := hex_EncodeToString (encodeStringToHex (ds_Digest ds))\<rparr>)"
| "rdata_norm (OPT_rdata d) = OPT_rdata d"
| "rdata_norm (RRSig_rdata s) = RRSig_rdata (s\<lparr>sig_Signer := name_norm (sig_Signer s)\<rparr>)"
| "rdata_norm (NSEC3_rdata n) = NSEC3_rdata n"
| "rdata_norm (TSIG_rdata t) = TSIG_rdata t"

definition rdata_ok :: "byte set \<Rightarrow> Rdata \<Rightarrow> bool" where
  "rdata_ok A x \<longleftrightarrow> rdata_fields x \<noteq> [] \<and> fields_ok A (rdata_fields x) \<and>
     field_visible (snd (hd (rdata_fields x))) \<and> fields_size (rdata_fields x) < 65536"

lemma gbind_Ret [simp]: "gbind m Ret = m"
  by (cases m) simp_all

lemma rendFields_Nil: "rendFields [] = Ret"
  by (simp add: fun_eq_iff)

lemma rendFields_Cons: "rendFields ((ct, d) # fs) = (\<lambda>r. gbind (rendField ct d r) (rendFields fs))"
  by (simp add: fun_eq_iff)

lemma Rdata_Rend_fields: "rdata_fields x \<noteq> [] \<Longrightarrow> Rdata_Rend now x = rendFields (rdata_fields x)"
  by (cases x) (simp_all add: fun_eq_iff rendFields_Nil A_Rend_def AAAA_Rend_def CName_Rend_def NS_Rend_def PTR_Rend_def
      DName_Rend_def SOA_Rend_def MX_Rend_def SRV_Rend_def Txt_Rend_def SPF_Rend_def RP_Rend_def HINFO_Rend_def
      NAPTR_Rend_def DS_Rend_def OPT_Rend_def RRSig_Rend_def)


lemma fieldFromWire_uncompressed: "fieldFromWire RDF_C_NAME_UNCOMPRESS = fieldFromWire RDF_C_NAME"
  by (simp add: fun_eq_iff fieldFromWire_def)

lemmas FromWire_defs = AFromWire_def AAAAFromWire_def CNameFromWire_def NSFromWire_def PTRFromWire_def DNameFromWire_def
  SOAFromWire_def MXFromWire_def SRVFromWire_def TxtFromWire_def SPFFromWire_def RPFromWire_def HINFOFromWire_def
  NAPTRFromWire_def DSFromWire_def OPTFromWire_def RRSigFromWire_def

lemma RdataFromWire_fields:
  assumes "ReadUint16 buf = Ret (rdlen, buf1)" "rdlen \<noteq> 0" "rdata_fields x \<noteq> []"
    and "fieldsFromWire (map fst (rdata_fields x)) buf1 rdlen = Ret (map (\<lambda>f. field_norm (snd f)) (rdata_fields x), 0, buf2)"
  shows "RdataFromWire (rdata_type x) buf = Ret (Some (rdata_norm x), buf2)"
  using assms
  by (cases x) (auto simp: RdataFromWire_def as_rdata_def FromWire_defs gbind_eq_Ret_iff fieldFromWire_uncompressed)


lemma emits_rdata:
  assumes "rdata_ok A x"
  shows "emits A (fields_size (rdata_fields x)) (Rdata_Rend now x) (\<lambda>D p q. p < q \<and> (\<forall>ll. unat ll = q - p \<longrightarrow>
    fieldsFromWire (map fst (rdata_fields x)) (buf_at D p) ll = Ret (map (\<lambda>f. field_norm (snd f)) (rdata_fields x), 0, buf_at D q)))"
proof -
  obtain ct d fs where x: "rdata_fields x = (ct, d) # fs" using assms by (cases "rdata_fields x") (auto simp: rdata_ok_def)
  then have ok: "fields_ok A ((ct, d) # fs)" "field_visible d" using assms by (auto simp: rdata_ok_def)
  have "emits A (field_size d + fields_size fs) (\<lambda>r. gbind (rendField ct d r) (rendFields fs)) (\<lambda>D p q. p < q)"
    by (rule emits_weaken [OF emits_seq [OF emits_field_visible [of A ct d] emits_fields [of A fs]]]) (use ok in auto)
  then have "emits A (fields_size (rdata_fields x)) (rendFields (rdata_fields x)) (\<lambda>D p q. p < q)"
    unfolding x by (simp add: fields_size_def rendFields_Cons)
  then show ?thesis
    using emits_conj emits_fields [of A "rdata_fields x"] Rdata_Rend_fields [of x now] x ok(1) by simp
qed

interpretation rdata_rend: rend_codec A "\<lambda>x. with_length (Rdata_Rend now x)" "RdataFromWire t"
  "\<lambda>x. rdata_ok A x \<and> rdata_type x = t" "\<lambda>x. Some (rdata_norm x)" "\<lambda>x. fields_size (rdata_fields x) + 2" for A now t
proof
  fix x assume x: "rdata_ok A x \<and> rdata_type x = t"
  then have ok: "rdata_ok A x" "rdata_fields x \<noteq> []" and small: "fields_size (rdata_fields x) < 65536" by (auto simp: rdata_ok_def)
  show "emits A (fields_size (rdata_fields x) + 2) (with_length (Rdata_Rend now x)) (reads (RdataFromWire t) (Some (rdata_norm x)))"
  proof (rule emits_weaken [OF emits_with_length [OF emits_rdata [OF ok(1)]]], goal_cases)
    case (1 D p q)
    let ?len = "word_of_nat (q - p - 2) :: u16"
    have len: "unat ?len = q - (p + 2)" using 1 small by (simp del: of_nat_diff)
    have "ReadUint16 (buf_at D p) = Ret (?len, buf_at D (p + 2))"
      using u16.reads_bytes_at [where x = ?len and D = D and p = p] 1 by (simp add: reads_def del: of_nat_diff)
    moreover have "?len \<noteq> 0" using len 1 unat_eq_0 [of ?len] by linarith
    ultimately show ?case
      using RdataFromWire_fields [of "buf_at D p" ?len "buf_at D (p + 2)" x "buf_at D q"] 1 len ok(2) x by (simp add: reads_def)
  qed simp
qed

end
