(* ===== verification/RRset.thy ===== *)
theory RRset
  imports Rdata_Iface
begin

text \<open>
  \<open>src/g53/rrset.go\<close> and \<open>question.go\<close>: types, classes and TTLs on the wire, resource record sets
  and questions. An RRset is an owner name, type, class and TTL with a list of record data; on
  the wire it is one record per data, or one record with no data when the list is empty.
\<close>

section \<open>Types, classes, TTLs\<close>

abbreviation CLASS_IN :: RRClass where "CLASS_IN \<equiv> 1"
abbreviation CLASS_NONE :: RRClass where "CLASS_NONE \<equiv> 254"
abbreviation RR_IXFR :: RRType where "RR_IXFR \<equiv> 251"
abbreviation RR_AXFR :: RRType where "RR_AXFR \<equiv> 252"
abbreviation RR_ANY :: RRType where "RR_ANY \<equiv> 255"

definition TTLFromWire :: "InputBuffer \<Rightarrow> (g53_error, RRTTL \<times> InputBuffer) go" where
  "TTLFromWire buf = ReadUint32 buf"

definition TTL_Rend :: "RRTTL \<Rightarrow> MsgRender \<Rightarrow> MsgRender" where
  "TTL_Rend ttl render = Render_WriteUint32 render ttl"

definition TTL_ToWire :: "RRTTL \<Rightarrow> OutputBuffer \<Rightarrow> OutputBuffer" where
  "TTL_ToWire ttl out = WriteUint32 out ttl"

definition ClassFromWire :: "InputBuffer \<Rightarrow> (g53_error, RRClass \<times> InputBuffer) go" where
  "ClassFromWire buf = ReadUint16 buf"

definition Class_Rend :: "RRClass \<Rightarrow> MsgRender \<Rightarrow> MsgRender" where
  "Class_Rend cls render = Render_WriteUint16 render cls"

definition Class_ToWire :: "RRClass \<Rightarrow> OutputBuffer \<Rightarrow> OutputBuffer" where
  "Class_ToWire cls out = WriteUint16 out cls"

definition TypeFromWire :: "InputBuffer \<Rightarrow> (g53_error, RRType \<times> InputBuffer) go" where
  "TypeFromWire buf = ReadUint16 buf"

definition Type_Rend :: "RRType \<Rightarrow> MsgRender \<Rightarrow> MsgRender" where
  "Type_Rend t render = Render_WriteUint16 render t"

definition Type_ToWire :: "RRType \<Rightarrow> OutputBuffer \<Rightarrow> OutputBuffer" where
  "Type_ToWire t out = WriteUint16 out t"

section \<open>Questions\<close>

record Question =
  q_Name :: Name
  q_Type :: RRType
  q_Class :: RRClass

definition QuestionFromWire :: "InputBuffer \<Rightarrow> (g53_error, Question \<times> InputBuffer) go" where
  "QuestionFromWire buf =
     gbind (NameFromWire buf False) (\<lambda>(n, buf).
     gbind (TypeFromWire buf) (\<lambda>(t, buf).
     gbind (ClassFromWire buf) (\<lambda>(cls, buf).
     Ret (\<lparr>q_Name = n, q_Type = t, q_Class = cls\<rparr>, buf))))"

definition Question_Rend :: "Question \<Rightarrow> MsgRender \<Rightarrow> (g53_error, MsgRender) go" where
  "Question_Rend q r =
     gbind (Name_Rend (q_Name q) r) (\<lambda>r.
     Ret (Class_Rend (q_Class q) (Type_Rend (q_Type q) r)))"

definition Question_ToWire :: "Question \<Rightarrow> OutputBuffer \<Rightarrow> OutputBuffer" where
  "Question_ToWire q out = Class_ToWire (q_Class q) (Type_ToWire (q_Type q) (Name_ToWire (q_Name q) out))"

definition Question_Equals :: "Question \<Rightarrow> Question \<Rightarrow> (g53_error, bool) go" where
  "Question_Equals q other =
     gbind (Equals (q_Name q) (q_Name other)) (\<lambda>eq.
     Ret (eq \<and> q_Type q = q_Type other \<and> q_Class q = q_Class other))"

section \<open>RRsets\<close>

record RRset =
  rr_Name :: Name
  rr_Type :: RRType
  rr_Class :: RRClass
  rr_Ttl :: RRTTL
  rr_Rdatas :: "Rdata list"

definition RRsetFromWire :: "InputBuffer \<Rightarrow> (g53_error, RRset \<times> InputBuffer) go" where
  "RRsetFromWire buf =
     gbind (NameFromWire buf False) (\<lambda>(name, buf).
     gbind (TypeFromWire buf) (\<lambda>(typ, buf).
     gbind (ClassFromWire buf) (\<lambda>(cls, buf).
     gbind (TTLFromWire buf) (\<lambda>(ttl, buf).
     gbind (RdataFromWire typ buf) (\<lambda>(rdata, buf).
     let rdatas = (case rdata of None \<Rightarrow> [] | Some d \<Rightarrow> [d])
     in Ret (\<lparr>rr_Name = name, rr_Type = typ, rr_Class = cls, rr_Ttl = ttl, rr_Rdatas = rdatas\<rparr>, buf))))))"

definition rr_header_Rend :: "RRset \<Rightarrow> MsgRender \<Rightarrow> (g53_error, MsgRender) go" where
  "rr_header_Rend rrset r =
     gbind (Name_Rend (rr_Name rrset) r) (\<lambda>r.
     Ret (TTL_Rend (rr_Ttl rrset) (Class_Rend (rr_Class rrset) (Type_Rend (rr_Type rrset) r))))"

fun rdatas_Rend :: "64 word \<Rightarrow> RRset \<Rightarrow> Rdata list \<Rightarrow> MsgRender \<Rightarrow> (g53_error, MsgRender) go" where
  "rdatas_Rend now rrset [] r = Ret r"
| "rdatas_Rend now rrset (rdata # rdatas) r =
     gbind (rr_header_Rend rrset r) (\<lambda>r.
     let p = length (odata (rbuf r)) in
     gbind (Rdata_Rend now rdata (Render_Skip r 2)) (\<lambda>r.
     gbind (patch_length r (word_of_nat (usub (usub (length (odata (rbuf r))) p) 2)) p) (\<lambda>r.
     rdatas_Rend now rrset rdatas r)))"

definition RRset_Rend :: "64 word \<Rightarrow> RRset \<Rightarrow> MsgRender \<Rightarrow> (g53_error, MsgRender) go" where
  "RRset_Rend now rrset r =
     (if rr_Rdatas rrset = [] then
        gbind (rr_header_Rend rrset r) (\<lambda>r. Ret (Render_WriteUint16 r 0))
      else rdatas_Rend now rrset (rr_Rdatas rrset) r)"

definition rr_header_ToWire :: "RRset \<Rightarrow> OutputBuffer \<Rightarrow> OutputBuffer" where
  "rr_header_ToWire rrset out =
     TTL_ToWire (rr_Ttl rrset) (Class_ToWire (rr_Class rrset) (Type_ToWire (rr_Type rrset)
       (Name_ToWire (rr_Name rrset) out)))"

fun rdatas_ToWire :: "RRset \<Rightarrow> Rdata list \<Rightarrow> OutputBuffer \<Rightarrow> (g53_error, OutputBuffer) go" where
  "rdatas_ToWire rrset [] out = Ret out"
| "rdatas_ToWire rrset (rdata # rdatas) out =
     (let out = rr_header_ToWire rrset out;
          p = length (odata out)
      in gbind (Rdata_ToWire rdata (Out_Skip out 2)) (\<lambda>out.
         gbind (case WriteUint16At out (word_of_nat (usub (usub (length (odata out)) p) 2)) p of
                  Err _ \<Rightarrow> Ret out | res \<Rightarrow> res) (\<lambda>out.
         rdatas_ToWire rrset rdatas out)))"

definition RRset_ToWire :: "RRset \<Rightarrow> OutputBuffer \<Rightarrow> (g53_error, OutputBuffer) go" where
  "RRset_ToWire rrset out =
     (if rr_Rdatas rrset = [] then Ret (WriteUint16 (rr_header_ToWire rrset out) 0)
      else rdatas_ToWire rrset (rr_Rdatas rrset) out)"

definition RRCount :: "RRset \<Rightarrow> nat" where
  "RRCount rrset = length (rr_Rdatas rrset)"

definition IsSameRRset :: "RRset \<Rightarrow> RRset \<Rightarrow> (g53_error, bool) go" where
  "IsSameRRset rrset other =
     (if rr_Type rrset = rr_Type other then Equals (rr_Name rrset) (rr_Name other) else Ret False)"

text \<open>
  \<open>sort.Sort\<close> on a slice of record data. Up to twelve elements the library runs insertion sort,
  which is the model; for longer slices it promises a sorted permutation only, of which the model
  takes the stable one.
\<close>

fun rdata_insert :: "Rdata \<Rightarrow> Rdata list \<Rightarrow> (g53_error, Rdata list) go" where
  "rdata_insert x [] = Ret [x]"
| "rdata_insert x (y # ys) =
     gbind (Rdata_Compare x y) (\<lambda>c.
     if c < 0 then gbind (rdata_insert x ys) (\<lambda>zs. Ret (y # zs)) else Ret (x # y # ys))"

fun rdata_sort :: "Rdata list \<Rightarrow> Rdata list \<Rightarrow> (g53_error, Rdata list) go" where
  "rdata_sort done [] = Ret (rev done)"
| "rdata_sort done (x # xs) = gbind (rdata_insert x done) (\<lambda>done. rdata_sort done xs)"

definition SortRdata :: "RRset \<Rightarrow> (g53_error, RRset) go" where
  "SortRdata rrset = gbind (rdata_sort [] (rr_Rdatas rrset)) (\<lambda>ds. Ret (rrset\<lparr>rr_Rdatas := ds\<rparr>))"

definition Clone :: "RRset \<Rightarrow> RRset" where
  "Clone rrset = \<lparr>rr_Name = rr_Name rrset, rr_Type = rr_Type rrset, rr_Class = rr_Class rrset,
                  rr_Ttl = rr_Ttl rrset, rr_Rdatas = rr_Rdatas rrset\<rparr>"

fun rdatas_equal :: "Rdata list \<Rightarrow> Rdata list \<Rightarrow> (g53_error, bool) go" where
  "rdatas_equal (x # xs) (y # ys) =
     gbind (Rdata_Compare x y) (\<lambda>c. if c \<noteq> 0 then Ret False else rdatas_equal xs ys)"
| "rdatas_equal [] _ = Ret True"
| "rdatas_equal (_ # _) [] = Panic"

definition RRset_Equals :: "RRset \<Rightarrow> RRset \<Rightarrow> (g53_error, bool) go" where
  "RRset_Equals rrset other =
     gbind (IsSameRRset rrset other) (\<lambda>same.
     if \<not> same then Ret False
     else if length (rr_Rdatas rrset) \<noteq> length (rr_Rdatas other) then Ret False
     else if rr_Rdatas rrset = [] then Ret True
     else
       gbind (SortRdata (Clone rrset)) (\<lambda>selfClone.
       gbind (SortRdata (Clone other)) (\<lambda>otherClone.
       rdatas_equal (rr_Rdatas selfClone) (rr_Rdatas otherClone))))"

text \<open>The index of the first stored data equal to the given one.\<close>

fun find_rdata :: "Rdata list \<Rightarrow> Rdata \<Rightarrow> nat \<Rightarrow> (g53_error, nat option) go" where
  "find_rdata [] d i = Ret None"
| "find_rdata (x # xs) d i = gbind (Rdata_Compare x d) (\<lambda>c. if c = 0 then Ret (Some i) else find_rdata xs d (i + 1))"

definition AddRdata :: "RRset \<Rightarrow> Rdata \<Rightarrow> (g53_error, RRset) go" where
  "AddRdata rrset rdata =
     gbind (find_rdata (rr_Rdatas rrset) rdata 0) (\<lambda>found.
     if found \<noteq> None then Err DuplicateRdata
     else Ret (rrset\<lparr>rr_Rdatas := rr_Rdatas rrset @ [rdata]\<rparr>))"

definition RemoveRdata :: "RRset \<Rightarrow> Rdata \<Rightarrow> (g53_error, RRset \<times> bool) go" where
  "RemoveRdata rrset rdata =
     gbind (find_rdata (rr_Rdatas rrset) rdata 0) (\<lambda>found.
     case found of
       None \<Rightarrow> Ret (rrset, False)
     | Some i \<Rightarrow>
         let rdatas = rr_Rdatas rrset in
         Ret (rrset\<lparr>rr_Rdatas := (if length rdatas = 1 then [] else take i rdatas @ drop (i + 1) rdatas)\<rparr>, True))"

definition RotateRdata :: "RRset \<Rightarrow> RRset" where
  "RotateRdata rrset =
     (let rrCount = RRCount rrset in
      if rrCount < 2 then rrset
      else rrset\<lparr>rr_Rdatas := [rr_Rdatas rrset ! (rrCount - 1)] @ take (rrCount - 1) (rr_Rdatas rrset)\<rparr>)"

end
