(* ===== verification/RRset_Codec.thy ===== *)
theory RRset_Codec
  imports Rdata_Codec RRset
begin

text \<open>
  What questions and RRsets write is what their decoders read: the owner name up to case, the rest
  as it was, record data in lower case. A sequence of records, grouped by name and type as a section
  is, gives the RRsets back.
\<close>

lemmas u16_emits = u16_rend.rend_reads [OF TrueI] and u32_emits = u32_rend.rend_reads [OF TrueI]

section \<open>Questions\<close>

definition question_alike :: "byte set \<Rightarrow> Question \<Rightarrow> Question \<Rightarrow> bool" where
  "question_alike A q q' \<longleftrightarrow> name_alike A (q_Name q) (q_Name q') \<and> q_Type q' = q_Type q \<and> q_Class q' = q_Class q"

lemma Type_rend_eq: "Type_Rend t r = Render_WriteUint16 r t" "Class_Rend c r = Render_WriteUint16 r c" "TTL_Rend l r = Render_WriteUint32 r l"
  by (simp_all add: Type_Rend_def Class_Rend_def TTL_Rend_def)

interpretation question_rend: rend_rel A Question_Rend QuestionFromWire "\<lambda>q. name_ok A (q_Name q)" "question_alike A" "\<lambda>_. 260" for A
proof
  fix q :: Question assume ok: "name_ok A (q_Name q)"
  have eq: "Question_Rend q = (\<lambda>r. gbind (Name_Rend (q_Name q) r) (\<lambda>r.
      gbind (Ret (Render_WriteUint16 r (q_Type q))) (\<lambda>r. Ret (Render_WriteUint16 r (q_Class q)))))"
    by (simp add: fun_eq_iff Question_Rend_def Type_rend_eq)
  show "emits A 260 (Question_Rend q) (\<lambda>D p m. \<exists>y. question_alike A q y \<and> reads QuestionFromWire y D p m)"
    unfolding eq
  proof (rule emits_weaken [OF emits_seq [OF owner_rend.rend_rel_reads [OF ok] emits_seq [OF u16_emits u16_emits]]], goal_cases)
    case (1 D p m)
    then obtain n a b where "name_alike A (q_Name q) n" "reads (\<lambda>buf. NameFromWire buf False) n D p a"
      "reads ReadUint16 (q_Type q) D a b" "reads ReadUint16 (q_Class q) D b m" by blast
    then show ?case
      by (intro exI [of _ "\<lparr>q_Name = n, q_Type = q_Type q, q_Class = q_Class q\<rparr>"])
        (simp add: question_alike_def reads_def QuestionFromWire_def TypeFromWire_def ClassFromWire_def)
  qed simp
qed

section \<open>RRsets\<close>

definition rrset_ok :: "byte set \<Rightarrow> RRset \<Rightarrow> bool" where
  "rrset_ok A x \<longleftrightarrow> name_ok A (rr_Name x) \<and> list_all (\<lambda>d. rdata_ok A d \<and> rdata_type d = rr_Type x) (rr_Rdatas x)"

definition rrset_alike :: "byte set \<Rightarrow> RRset \<Rightarrow> RRset \<Rightarrow> bool" where
  "rrset_alike A x y \<longleftrightarrow> name_alike A (rr_Name x) (rr_Name y) \<and> rr_Type y = rr_Type x \<and> rr_Class y = rr_Class x \<and>
     rr_Ttl y = rr_Ttl x \<and> rr_Rdatas y = map rdata_norm (rr_Rdatas x)"

text \<open>The header of a record, up to its length field.\<close>

definition reads_rr_header :: "RRset \<Rightarrow> Name \<Rightarrow> byte list \<Rightarrow> nat \<Rightarrow> nat \<Rightarrow> bool" where
  "reads_rr_header x n D p q \<longleftrightarrow> (\<exists>a b c. reads (\<lambda>buf. NameFromWire buf False) n D p a \<and> reads TypeFromWire (rr_Type x) D a b \<and>
     reads ClassFromWire (rr_Class x) D b c \<and> reads TTLFromWire (rr_Ttl x) D c q)"

lemma emits_rr_header:
  assumes "name_ok A (rr_Name x)"
  shows "emits A 264 (rr_header_Rend x) (\<lambda>D p q. \<exists>n. name_alike A (rr_Name x) n \<and> reads_rr_header x n D p q)"
proof -
  have eq: "rr_header_Rend x = (\<lambda>r. gbind (Name_Rend (rr_Name x) r) (\<lambda>r. gbind (Ret (Render_WriteUint16 r (rr_Type x))) (\<lambda>r.
      gbind (Ret (Render_WriteUint16 r (rr_Class x))) (\<lambda>r. Ret (Render_WriteUint32 r (rr_Ttl x))))))"
    by (simp add: fun_eq_iff rr_header_Rend_def Type_rend_eq)
  show ?thesis unfolding eq
  proof (rule emits_weaken [OF emits_seq [OF owner_rend.rend_rel_reads [OF assms]
        emits_seq [OF u16_emits emits_seq [OF u16_emits u32_emits]]]])
    fix D :: "byte list" and p q assume "\<exists>m. (\<exists>y. name_alike A (rr_Name x) y \<and> reads (\<lambda>buf. NameFromWire buf False) y D p m) \<and>
        (\<exists>ma. reads ReadUint16 (rr_Type x) D m ma \<and> (\<exists>mb. reads ReadUint16 (rr_Class x) D ma mb \<and>
          reads ReadUint32 (rr_Ttl x) D mb q \<and> ma \<le> mb \<and> mb \<le> q) \<and> m \<le> ma \<and> ma \<le> q) \<and> p \<le> m \<and> m \<le> q"
    then show "\<exists>n. name_alike A (rr_Name x) n \<and> reads_rr_header x n D p q" unfolding reads_rr_header_def TypeFromWire_def ClassFromWire_def TTLFromWire_def reads_def by blast
  qed simp
qed

lemma reads_RRset:
  assumes "reads_rr_header x n D p m" "reads (RdataFromWire (rr_Type x)) d D m q"
  shows "reads RRsetFromWire (x\<lparr>rr_Name := n, rr_Rdatas := (case d of None \<Rightarrow> [] | Some d \<Rightarrow> [d])\<rparr>) D p q"
  using assms unfolding reads_rr_header_def reads_def RRsetFromWire_def by (cases x) (auto simp: Let_def)


lemma with_length_eta:
  "with_length f = (\<lambda>r. let p = rlen r in gbind (f (Render_Skip r 2)) (\<lambda>r. patch_length r (word_of_nat (usub (usub (rlen r) p) 2)) p))"
  by (simp add: fun_eq_iff with_length_def)

lemma rdatas_Rend_Nil: "rdatas_Rend now x [] = Ret"
  by (simp add: fun_eq_iff)

text \<open>One record: an RRset with at most one data.\<close>

lemma emits_record:
  assumes "rrset_ok A x" "rr_Rdatas x = [] \<or> rr_Rdatas x = [d]"
  shows "emits A (266 + (if rr_Rdatas x = [] then 0 else fields_size (rdata_fields d))) (RRset_Rend now x)
    (\<lambda>D p q. \<exists>y. rrset_alike A x y \<and> reads RRsetFromWire y D p q)"
proof (cases "rr_Rdatas x = []")
  case True
  have n: "name_ok A (rr_Name x)" using assms(1) by (simp add: rrset_ok_def)
  have eq: "RRset_Rend now x = (\<lambda>r. gbind (rr_header_Rend x r) (\<lambda>r. Ret (Render_WriteUint16 r 0)))"
    using True by (simp add: fun_eq_iff RRset_Rend_def)
  have "emits A 266 (RRset_Rend now x) (\<lambda>D p q. \<exists>y. rrset_alike A x y \<and> reads RRsetFromWire y D p q)"
    unfolding eq
  proof (rule emits_weaken [OF emits_seq [OF emits_rr_header [OF n] u16_emits]])
    fix D :: "byte list" and p q
    assume "\<exists>m. (\<exists>n. name_alike A (rr_Name x) n \<and> reads_rr_header x n D p m) \<and> reads ReadUint16 0 D m q \<and> p \<le> m \<and> m \<le> q"
    then obtain m n where m: "name_alike A (rr_Name x) n" "reads_rr_header x n D p m" "reads ReadUint16 0 D m q" by blast
    then have "reads (RdataFromWire (rr_Type x)) None D m q" by (simp add: reads_def RdataFromWire_def)
    from reads_RRset [OF m(2) this] m(1) True show "\<exists>y. rrset_alike A x y \<and> reads RRsetFromWire y D p q"
      by (intro exI [of _ "x\<lparr>rr_Name := n, rr_Rdatas := []\<rparr>"]) (simp add: rrset_alike_def)
  qed simp
  then show ?thesis using True by simp
next
  case False
  then have d: "rr_Rdatas x = [d]" using assms(2) by simp
  have n: "name_ok A (rr_Name x)" and ok: "rdata_ok A d \<and> rdata_type d = rr_Type x" using assms(1) d by (auto simp: rrset_ok_def)
  have eq: "RRset_Rend now x = (\<lambda>r. gbind (rr_header_Rend x r) (with_length (Rdata_Rend now d)))"
    using d by (simp add: fun_eq_iff RRset_Rend_def with_length_eta rdatas_Rend_Nil Let_def gbind_assoc)
  have "emits A (264 + (fields_size (rdata_fields d) + 2)) (RRset_Rend now x) (\<lambda>D p q. \<exists>y. rrset_alike A x y \<and> reads RRsetFromWire y D p q)"
    unfolding eq
  proof (rule emits_weaken [OF emits_seq [OF emits_rr_header [OF n] rdata_rend.rend_reads [OF ok]]])
    fix D :: "byte list" and p q
    assume "\<exists>m. (\<exists>n. name_alike A (rr_Name x) n \<and> reads_rr_header x n D p m) \<and> reads (RdataFromWire (rr_Type x)) (Some (rdata_norm d)) D m q \<and> p \<le> m \<and> m \<le> q"
    then obtain m n where m: "name_alike A (rr_Name x) n" "reads_rr_header x n D p m" "reads (RdataFromWire (rr_Type x)) (Some (rdata_norm d)) D m q" by blast
    from reads_RRset [OF m(2,3)] m(1) d show "\<exists>y. rrset_alike A x y \<and> reads RRsetFromWire y D p q"
      by (intro exI [of _ "x\<lparr>rr_Name := n, rr_Rdatas := [rdata_norm d]\<rparr>"]) (simp add: rrset_alike_def)
  qed simp
  then show ?thesis using d by (simp add: add.commute)
qed

text \<open>The records of an RRset.\<close>

definition records :: "RRset \<Rightarrow> RRset list" where
  "records x = (if rr_Rdatas x = [] then [x] else map (\<lambda>d. x\<lparr>rr_Rdatas := [d]\<rparr>) (rr_Rdatas x))"

lemma rdatas_Rend_records:
  "rdatas_Rend now x ds = rend_many (RRset_Rend now) (map (\<lambda>d. x\<lparr>rr_Rdatas := [d]\<rparr>) ds)"
proof (induction ds)
  case (Cons d ds)
  have "rr_header_Rend (x\<lparr>rr_Rdatas := ds\<rparr>) r = rr_header_Rend x r" for ds r by (simp add: rr_header_Rend_def)
  then show ?case by (simp add: fun_eq_iff Cons.IH RRset_Rend_def rdatas_Rend_Nil gbind_assoc Let_def)
qed (simp add: fun_eq_iff)

lemma RRset_Rend_records: "RRset_Rend now x = rend_many (RRset_Rend now) (records x)"
  by (cases "rr_Rdatas x = []") (simp_all add: fun_eq_iff records_def rend_many_Nil RRset_Rend_def rdatas_Rend_records)

definition record_size :: "RRset \<Rightarrow> nat" where
  "record_size x = 266 + sum_list (map (\<lambda>d. fields_size (rdata_fields d)) (rr_Rdatas x))"

interpretation record_rend: rend_rel A "RRset_Rend now" RRsetFromWire "\<lambda>x. rrset_ok A x \<and> length (rr_Rdatas x) \<le> 1" "rrset_alike A" record_size for A now
proof
  fix x assume x: "rrset_ok A x \<and> length (rr_Rdatas x) \<le> 1"
  then obtain d where "rr_Rdatas x = [] \<or> rr_Rdatas x = [d]" by (cases "rr_Rdatas x") auto
  with x emits_record [of A x d now] show "emits A (record_size x) (RRset_Rend now x) (\<lambda>D p q. \<exists>y. rrset_alike A x y \<and> reads RRsetFromWire y D p q)"
    by (auto simp: record_size_def)
qed

section \<open>Sections\<close>

text \<open>
  The loop of \<open>sectionFromWire\<close> without the reading: it joins a record to the RRset before it when
  name and type agree. Sections whose adjacent RRsets differ in name or type come back as they were.
\<close>

definition same_key :: "RRset \<Rightarrow> RRset \<Rightarrow> bool" where
  "same_key x y \<longleftrightarrow> rr_Type x = rr_Type y \<and> fold_case (labels (rr_Name x)) = fold_case (labels (rr_Name y))"

lemma IsSameRRset_key:
  assumes "wf_name (rr_Name x)" "wf_name (rr_Name y)"
  shows "IsSameRRset x y = Ret (same_key x y)"
  using assms Equals_labels [of "labels (rr_Name x)" "labels (rr_Name y)"]
  by (auto simp: IsSameRRset_def same_key_def wf_name_def)

fun group_records :: "RRset list \<Rightarrow> RRset list \<Rightarrow> (g53_error, RRset list) go" where
  "group_records acc [] = Ret acc"
| "group_records acc (z # zs) =
     (if acc \<noteq> [] \<and> same_key (last acc) z
      then gbind (idx (rr_Rdatas z) 0) (\<lambda>d.
        group_records (butlast acc @ [(last acc)\<lparr>rr_Rdatas := rr_Rdatas (last acc) @ [d]\<rparr>]) zs)
      else group_records (acc @ [z]) zs)"

lemma group_one:
  assumes "length (rr_Rdatas x) \<noteq> 0" "list_all2 (rrset_alike A) (map (\<lambda>d. x\<lparr>rr_Rdatas := [d]\<rparr>) ds) zs"
    and "y = x\<lparr>rr_Name := n, rr_Rdatas := es\<rparr>" "name_alike A (rr_Name x) n"
  shows "group_records (acc @ [y]) (zs @ rest) = group_records (acc @ [y\<lparr>rr_Rdatas := es @ map rdata_norm ds\<rparr>]) rest"
  using assms(2-4)
proof (induction ds arbitrary: zs es y)
  case (Cons d ds)
  obtain z zs' where zs: "zs = z # zs'" "rrset_alike A (x\<lparr>rr_Rdatas := [d]\<rparr>) z"
      "list_all2 (rrset_alike A) (map (\<lambda>d. x\<lparr>rr_Rdatas := [d]\<rparr>) ds) zs'"
    using Cons.prems(1) by (auto simp: list_all2_Cons1)
  then have "same_key y z" "rr_Rdatas z = [rdata_norm d]"
    using Cons.prems by (auto simp: rrset_alike_def name_alike_def same_key_def)
  then show ?case
    using Cons.IH [OF zs(3), of "y\<lparr>rr_Rdatas := es @ [rdata_norm d]\<rparr>" "es @ [rdata_norm d]"] zs(1) Cons.prems by (simp add: idx_def)
qed simp

lemma group_rrset:
  assumes "list_all2 (rrset_alike A) (records x) zs" "acc = [] \<or> \<not> same_key (last acc) x"
  shows "\<exists>y. rrset_alike A x y \<and> group_records acc (zs @ rest) = group_records (acc @ [y]) rest"
proof (cases "rr_Rdatas x")
  case Nil
  then obtain z where z: "zs = [z]" "rrset_alike A x z" using assms(1) by (auto simp: records_def list_all2_Cons1)
  then have "acc = [] \<or> \<not> same_key (last acc) z" using assms(2) by (auto simp: rrset_alike_def name_alike_def same_key_def)
  then show ?thesis using z by auto
next
  case (Cons d ds)
  then obtain z zs' where zs: "zs = z # zs'" "rrset_alike A (x\<lparr>rr_Rdatas := [d]\<rparr>) z"
      "list_all2 (rrset_alike A) (map (\<lambda>d. x\<lparr>rr_Rdatas := [d]\<rparr>) ds) zs'"
    using assms(1) by (auto simp: records_def list_all2_Cons1)
  then have z: "z = x\<lparr>rr_Name := rr_Name z, rr_Rdatas := [rdata_norm d]\<rparr>" "name_alike A (rr_Name x) (rr_Name z)"
    by (auto simp: rrset_alike_def)
  have "acc = [] \<or> \<not> same_key (last acc) z" using assms(2) zs(2) by (auto simp: rrset_alike_def name_alike_def same_key_def)
  then have "group_records acc (zs @ rest) = group_records (acc @ [z]) (zs' @ rest)" using zs(1) by auto
  also have "\<dots> = group_records (acc @ [z\<lparr>rr_Rdatas := [rdata_norm d] @ map rdata_norm ds\<rparr>]) rest"
    using group_one [OF _ zs(3) z] Cons by simp
  finally show ?thesis using Cons zs(2)
    by (intro exI [of _ "z\<lparr>rr_Rdatas := [rdata_norm d] @ map rdata_norm ds\<rparr>"]) (simp add: rrset_alike_def)
qed

lemma group_section:
  assumes "list_all2 (rrset_alike A) (concat (map records s)) zs" "successively (\<lambda>x y. \<not> same_key x y) s"
    and "acc = [] \<or> s = [] \<or> \<not> same_key (last acc) (hd s)"
  shows "\<exists>ys. list_all2 (rrset_alike A) s ys \<and> group_records acc zs = Ret (acc @ ys)"
  using assms
proof (induction s arbitrary: zs acc)
  case (Cons x s)
  then obtain zs1 zs2 where zs: "zs = zs1 @ zs2" "list_all2 (rrset_alike A) (records x) zs1" "list_all2 (rrset_alike A) (concat (map records s)) zs2"
    by (auto simp: list_all2_append1)
  obtain y where y: "rrset_alike A x y" "group_records acc zs = group_records (acc @ [y]) zs2"
    using group_rrset [OF zs(2), of acc zs2] Cons.prems(3) zs(1) by auto
  have "s = [] \<or> \<not> same_key y (hd s)" using Cons.prems(2) y(1)
    by (cases s) (auto simp: rrset_alike_def name_alike_def same_key_def)
  then obtain ys where "list_all2 (rrset_alike A) s ys" "group_records (acc @ [y]) zs2 = Ret ((acc @ [y]) @ ys)"
    using Cons.IH [OF zs(3), of "acc @ [y]"] Cons.prems(2) by (auto simp: successively_Cons)
  then show ?case using y by (intro exI [of _ "y # ys"]) simp
qed simp

end
