(* ===== verification/Edns.thy ===== *)
theory Edns
  imports RRset
begin

unbundle bit_operations_syntax

text \<open>
  \<open>src/g53/edns.go\<close>, \<open>ednssubnet.go\<close>, \<open>ednsview.go\<close>: the EDNS pseudo record, whose class is the UDP
  size, whose TTL holds the extended code, the version and the DO flag, and whose data holds
  options. \<open>net.IP\<close> is a byte list of length 4 or 16, nil is \<open>None\<close>.
\<close>

section \<open>Addresses of package net\<close>

definition net_IPv4 :: "byte \<Rightarrow> byte \<Rightarrow> byte \<Rightarrow> byte \<Rightarrow> byte list" where
  "net_IPv4 a b c d = replicate 10 0 @ [0xff, 0xff, a, b, c, d]"

definition To4 :: "byte list \<Rightarrow> byte list option" where
  "To4 ip =
     (if length ip = 4 then Some ip
      else if length ip = 16 \<and> take 12 ip = replicate 10 0 @ [0xff, 0xff] then Some (drop 12 ip)
      else None)"

definition To16 :: "byte list \<Rightarrow> byte list option" where
  "To16 ip =
     (if length ip = 4 then Some (replicate 10 0 @ [0xff, 0xff] @ ip)
      else if length ip = 16 then Some ip
      else None)"

fun cidr_bytes :: "nat \<Rightarrow> nat \<Rightarrow> byte list" where
  "cidr_bytes 0 n = []"
| "cidr_bytes (Suc l) n =
     (if n \<ge> 8 then 0xff # cidr_bytes l (n - 8) else (NOT (drop_bit n 0xff)) # cidr_bytes l 0)"

definition CIDRMask :: "nat \<Rightarrow> nat \<Rightarrow> byte list option" where
  "CIDRMask ones bits = (if (bits = 32 \<or> bits = 128) \<and> ones \<le> bits then Some (cidr_bytes (bits div 8) ones) else None)"

text \<open>\<open>ip.Mask(mask)\<close> where the address and the mask have the same kind; a nil of either gives nil.\<close>

definition net_Mask :: "byte list option \<Rightarrow> byte list option \<Rightarrow> byte list option" where
  "net_Mask ip m =
     (case (ip, m) of
        (Some ip, Some m) \<Rightarrow> if length ip = length m then Some (map2 (\<lambda>a b. a AND b) ip m) else None
      | _ \<Rightarrow> None)"

section \<open>Options\<close>

abbreviation EDNS_SUBNET :: u16 where "EDNS_SUBNET \<equiv> 8"
abbreviation EDNS_VIEW :: u16 where "EDNS_VIEW \<equiv> 53"

record SubnetOpt =
  sn_family :: u16
  sn_mask :: byte
  sn_scope :: byte
  sn_ip :: "byte list"

datatype edns_option = Subnet SubnetOpt | View "byte list"

text \<open>A nil address sliced to a positive length panics.\<close>

definition SubnetOpt_Rend :: "SubnetOpt \<Rightarrow> MsgRender \<Rightarrow> (g53_error, MsgRender) go" where
  "SubnetOpt_Rend subnet r =
     (let r = Render_WriteUint16 r EDNS_SUBNET;
          ipLen = unat (sn_mask subnet) div 8 + (if sn_mask subnet mod 8 \<noteq> 0 then 1 else 0);
          r = Render_WriteUint16 r (word_of_nat (2 + 2 + ipLen));
          r = Render_WriteUint16 r (sn_family subnet);
          r = Render_WriteUint8 r (sn_mask subnet);
          r = Render_WriteUint8 r (sn_scope subnet);
          ipToWrite =
            (if sn_family subnet = 1
             then net_Mask (To4 (sn_ip subnet)) (CIDRMask (unat (sn_mask subnet)) 32)
             else net_Mask (To16 (sn_ip subnet)) (CIDRMask (unat (sn_mask subnet)) 128))
      in gbind (gslice (case ipToWrite of None \<Rightarrow> [] | Some ip \<Rightarrow> ip) 0 ipLen) (\<lambda>d.
         Ret (Render_WriteData r d)))"

text \<open>\<open>copy\<close> into an array of \<open>n\<close> zeros.\<close>

definition copy_zeros :: "nat \<Rightarrow> byte list \<Rightarrow> byte list" where
  "copy_zeros n d = take n d @ replicate (n - length d) 0"

definition subnetOptFromWire :: "InputBuffer \<Rightarrow> (g53_error, edns_option \<times> InputBuffer) go" where
  "subnetOptFromWire buf =
     gbind (drop_err 0 buf (ReadUint16 buf)) (\<lambda>(l, buf).
     gbind (drop_err 0 buf (ReadUint16 buf)) (\<lambda>(family, buf).
     gbind (drop_err 0 buf (ReadUint8 buf)) (\<lambda>(mask, buf).
     gbind (drop_err 0 buf (ReadUint8 buf)) (\<lambda>(scope, buf).
     if family = 1 then
       gbind (drop_err [] buf (ReadBytes buf (unat (l - 4)))) (\<lambda>(d, buf).
       let addr = copy_zeros 4 d in
       Ret (Subnet \<lparr>sn_family = family, sn_mask = mask, sn_scope = scope,
                    sn_ip = net_IPv4 (addr ! 0) (addr ! 1) (addr ! 2) (addr ! 3)\<rparr>, buf))
     else if family = 2 then
       gbind (drop_err [] buf (ReadBytes buf (unat (l - 4)))) (\<lambda>(d, buf).
       Ret (Subnet \<lparr>sn_family = family, sn_mask = mask, sn_scope = scope, sn_ip = copy_zeros 16 d\<rparr>, buf))
     else Err UnknownFamily))))"

definition ViewOpt_Rend :: "byte list \<Rightarrow> MsgRender \<Rightarrow> MsgRender" where
  "ViewOpt_Rend view r =
     Render_WriteData (Render_WriteUint16 (Render_WriteUint16 r EDNS_VIEW) (word_of_nat (length view))) view"

definition viewOptFromWire :: "InputBuffer \<Rightarrow> (g53_error, edns_option \<times> InputBuffer) go" where
  "viewOptFromWire buf =
     gbind (ReadUint16 buf) (\<lambda>(l, buf).
     gbind (ReadBytes buf (unat l)) (\<lambda>(view, buf).
     Ret (View view, buf)))"

text \<open>The options of one record's data; nil is \<open>None\<close>, and data of another type panics.\<close>

definition subnetOptFromRdata :: "Rdata \<Rightarrow> (g53_error, edns_option option) go" where
  "subnetOptFromRdata rdata =
     (case rdata of
        OPT_rdata d \<Rightarrow>
          if d = [] then Ret None
          else
            let buf = NewInputBuffer d in
            gbind (drop_err 0 buf (ReadUint16 buf)) (\<lambda>(code, buf).
            if code \<noteq> EDNS_SUBNET then Ret None
            else (case subnetOptFromWire buf of Ret (opt, _) \<Rightarrow> Ret (Some opt) | Err _ \<Rightarrow> Ret None | Panic \<Rightarrow> Panic | Diverge \<Rightarrow> Diverge))
      | _ \<Rightarrow> Panic)"

definition viewOptFromRdata :: "Rdata \<Rightarrow> (g53_error, edns_option option) go" where
  "viewOptFromRdata rdata =
     (case rdata of
        OPT_rdata d \<Rightarrow>
          if d = [] then Ret None
          else
            let buf = NewInputBuffer d in
            gbind (drop_err 0 buf (ReadUint16 buf)) (\<lambda>(code, buf).
            if code \<noteq> EDNS_VIEW then Ret None
            else (case viewOptFromWire buf of Ret (opt, _) \<Rightarrow> Ret (Some opt) | Err _ \<Rightarrow> Ret None | Panic \<Rightarrow> Panic | Diverge \<Rightarrow> Diverge))
      | _ \<Rightarrow> Panic)"

fun Option_Rend :: "edns_option \<Rightarrow> MsgRender \<Rightarrow> (g53_error, MsgRender) go" where
  "Option_Rend (Subnet subnet) r = SubnetOpt_Rend subnet r"
| "Option_Rend (View view) r = Ret (ViewOpt_Rend view r)"

fun Options_Rend :: "edns_option list \<Rightarrow> MsgRender \<Rightarrow> (g53_error, MsgRender) go" where
  "Options_Rend [] r = Ret r"
| "Options_Rend (opt # opts) r = gbind (Option_Rend opt r) (Options_Rend opts)"

section \<open>The pseudo record\<close>

abbreviation VERSION_MASK :: u32 where "VERSION_MASK \<equiv> 0x00ff0000"
abbreviation EXTFLAG_DO :: u32 where "EXTFLAG_DO \<equiv> 0x00008000"

record EDNS =
  e_Version :: byte
  e_extendedRcode :: byte
  e_UdpSize :: u16
  e_DnssecAware :: bool
  e_Options :: "edns_option list"

text \<open>The fields that class and TTL of the record give.\<close>

definition edns_of :: "RRClass \<Rightarrow> RRTTL \<Rightarrow> edns_option list \<Rightarrow> EDNS" where
  "edns_of udpSize flags opts =
     \<lparr>e_Version = ucast (drop_bit 16 (flags AND VERSION_MASK)), e_extendedRcode = ucast (drop_bit 24 flags),
      e_UdpSize = udpSize, e_DnssecAware = (flags AND EXTFLAG_DO \<noteq> 0), e_Options = opts\<rparr>"

definition EdnsFromWire :: "InputBuffer \<Rightarrow> (g53_error, EDNS \<times> InputBuffer) go" where
  "EdnsFromWire buf =
     gbind (ReadUint8 buf) (\<lambda>(_, buf).
     gbind (TypeFromWire buf) (\<lambda>(t, buf).
     if t \<noteq> RR_OPT then Err EdnsNotOpt
     else
       gbind (ClassFromWire buf) (\<lambda>(udpSize, buf).
       gbind (drop_err 0 buf (TTLFromWire buf)) (\<lambda>(flags, buf).
       gbind (drop_err 0 buf (ReadUint16 buf)) (\<lambda>(rdlen, buf).
       if rdlen \<noteq> 0 then
         gbind (drop_err 0 buf (ReadUint16 buf)) (\<lambda>(code, buf).
         if code = EDNS_SUBNET then
           gbind (subnetOptFromWire buf) (\<lambda>(opt, buf). Ret (edns_of udpSize flags [opt], buf))
         else if code = EDNS_VIEW then
           gbind (viewOptFromWire buf) (\<lambda>(opt, buf). Ret (edns_of udpSize flags [opt], buf))
         else Ret (edns_of udpSize flags [], buf))
       else Ret (edns_of udpSize flags [], buf))))))"

text \<open>One option is read from the data of each record; an option that does not parse is skipped.\<close>

definition edns_options_of :: "Rdata \<Rightarrow> (g53_error, edns_option list) go" where
  "edns_options_of rdata =
     (case rdata of
        OPT_rdata d \<Rightarrow>
          if d = [] then Ret []
          else
            let buf = NewInputBuffer d in
            gbind (drop_err 0 buf (ReadUint16 buf)) (\<lambda>(code, buf).
            if code = EDNS_SUBNET then
              (case subnetOptFromWire buf of Ret (opt, _) \<Rightarrow> Ret [opt] | Err _ \<Rightarrow> Ret [] | Panic \<Rightarrow> Panic | Diverge \<Rightarrow> Diverge)
            else if code = EDNS_VIEW then
              (case viewOptFromWire buf of Ret (opt, _) \<Rightarrow> Ret [opt] | Err _ \<Rightarrow> Ret [] | Panic \<Rightarrow> Panic | Diverge \<Rightarrow> Diverge)
            else Ret [])
      | _ \<Rightarrow> Panic)"

fun edns_options :: "Rdata list \<Rightarrow> (g53_error, edns_option list) go" where
  "edns_options [] = Ret []"
| "edns_options (rdata # rdatas) =
     gbind (edns_options_of rdata) (\<lambda>opts. gbind (edns_options rdatas) (\<lambda>opts'. Ret (opts @ opts')))"

definition EdnsFromRRset :: "RRset \<Rightarrow> (g53_error, EDNS) go" where
  "EdnsFromRRset rrset =
     (if rr_Type rrset \<noteq> RR_OPT then Panic
      else gbind (edns_options (rr_Rdatas rrset)) (\<lambda>opts. Ret (edns_of (rr_Class rrset) (rr_Ttl rrset) opts)))"

definition edns_flags :: "EDNS \<Rightarrow> u32" where
  "edns_flags e =
     push_bit 24 (ucast (e_extendedRcode e)) OR (push_bit 16 (ucast (e_Version e)) AND VERSION_MASK)
     OR (if e_DnssecAware e then EXTFLAG_DO else 0)"

definition EDNS_Rend :: "EDNS \<Rightarrow> MsgRender \<Rightarrow> (g53_error, MsgRender) go" where
  "EDNS_Rend e r =
     gbind (Name_Rend Root r) (\<lambda>r.
     let r = Type_Rend RR_OPT r;
         r = Class_Rend (e_UdpSize e) r;
         r = TTL_Rend (edns_flags e) r
     in if e_Options e = [] then Ret (Render_WriteUint16 r 0)
        else
          let p = length (odata (rbuf r)) in
          gbind (Options_Rend (e_Options e) (Render_Skip r 2)) (\<lambda>r.
          patch_length r (word_of_nat (usub (usub (length (odata (rbuf r))) p) 2)) p))"

definition EDNS_ToWire :: "EDNS \<Rightarrow> OutputBuffer \<Rightarrow> OutputBuffer" where
  "EDNS_ToWire e out =
     (let out = Name_ToWire Root out;
          out = Type_ToWire RR_OPT out;
          out = Class_ToWire (e_UdpSize e) out;
          out = TTL_ToWire (edns_flags e) out
      in WriteUint16 out 0)"

definition CleanOption :: "EDNS \<Rightarrow> EDNS" where
  "CleanOption e = e\<lparr>e_Options := []\<rparr>"

definition EDNS_RRCount :: "EDNS \<Rightarrow> nat" where
  "EDNS_RRCount e = (if e_Options e = [] then 1 else length (e_Options e))"

definition AddSubnetView :: "EDNS \<Rightarrow> byte list \<Rightarrow> EDNS" where
  "AddSubnetView e view = e\<lparr>e_Options := e_Options e @ [View view]\<rparr>"

end
