(* ===== verification/Edns_Codec.thy ===== *)
theory Edns_Codec
  imports RRset_Codec Edns
begin

unbundle bit_operations_syntax

text \<open>
  The EDNS pseudo record as the RRset it is written as. What is written is read back as the same
  record with its first option only, and that option as it can be represented: a client subnet with
  its address cut to the mask.
\<close>

lemma NewInputBuffer_at: "NewInputBuffer d = buf_at d 0"
  by (simp add: NewInputBuffer_def buf_at_def)

lemma bytes_at_0: "bytes_at (bs @ rest) 0 bs"
  by (auto simp: bytes_at_def)

section \<open>Options\<close>

text \<open>The bytes of an address under a mask end where the mask does.\<close>

lemma length_cidr_bytes [simp]: "length (cidr_bytes n ones) = n"
  by (induction n ones rule: cidr_bytes.induct) simp_all

lemma cidr_tail: "ones \<le> 8 * n \<Longrightarrow> drop ((ones + 7) div 8) (cidr_bytes n ones) = replicate (n - (ones + 7) div 8) 0"
proof (induction n ones rule: cidr_bytes.induct)
  case (2 l n)
  have z: "cidr_bytes k 0 = replicate k 0" for k by (induction k) simp_all
  consider "8 \<le> n" | "n = 0" | "0 < n" "n < 8" by linarith
  then show ?case
  proof cases
    case 1
    then have "n + 7 = n - 8 + 7 + 8" by simp
    then have "(n + 7) div 8 = Suc ((n - 8 + 7) div 8)" by (simp only: div_add_self2)
    then show ?thesis using 1 "2.IH"(1) "2.prems" by simp
  next
    case 2
    then show ?thesis by (simp add: z)
  next
    case 3
    then have "(n + 7) div 8 = 1" by (intro div_nat_eqI) auto
    then show ?thesis using 3 by (simp add: z)
  qed
qed simp

definition ip_len :: "byte \<Rightarrow> nat" where
  "ip_len m = (unat m + 7) div 8"

lemma ip_len_code: "unat m div 8 + (if m mod 8 \<noteq> 0 then 1 else 0) = ip_len (m :: byte)"
proof -
  have "m mod 8 = 0 \<longleftrightarrow> unat m mod 8 = 0" by (simp add: word_unat_eq_iff unat_mod)
  moreover have "(8 * q + r + 7) div 8 = q + (if r \<noteq> 0 then 1 else 0)" if "r < 8" for q r :: nat
  proof -
    have "(r + 7) div 8 = (if r \<noteq> 0 then 1 else 0)" using that by (auto intro!: div_nat_eqI)
    then show ?thesis using div_mult_self2 [of 8 "r + 7" q] by (simp add: add.assoc add.commute)
  qed
  from this [of "unat m mod 8" "unat m div 8"] have "(unat m + 7) div 8 = unat m div 8 + (if unat m mod 8 \<noteq> 0 then 1 else 0)"
    by simp
  ultimately show ?thesis unfolding ip_len_def by simp
qed

definition subnet_addr :: "SubnetOpt \<Rightarrow> byte list option" where
  "subnet_addr s =
     (if sn_family s = 1 then net_Mask (To4 (sn_ip s)) (CIDRMask (unat (sn_mask s)) 32)
      else net_Mask (To16 (sn_ip s)) (CIDRMask (unat (sn_mask s)) 128))"

lemma masked_tail:
  assumes "net_Mask (Some ip) (CIDRMask ones bits) = Some a" "length ip = bits div 8"
  shows "length a = bits div 8" "(ones + 7) div 8 \<le> bits div 8" "copy_zeros (bits div 8) (take ((ones + 7) div 8) a) = a"
proof -
  let ?n = "bits div 8" and ?k = "(ones + 7) div 8"
  have o: "ones \<le> 8 * ?n" "bits = 32 \<or> bits = 128" and a: "a = map2 (\<lambda>a b. a AND b) ip (cidr_bytes ?n ones)"
    using assms by (auto simp: net_Mask_def CIDRMask_def split: if_splits)
  show l: "length a = ?n" using a assms(2) by simp
  show k: "?k \<le> ?n" using o by auto
  have "drop ?k a = map2 (\<lambda>a b. a AND b) (drop ?k ip) (replicate (?n - ?k) 0)"
    using cidr_tail [OF o(1)] a by (simp add: drop_map drop_zip)
  also have "\<dots> = replicate (?n - ?k) 0"
    using assms(2) by (simp add: list_eq_iff_nth_eq)
  finally show "copy_zeros ?n (take ?k a) = a"
    using l k append_take_drop_id [of ?k a] by (simp add: copy_zeros_def)
qed

text \<open>An option the wire can carry, the bytes it is written as, and what is read back of it.\<close>

fun option_ok :: "edns_option \<Rightarrow> bool" where
  "option_ok (Subnet s) \<longleftrightarrow>
     sn_family s = 1 \<and> unat (sn_mask s) \<le> 32 \<and> To4 (sn_ip s) \<noteq> None \<or>
     sn_family s = 2 \<and> unat (sn_mask s) \<le> 128 \<and> To16 (sn_ip s) \<noteq> None"
| "option_ok (View v) \<longleftrightarrow> length v < 65536"

fun option_bytes :: "edns_option \<Rightarrow> byte list" where
  "option_bytes (Subnet s) = be16 EDNS_SUBNET @ be16 (word_of_nat (4 + ip_len (sn_mask s))) @ be16 (sn_family s) @
     [sn_mask s] @ [sn_scope s] @ take (ip_len (sn_mask s)) (the (subnet_addr s))"
| "option_bytes (View v) = be16 EDNS_VIEW @ be16 (word_of_nat (length v)) @ v"

fun option_norm :: "edns_option \<Rightarrow> edns_option" where
  "option_norm (Subnet s) = Subnet (s\<lparr>sn_ip := (if sn_family s = 1 then replicate 10 0 @ [0xff, 0xff] else []) @ the (subnet_addr s)\<rparr>)"
| "option_norm (View v) = View v"

lemma To4_length: "To4 ip = Some a \<Longrightarrow> length a = 4"
  by (auto simp: To4_def split: if_splits)

lemma To16_length: "To16 ip = Some a \<Longrightarrow> length a = 16"
  by (auto simp: To16_def split: if_splits)

lemma subnet_addr_ok:
  assumes "option_ok (Subnet s)"
  obtains a where "subnet_addr s = Some a" "ip_len (sn_mask s) \<le> length a" "ip_len (sn_mask s) \<le> 16"
    "sn_family s = 1 \<Longrightarrow> copy_zeros 4 (take (ip_len (sn_mask s)) a) = a \<and> length a = 4"
    "sn_family s = 2 \<Longrightarrow> copy_zeros 16 (take (ip_len (sn_mask s)) a) = a \<and> length a = 16"
proof -
  consider ip where "sn_family s = 1" "unat (sn_mask s) \<le> 32" "To4 (sn_ip s) = Some ip"
    | ip where "sn_family s = 2" "unat (sn_mask s) \<le> 128" "To16 (sn_ip s) = Some ip" using assms by auto
  then show ?thesis
  proof cases
    case 1
    then obtain a where a: "net_Mask (Some ip) (CIDRMask (unat (sn_mask s)) 32) = Some a"
      using To4_length [OF 1(3)] by (simp add: net_Mask_def CIDRMask_def)
    show ?thesis using masked_tail [OF a] To4_length [OF 1(3)] 1 a
      by (intro that [of a]) (auto simp: subnet_addr_def ip_len_def)
  next
    case 2
    then obtain a where a: "net_Mask (Some ip) (CIDRMask (unat (sn_mask s)) 128) = Some a"
      using To16_length [OF 2(3)] by (simp add: net_Mask_def CIDRMask_def)
    show ?thesis using masked_tail [OF a] To16_length [OF 2(3)] 2 a
      by (intro that [of a]) (auto simp: subnet_addr_def ip_len_def)
  qed
qed

lemma Option_Rend_bytes:
  assumes "option_ok opt"
  shows "\<exists>g. (\<forall>r. Option_Rend opt r = Ret (r\<lparr>rbuf := g (rbuf r)\<rparr>)) \<and> (\<forall>b. odata (g b) = odata b @ option_bytes opt)"
proof (cases opt)
  case (Subnet s)
  with assms have s: "option_ok (Subnet s)" by simp
  obtain a where a: "subnet_addr s = Some a" "ip_len (sn_mask s) \<le> length a" using subnet_addr_ok [OF s] by metis
  let ?g = "\<lambda>b. WriteData (WriteUint8 (WriteUint8 (WriteUint16 (WriteUint16 (WriteUint16 b EDNS_SUBNET)
      (word_of_nat (2 + 2 + ip_len (sn_mask s)))) (sn_family s)) (sn_mask s)) (sn_scope s)) (take (ip_len (sn_mask s)) a)"
  show ?thesis
  proof (intro exI [of _ ?g] conjI allI)
    fix r b
    show "Option_Rend opt r = Ret (r\<lparr>rbuf := ?g (rbuf r)\<rparr>)"
      using a unfolding Subnet Option_Rend.simps SubnetOpt_Rend_def ip_len_code subnet_addr_def [symmetric]
      by (simp add: Let_def gslice_def Render_WriteUint16_def Render_WriteUint8_def Render_WriteData_def)
    show "odata (?g b) = odata b @ option_bytes opt" using a Subnet by simp
  qed
next
  case (View v)
  show ?thesis
    by (rule exI [of _ "\<lambda>b. WriteData (WriteUint16 (WriteUint16 b EDNS_VIEW) (word_of_nat (length v))) v"])
      (simp add: View ViewOpt_Rend_def Render_WriteUint16_def Render_WriteData_def)
qed

lemma copy_zeros_4: "length a = 4 \<Longrightarrow> net_IPv4 (a ! 0) (a ! 1) (a ! 2) (a ! 3) = replicate 10 0 @ [0xff, 0xff] @ a"
  by (auto simp: net_IPv4_def list_eq_iff_nth_eq numeral_eq_Suc less_Suc_eq nth_Cons split: nat.splits)

lemma subnet_reads:
  assumes ok: "option_ok (Subnet s)" and D: "length D < 2 ^ 63"
    and b: "bytes_at D p (be16 (word_of_nat (4 + ip_len (sn_mask s))) @ be16 (sn_family s) @
     [sn_mask s] @ [sn_scope s] @ take (ip_len (sn_mask s)) (the (subnet_addr s)))"
  shows "\<exists>buf. subnetOptFromWire (buf_at D p) = Ret (option_norm (Subnet s), buf)"
proof -
  obtain a where a: "subnet_addr s = Some a" "ip_len (sn_mask s) \<le> length a" "ip_len (sn_mask s) \<le> 16"
    and f1: "sn_family s = 1 \<Longrightarrow> copy_zeros 4 (take (ip_len (sn_mask s)) a) = a \<and> length a = 4"
    and f2: "sn_family s = 2 \<Longrightarrow> copy_zeros 16 (take (ip_len (sn_mask s)) a) = a \<and> length a = 16"
    using subnet_addr_ok [OF ok] by metis
  let ?k = "ip_len (sn_mask s)" and ?l = "word_of_nat (4 + ip_len (sn_mask s)) :: u16"
  have b': "bytes_at D p (be16 ?l)" "bytes_at D (p + 2) (be16 (sn_family s))" "bytes_at D (p + 4) [sn_mask s]"
    "bytes_at D (p + 5) [sn_scope s]" "bytes_at D (p + 6) (take ?k a)"
    using b a(1) by (simp_all add: bytes_at_append eval_nat_numeral del: append_Cons)
  have r: "ReadUint16 (buf_at D p) = Ret (?l, buf_at D (p + 2))" "ReadUint16 (buf_at D (p + 2)) = Ret (sn_family s, buf_at D (p + 4))"
    "ReadUint8 (buf_at D (p + 4)) = Ret (sn_mask s, buf_at D (p + 5))" "ReadUint8 (buf_at D (p + 5)) = Ret (sn_scope s, buf_at D (p + 6))"
    using b' D u16.reads_bytes_at [where x = ?l and D = D and p = p] u16.reads_bytes_at [where x = "sn_family s" and D = D and p = "p + 2"]
      u8.reads_bytes_at [where x = "sn_mask s" and D = D and p = "p + 4"] u8.reads_bytes_at [where x = "sn_scope s" and D = D and p = "p + 5"]
    by (simp_all add: reads_def)
  have "unat (?l - 4) = ?k" using a(3) by simp
  then have d: "ReadBytes (buf_at D (p + 6)) (unat (?l - 4)) = Ret (take ?k a, buf_at D (p + 6 + ?k))"
    using b'(5) D octets.reads_bytes_at [where x = "take ?k a" and D = D and p = "p + 6"] a(2) by (simp add: reads_def)
  show ?thesis
    using ok r d f1 f2 a(1) copy_zeros_4 [of a]
    by (cases s) (auto simp: subnetOptFromWire_def drop_err_def Let_def)
qed

lemma options_read:
  assumes ok: "option_ok opt" and D: "length (option_bytes opt @ rest) < 2 ^ 63"
  shows "edns_options_of (OPT_rdata (option_bytes opt @ rest)) = Ret [option_norm opt]"
proof -
  define D where "D = option_bytes opt @ rest"
  have len: "length D < 2 ^ 63" using D by (simp add: D_def)
  obtain c bs where c: "option_bytes opt = be16 c @ bs" "c = (case opt of Subnet _ \<Rightarrow> EDNS_SUBNET | View _ \<Rightarrow> EDNS_VIEW)"
    by (cases opt) auto
  have b: "bytes_at D 0 (be16 c)" "bytes_at D 2 bs"
    using bytes_at_0 [of "be16 c @ bs" rest] bytes_at_append [of D 0 "be16 c" bs] c(1) by (simp_all add: D_def eval_nat_numeral)
  have r: "ReadUint16 (buf_at D 0) = Ret (c, buf_at D 2)"
    using u16.reads_bytes_at [where x = c and D = D and p = 0] b(1) len by (simp add: reads_def)
  have ne: "D \<noteq> []" by (cases opt) (auto simp: D_def be16_def)
  have "edns_options_of (OPT_rdata D) = Ret [option_norm opt]"
  proof (cases opt)
    case (Subnet s)
    then obtain buf where "subnetOptFromWire (buf_at D 2) = Ret (option_norm opt, buf)"
      using subnet_reads [of s D 2] ok len b(2) c(1) by auto
    then show ?thesis using r ne Subnet c(2) by (simp add: edns_options_of_def NewInputBuffer_at drop_err_def)
  next
    case (View v)
    then have v: "bytes_at D 2 (be16 (word_of_nat (length v)))" "bytes_at D 4 v" "length v < 65536"
      using b(2) c ok bytes_at_append [of D 2 "be16 (word_of_nat (length v))" v] by simp_all
    then have "viewOptFromWire (buf_at D 2) = Ret (View v, buf_at D (4 + length v))"
      using len u16.reads_bytes_at [where x = "word_of_nat (length v)" and D = D and p = 2]
        octets.reads_bytes_at [where x = v and D = D and p = 4] by (simp add: viewOptFromWire_def reads_def)
    then show ?thesis using r ne View c(2) by (simp add: edns_options_of_def NewInputBuffer_at drop_err_def)
  qed
  then show ?thesis by (simp add: D_def)
qed

section \<open>The pseudo record\<close>

lemma Options_Rend_bytes:
  assumes "list_all option_ok opts"
  shows "\<exists>g. (\<forall>r. Options_Rend opts r = Ret (r\<lparr>rbuf := g (rbuf r)\<rparr>)) \<and> (\<forall>b. odata (g b) = odata b @ concat (map option_bytes opts))"
  using assms
proof (induction opts)
  case (Cons opt opts)
  obtain g h where "\<forall>r. Option_Rend opt r = Ret (r\<lparr>rbuf := g (rbuf r)\<rparr>)" "\<forall>b. odata (g b) = odata b @ option_bytes opt"
    "\<forall>r. Options_Rend opts r = Ret (r\<lparr>rbuf := h (rbuf r)\<rparr>)" "\<forall>b. odata (h b) = odata b @ concat (map option_bytes opts)"
    using Cons Option_Rend_bytes [of opt] by auto
  then show ?case by (intro exI [of _ "\<lambda>b. h (g b)"]) simp
qed (simp add: exI [of _ "\<lambda>b. b"])

lemma emits_Options:
  assumes "list_all option_ok opts" "bs = concat (map option_bytes opts)"
  shows "emits A (length bs) (Options_Rend opts) (\<lambda>D p q. q = p + length bs \<and> bytes_at D p bs)"
proof -
  obtain g where "\<forall>r. Options_Rend opts r = Ret (r\<lparr>rbuf := g (rbuf r)\<rparr>)" "\<forall>b. odata (g b) = odata b @ bs"
    using Options_Rend_bytes [OF assms(1)] assms(2) by auto
  then show ?thesis by (intro emits_data) auto
qed

lemma emits_opt_rdata:
  assumes "emits A sz f (\<lambda>D p q. q = p + length bs \<and> bytes_at D p bs)" "bs \<noteq> []" "length bs < 65536"
  shows "emits A (sz + 2) (with_length f) (reads (RdataFromWire RR_OPT) (Some (OPT_rdata bs)))"
proof (rule emits_weaken [OF emits_with_length [OF assms(1)]], goal_cases)
  case (1 D p q)
  let ?l = "word_of_nat (length bs) :: u16"
  have q: "q - p - 2 = length bs" "p + 2 + length bs = q" using 1 by auto
  have l: "unat ?l = length bs" "?l \<noteq> 0" using assms(2,3) by (simp_all add: word_unat_eq_iff)
  have "ReadUint16 (buf_at D p) = Ret (?l, buf_at D (p + 2))"
    using u16.reads_bytes_at [where x = ?l and D = D and p = p] 1 unfolding q(1) by (simp add: reads_def)
  moreover have "fieldFromWire RDF_C_BINARY (buf_at D (p + 2)) ?l = Ret (FBytes bs, 0, buf_at D q)"
    using field_reads_binary [of D "p + 2" bs] 1 q l unfolding field_reads_def by simp
  ultimately show ?case using l by (simp add: reads_def RdataFromWire_def as_rdata_def OPTFromWire_def)
qed simp

text \<open>An EDNS as the RRset it is written as.\<close>

definition edns_rrset :: "EDNS \<Rightarrow> RRset" where
  "edns_rrset e = \<lparr>rr_Name = Root, rr_Type = RR_OPT, rr_Class = e_UdpSize e, rr_Ttl = edns_flags e,
     rr_Rdatas = (if e_Options e = [] then [] else [OPT_rdata (concat (map option_bytes (e_Options e)))])\<rparr>"

definition edns_ok :: "EDNS \<Rightarrow> bool" where
  "edns_ok e \<longleftrightarrow> list_all option_ok (e_Options e) \<and> length (concat (map option_bytes (e_Options e))) < 65536"

lemma name_ok_Root: "0 \<notin> A \<Longrightarrow> name_ok A Root"
  by (simp add: name_ok_def wf_name_def Root_def labels_def valid_labels_def over_def name_of_def wire_def)

lemma edns_flags_parts:
  "ucast (drop_bit 16 (edns_flags e AND VERSION_MASK)) = e_Version e"
  "ucast (drop_bit 24 (edns_flags e)) = e_extendedRcode e"
  "(edns_flags e AND EXTFLAG_DO \<noteq> 0) = e_DnssecAware e"
proof -
  define F where "F = EXTFLAG_DO"
  have V: "VERSION_MASK = push_bit 16 (mask 8)" by (simp add: mask_eq_exp_minus_1 push_bit_eq_mult)
  have "F = push_bit 15 1" by (simp add: F_def)
  then have F: "bit F n \<longleftrightarrow> n = 15" for n by (simp only: bit_simps) auto
  show "ucast (drop_bit 16 (edns_flags e AND VERSION_MASK)) = e_Version e"
    unfolding edns_flags_def V F_def [symmetric] by (rule bit_word_eqI) (auto simp: bit_simps F)
  show "ucast (drop_bit 24 (edns_flags e)) = e_extendedRcode e"
    unfolding edns_flags_def V F_def [symmetric] by (rule bit_word_eqI) (auto simp: bit_simps F)
  have "edns_flags e AND F = (if e_DnssecAware e then F else 0)"
    unfolding edns_flags_def V F_def [symmetric] by (rule bit_word_eqI) (auto simp: bit_simps F)
  then show "(edns_flags e AND EXTFLAG_DO \<noteq> 0) = e_DnssecAware e" by (simp add: F_def)
qed

lemma edns_of_flags: "edns_of (e_UdpSize e) (edns_flags e) opts = e\<lparr>e_Options := opts\<rparr>"
  unfolding edns_of_def edns_flags_parts by simp

text \<open>Of the options only the first is read back.\<close>

lemma EdnsFromRRset_alike:
  assumes "edns_ok e" "rrset_alike A (edns_rrset e) y"
  shows "EdnsFromRRset y = Ret (e\<lparr>e_Options := map option_norm (take 1 (e_Options e))\<rparr>)"
proof -
  have y: "rr_Type y = RR_OPT" "rr_Class y = e_UdpSize e" "rr_Ttl y = edns_flags e"
    "rr_Rdatas y = (if e_Options e = [] then [] else [OPT_rdata (concat (map option_bytes (e_Options e)))])"
    using assms(2) by (auto simp: rrset_alike_def edns_rrset_def)
  have "edns_options (rr_Rdatas y) = Ret (map option_norm (take 1 (e_Options e)))"
  proof (cases "e_Options e")
    case (Cons opt opts)
    then have "edns_options_of (OPT_rdata (concat (map option_bytes (e_Options e)))) = Ret [option_norm opt]"
      using assms(1) options_read [of opt "concat (map option_bytes opts)"] by (simp add: edns_ok_def)
    then show ?thesis using y(4) Cons by simp
  qed (simp add: y(4))
  then show ?thesis by (simp add: EdnsFromRRset_def y edns_of_flags)
qed

lemma option_bytes_nonempty: "option_bytes opt \<noteq> []"
  by (cases opt) (simp_all add: be16_def)

interpretation edns_rend: rend_rel A EDNS_Rend RRsetFromWire "\<lambda>e. 0 \<notin> A \<and> edns_ok e" "\<lambda>e. rrset_alike A (edns_rrset e)"
  "\<lambda>e. 266 + length (concat (map option_bytes (e_Options e)))" for A
proof
  fix e assume "0 \<notin> A \<and> edns_ok e"
  then have e: "edns_ok e" and A: "0 \<notin> A" by auto
  let ?x = "edns_rrset e" and ?bs = "concat (map option_bytes (e_Options e))"
  have x: "rr_Name ?x = Root" "rr_Type ?x = RR_OPT" "rr_Class ?x = e_UdpSize e" "rr_Ttl ?x = edns_flags e"
    "rr_Rdatas ?x = (if e_Options e = [] then [] else [OPT_rdata ?bs])" by (simp_all add: edns_rrset_def)
  have h: "rr_header_Rend ?x r = gbind (Name_Rend Root r) (\<lambda>r. Ret (TTL_Rend (edns_flags e) (Class_Rend (e_UdpSize e) (Type_Rend RR_OPT r))))" for r
    by (simp add: rr_header_Rend_def x)
  have n: "name_ok A (rr_Name ?x)" using name_ok_Root [OF A] x by simp
  show "emits A (266 + length ?bs) (EDNS_Rend e) (\<lambda>D p q. \<exists>y. rrset_alike A ?x y \<and> reads RRsetFromWire y D p q)"
  proof (cases "e_Options e = []")
    case True
    have "EDNS_Rend e = RRset_Rend 0 ?x"
      using True h x by (simp add: fun_eq_iff EDNS_Rend_def RRset_Rend_def Let_def gbind_assoc)
    moreover have "rrset_ok A ?x" using True x n by (simp add: rrset_ok_def)
    ultimately show ?thesis using record_rend.rend_rel_reads [of A ?x 0] True x by (simp add: record_size_def)
  next
    case False
    then have bs: "?bs \<noteq> []" "length ?bs < 65536" "list_all option_ok (e_Options e)"
      using e option_bytes_nonempty by (auto simp: edns_ok_def)
    have eq: "EDNS_Rend e = (\<lambda>r. gbind (rr_header_Rend ?x r) (with_length (Options_Rend (e_Options e))))"
      using False h by (simp add: fun_eq_iff EDNS_Rend_def with_length_eta Let_def gbind_assoc)
    have "emits A (264 + (length ?bs + 2)) (EDNS_Rend e) (\<lambda>D p q. \<exists>y. rrset_alike A ?x y \<and> reads RRsetFromWire y D p q)"
      unfolding eq
    proof (rule emits_weaken [OF emits_seq [OF emits_rr_header [OF n] emits_opt_rdata [OF emits_Options [OF bs(3) refl] bs(1,2)]]])
      fix D :: "byte list" and p q
      assume "\<exists>m. (\<exists>n. name_alike A (rr_Name ?x) n \<and> reads_rr_header ?x n D p m) \<and> reads (RdataFromWire RR_OPT) (Some (OPT_rdata ?bs)) D m q \<and> p \<le> m \<and> m \<le> q"
      then obtain m n where m: "name_alike A (rr_Name ?x) n" "reads_rr_header ?x n D p m" "reads (RdataFromWire RR_OPT) (Some (OPT_rdata ?bs)) D m q" by blast
      from reads_RRset [OF m(2), of "Some (OPT_rdata ?bs)" q] m(1,3) x False show "\<exists>y. rrset_alike A ?x y \<and> reads RRsetFromWire y D p q"
        by (intro exI [of _ "?x\<lparr>rr_Name := n, rr_Rdatas := [OPT_rdata ?bs]\<rparr>"]) (simp add: rrset_alike_def)
    qed simp
    then show ?thesis by (simp add: add.commute)
  qed
qed

end
