(* ===== verification/Tsig_Codec.thy ===== *)
theory Tsig_Codec
  imports RRset_Codec
begin

unbundle bit_operations_syntax

text \<open>
  The TSIG pseudo record as the RRset it is written as: once signed, what is written is read back as
  the same record, but for the key's digest state, which the wire does not carry.
\<close>

lemma emits_cong:
  assumes "emits A sz f P" "\<And>N r. render_ok A N r \<Longrightarrow> N \<subseteq> {..<rlen r} \<Longrightarrow> rlen r + sz + 300 < 2 ^ 63 \<Longrightarrow> g r = f r"
  shows "emits A sz g P"
  using assms unfolding emits_def by metis

text \<open>The length as \<open>TSIG.Rend\<close> writes it back: the two bytes are skipped before.\<close>

definition after_length :: "(MsgRender \<Rightarrow> (g53_error, MsgRender) go) \<Rightarrow> MsgRender \<Rightarrow> (g53_error, MsgRender) go" where
  "after_length f r =
     (let r = Render_Skip r 2; p = rlen r
      in gbind (f r) (\<lambda>r. patch_length r (word_of_nat (rlen r - p)) (usub p 2)))"

lemma emits_after_length:
  assumes "emits A sz f P"
  shows "emits A (sz + 2) (after_length f) (\<lambda>D p q. p + 2 \<le> q \<and> bytes_at D p (be16 (word_of_nat (q - p - 2))) \<and> P D (p + 2) q)"
proof (rule emits_cong [OF emits_with_length [OF assms]])
  fix N r assume r: "render_ok A N r" "N \<subseteq> {..<rlen r}" "rlen r + (sz + 2) + 300 < 2 ^ 63"
  let ?r0 = "Render_Skip r 2"
  have o0: "odata (rbuf ?r0) = odata (rbuf r) @ [0, 0]"
    using r(3) odata_Out_Skip [of "rbuf r" 2] replicate_numeral_two by (simp add: Render_Skip_def)
  have ok0: "render_ok A N ?r0" using render_ok_data [OF r(1), of "Out_Skip (rbuf r) 2"] o0 by (simp add: Render_Skip_def)
  obtain r1 bs where 1: "f ?r0 = Ret r1" "odata (rbuf r1) = odata (rbuf ?r0) @ bs" "length bs \<le> sz"
  proof (rule emitsE [OF assms ok0])
    show "N \<subseteq> {..<rlen ?r0}" using r(2) o0 by auto
    show "rlen ?r0 + sz + 300 < 2 ^ 63" using r(3) o0 by simp
  qed blast
  then show "after_length f r = with_length f r"
    using o0 r(3) by (simp add: after_length_def with_length_def usub_small Let_def)
qed

text \<open>The fields behind the header of the record.\<close>

definition tsig_body :: "TSIG \<Rightarrow> Name \<Rightarrow> MsgRender \<Rightarrow> (g53_error, MsgRender) go" where
  "tsig_body t alg r =
     gbind (Name_Rend alg r) (\<lambda>r.
     gbind (Ret (Render_WriteUint16 r (ucast (drop_bit 32 (tsig_TimeSigned t AND 0x0000ffff00000000))))) (\<lambda>r.
     gbind (Ret (Render_WriteUint32 r (ucast (tsig_TimeSigned t AND 0x00000000ffffffff)))) (\<lambda>r.
     gbind (Ret (Render_WriteUint16 r (tsig_Fudge t))) (\<lambda>r.
     gbind (Ret (Render_WriteUint16 r (tsig_MACSize t))) (\<lambda>r.
     gbind (Ret (Render_WriteData r (mac_bytes t))) (\<lambda>r.
     gbind (Ret (Render_WriteUint16 r (tsig_OrigId t))) (\<lambda>r.
     gbind (Ret (Render_WriteUint16 r (tsig_Error t))) (\<lambda>r.
     gbind (Ret (Render_WriteUint16 r (tsig_OtherLen t))) (\<lambda>r.
     Ret (Render_WriteData r (tsig_OtherData t)))))))))))"

definition tsig_wire :: "TSIG \<Rightarrow> TSIG" where
  "tsig_wire t = t\<lparr>tsig_Header := None, tsig_hash := None, tsig_MAC := Some (mac_bytes t)\<rparr>"

definition tsig_ok :: "byte set \<Rightarrow> TSIG \<Rightarrow> Name \<Rightarrow> bool" where
  "tsig_ok A t alg \<longleftrightarrow> name_ok A alg \<and> Name_String (name_norm alg) False = Ret (tsig_Algorithm t) \<and>
     take_bit 48 (tsig_TimeSigned t) = tsig_TimeSigned t \<and>
     length (mac_bytes t) = unat (tsig_MACSize t) \<and> length (tsig_OtherData t) = unat (tsig_OtherLen t) \<and>
     length (mac_bytes t) + length (tsig_OtherData t) + 272 < 65536"

lemma time_parts:
  assumes "take_bit 48 t = (t :: 64 word)"
  shows "push_bit 32 (ucast (ucast (drop_bit 32 (t AND 0x0000ffff00000000)) :: u16) AND 0xffff) +
    ucast (ucast (t AND 0x00000000ffffffff) :: u32) = t"
proof -
  have H: "(0x0000ffff00000000 :: 64 word) = push_bit 32 (mask 16)" "(0x00000000ffffffff :: 64 word) = mask 32" "(0xffff :: 64 word) = mask 16"
    by (simp_all add: mask_eq_exp_minus_1 push_bit_eq_mult)
  have "push_bit 32 (ucast (ucast (drop_bit 32 (take_bit 48 t AND 0x0000ffff00000000)) :: u16) AND 0xffff) +
    ucast (ucast (take_bit 48 t AND 0x00000000ffffffff) :: u32) = take_bit 48 t" unfolding H
    by (subst disjunctive_add_eq_or) (auto intro!: bit_word_eqI simp: bit_simps not_less less_diff_conv2)
  then show ?thesis using assms by simp
qed

lemma field_step:
  assumes "field_reads ct d D p m" "p \<le> m" "m \<le> q" "q - p < 65536" "\<not> greedy ct"
  shows "fieldFromWire ct (buf_at D p) (word_of_nat (q - p)) = Ret (d, word_of_nat (q - m), buf_at D m)"
proof -
  have "unat (word_of_nat (q - p) :: u16) = q - p" using assms(4) by simp
  moreover have "(word_of_nat (q - p) :: u16) - word_of_nat (m - p) = word_of_nat (q - m)" using assms(2,3) by simp
  ultimately show ?thesis using assms unfolding field_reads_def by (metis diff_le_mono)
qed

lemma emits_octets: "emits A (length v) (\<lambda>r. Ret (Render_WriteData r v)) (\<lambda>D p q. q = p + length v \<and> field_reads RDF_C_BINARY (FBytes v) D p q)"
  by (rule emits_weaken [OF emits_Data]) (use field_reads_binary in auto)

lemma octets_step:
  assumes "q = p + length v \<and> field_reads RDF_C_BINARY (FBytes v) D p q" "length v = unat l"
  shows "fieldFromWire RDF_C_BINARY (buf_at D p) l = Ret (FBytes v, 0, buf_at D q)" "l = word_of_nat (q - p)"
proof -
  have "q - p = unat l" using assms by simp
  then show "l = word_of_nat (q - p)" by simp
  show "fieldFromWire RDF_C_BINARY (buf_at D p) l = Ret (FBytes v, 0, buf_at D q)"
    using assms unfolding field_reads_def by auto
qed

lemma emits_tsig_body:
  assumes ok: "tsig_ok A t alg"
  shows "emits A (length (mac_bytes t) + length (tsig_OtherData t) + 272) (tsig_body t alg)
    (\<lambda>D p q. p < q \<and> TSIGFromWire (buf_at D p) (word_of_nat (q - p)) = Ret (tsig_wire t, buf_at D q))"
proof -
  have alg: "name_ok A alg" using ok by (simp add: tsig_ok_def)
  have "emits A 256 (\<lambda>r. WriteName r alg True) (\<lambda>D p q. p < q)"
    using emits_field_visible [of A RDF_C_NAME "FName alg"] alg by (simp add: rendField_simps)
  from emits_conj [OF emits_field_name [OF alg, of RDF_C_NAME True] this]
  have name: "emits A 256 (\<lambda>r. WriteName r alg True) (\<lambda>D p q. field_reads RDF_C_NAME (FName (name_norm alg)) D p q \<and> p < q)" by simp
  note seq = emits_seq [OF name
    emits_seq [OF emits_field_fixed(2) emits_seq [OF emits_field_fixed(3) emits_seq [OF emits_field_fixed(2)
    emits_seq [OF emits_field_fixed(2) emits_seq [OF emits_octets [of A "mac_bytes t"] emits_seq [OF emits_field_fixed(2)
    emits_seq [OF emits_field_fixed(2) emits_seq [OF emits_field_fixed(2) emits_octets [of A "tsig_OtherData t"]]]]]]]]]]
  show ?thesis
    unfolding tsig_body_def [abs_def] Name_Rend_def
  proof (rule emits_weaken [OF seq], goal_cases)
    case (1 D p0 q)
    then obtain p1 p2 p3 p4 p5 p6 p7 p8 p9 where
      f: "field_reads RDF_C_NAME (FName (name_norm alg)) D p0 p1 \<and> p0 < p1"
        "field_reads RDF_C_UINT16 (FUint16 (ucast (drop_bit 32 (tsig_TimeSigned t AND 0x0000ffff00000000)))) D p1 p2"
        "field_reads RDF_C_UINT32 (FUint32 (ucast (tsig_TimeSigned t AND 0x00000000ffffffff))) D p2 p3"
        "field_reads RDF_C_UINT16 (FUint16 (tsig_Fudge t)) D p3 p4" "field_reads RDF_C_UINT16 (FUint16 (tsig_MACSize t)) D p4 p5"
        "p6 = p5 + length (mac_bytes t) \<and> field_reads RDF_C_BINARY (FBytes (mac_bytes t)) D p5 p6"
        "field_reads RDF_C_UINT16 (FUint16 (tsig_OrigId t)) D p6 p7" "field_reads RDF_C_UINT16 (FUint16 (tsig_Error t)) D p7 p8"
        "field_reads RDF_C_UINT16 (FUint16 (tsig_OtherLen t)) D p8 p9"
        "q = p9 + length (tsig_OtherData t) \<and> field_reads RDF_C_BINARY (FBytes (tsig_OtherData t)) D p9 q"
      and le: "p0 \<le> p1" "p1 \<le> p2" "p2 \<le> p3" "p3 \<le> p4" "p4 \<le> p5" "p5 \<le> p6" "p6 \<le> p7" "p7 \<le> p8" "p8 \<le> p9" "p9 \<le> q"
      by blast
    have "q - p0 < 65536" using 1(4) ok unfolding tsig_ok_def by linarith
    then have small: "q - p0 < 65536" "q - p1 < 65536" "q - p2 < 65536" "q - p3 < 65536" "q - p4 < 65536" "q - p5 < 65536"
      "q - p6 < 65536" "q - p7 < 65536" "q - p8 < 65536" using le by linarith+
    have top: "p1 \<le> q" "p2 \<le> q" "p3 \<le> q" "p4 \<le> q" "p5 \<le> q" "p6 \<le> q" "p7 \<le> q" "p8 \<le> q" using le by linarith+
    have g: "\<not> greedy RDF_C_NAME" "\<not> greedy RDF_C_UINT16" "\<not> greedy RDF_C_UINT32" by (simp_all add: greedy_def)
    have len: "length (mac_bytes t) = unat (tsig_MACSize t)" "length (tsig_OtherData t) = unat (tsig_OtherLen t)"
      using ok by (auto simp: tsig_ok_def)
    note step = field_step [OF conjunct1 [OF f(1)] le(1) top(1) small(1) g(1)] field_step [OF f(2) le(2) top(2) small(2) g(2)]
      field_step [OF f(3) le(3) top(3) small(3) g(3)] field_step [OF f(4) le(4) top(4) small(4) g(2)]
      field_step [OF f(5) le(5) top(5) small(5) g(2)] field_step [OF f(7) le(7) top(7) small(7) g(2)]
      field_step [OF f(8) le(8) top(8) small(8) g(2)] field_step [OF f(9) le(9,10) small(9) g(2)]
      octets_step(1) [OF f(6) len(1)] octets_step(1) [OF f(10) len(2)]
    have ll: "word_of_nat (q - p5) - tsig_MACSize t = word_of_nat (q - p6)" "word_of_nat (q - p9) = tsig_OtherLen t"
      using octets_step(2) [OF f(6) len(1)] octets_step(2) [OF f(10) len(2)] le(6) top(6) by simp_all
    define a b where "a = (ucast (drop_bit 32 (tsig_TimeSigned t AND 0x0000ffff00000000)) :: u16)"
      and "b = (ucast (tsig_TimeSigned t AND 0x00000000ffffffff) :: u32)"
    then have "push_bit 32 (ucast a AND 0xffff) + ucast b = tsig_TimeSigned t" using ok time_parts by (simp add: tsig_ok_def)
    then have "TSIGFromWire (buf_at D p0) (word_of_nat (q - p0)) = Ret (tsig_wire t, buf_at D q)"
      using ok unfolding TSIGFromWire_def step [folded a_def b_def]
      by (simp add: step [folded a_def b_def] ll tsig_ok_def tsig_wire_def Let_def del: of_nat_diff)
    then show ?case using f(1) top(1) by simp
  qed simp
qed

text \<open>A record as the RRset it is written as.\<close>

definition tsig_rrset :: "TSIG \<Rightarrow> TsigHeader \<Rightarrow> RRset" where
  "tsig_rrset t h = \<lparr>rr_Name = th_Name h, rr_Type = th_Rrtype h, rr_Class = th_Class h, rr_Ttl = th_Ttl h,
     rr_Rdatas = [TSIG_rdata (tsig_wire t)]\<rparr>"

definition tsig_write :: "TSIG \<Rightarrow> TsigHeader \<Rightarrow> Name \<Rightarrow> MsgRender \<Rightarrow> (g53_error, MsgRender) go" where
  "tsig_write t h alg r = gbind (rr_header_Rend (tsig_rrset t h) r) (after_length (tsig_body t alg))"

lemma TSIG_Rend_write:
  assumes "genMessageHash now t (odata (rbuf r)) = Ret t'" "tsig_Header t' = Some h" "algorithm_name (tsig_Algorithm t') = Ret alg"
  shows "TSIG_Rend now t r = gbind (tsig_write t' h alg r) (\<lambda>r. Ret (t', r))"
  using assms
  by (simp add: TSIG_Rend_def tsig_write_def rr_header_Rend_def tsig_rrset_def TsigHeader_Rend_def Type_rend_eq
      after_length_def [abs_def] tsig_body_def Let_def gbind_assoc)

lemma emits_tsig:
  assumes ok: "tsig_ok A t alg" and h: "name_ok A (th_Name h)" "th_Rrtype h = RR_TSIG"
  shows "emits A (length (mac_bytes t) + length (tsig_OtherData t) + 538) (tsig_write t h alg)
    (\<lambda>D p q. \<exists>y. rrset_alike A (tsig_rrset t h) y \<and> reads RRsetFromWire y D p q)"
proof -
  let ?x = "tsig_rrset t h" and ?n = "length (mac_bytes t) + length (tsig_OtherData t) + 272"
  have x: "rr_Name ?x = th_Name h" "rr_Type ?x = RR_TSIG" "rr_Rdatas ?x = [TSIG_rdata (tsig_wire t)]" using h by (simp_all add: tsig_rrset_def)
  have n: "name_ok A (rr_Name ?x)" using h x by simp
  have n2: "?n < 65536" using ok by (simp add: tsig_ok_def)
  have "emits A (?n + 2) (after_length (tsig_body t alg)) (reads (RdataFromWire RR_TSIG) (Some (TSIG_rdata (tsig_wire t))))"
  proof (rule emits_weaken [OF emits_after_length [OF emits_tsig_body [OF ok]]], goal_cases)
    case (1 D p q)
    let ?l = "word_of_nat (q - (p + 2)) :: u16"
    have q: "q - p - 2 = q - (p + 2)" by simp
    have "q - (p + 2) < 65536" "p + 2 < q" using 1 n2 by auto
    then have "unat ?l = q - (p + 2)" by (simp del: of_nat_diff)
    then have l: "?l \<noteq> 0" using \<open>p + 2 < q\<close> unat_eq_0 [of ?l] by linarith
    have "ReadUint16 (buf_at D p) = Ret (?l, buf_at D (p + 2))"
      using u16.reads_bytes_at [where x = ?l and D = D and p = p] 1 unfolding q by (simp add: reads_def del: of_nat_diff)
    then show ?case using 1 l by (simp add: reads_def RdataFromWire_def as_rdata_def del: of_nat_diff)
  qed simp
  note rd = this
  have "emits A (264 + (?n + 2)) (tsig_write t h alg) (\<lambda>D p q. \<exists>y. rrset_alike A ?x y \<and> reads RRsetFromWire y D p q)"
    unfolding tsig_write_def [abs_def]
  proof (rule emits_weaken [OF emits_seq [OF emits_rr_header [OF n] rd]])
    fix D :: "byte list" and p q
    assume "\<exists>m. (\<exists>n. name_alike A (rr_Name ?x) n \<and> reads_rr_header ?x n D p m) \<and>
      reads (RdataFromWire RR_TSIG) (Some (TSIG_rdata (tsig_wire t))) D m q \<and> p \<le> m \<and> m \<le> q"
    then obtain m n where m: "name_alike A (rr_Name ?x) n" "reads_rr_header ?x n D p m" "reads (RdataFromWire RR_TSIG) (Some (TSIG_rdata (tsig_wire t))) D m q" by blast
    from reads_RRset [OF m(2), of "Some (TSIG_rdata (tsig_wire t))" q] m(1,3) x show "\<exists>y. rrset_alike A ?x y \<and> reads RRsetFromWire y D p q"
      by (intro exI [of _ "?x\<lparr>rr_Name := n, rr_Rdatas := [TSIG_rdata (tsig_wire t)]\<rparr>"]) (simp add: rrset_alike_def)
  qed simp
  then show ?thesis by (simp add: add.commute)
qed

end
