(* ===== verification/Message.thy ===== *)
theory Message
  imports Edns Dns_Header
begin

text \<open>
  \<open>src/g53/message.go\<close>, \<open>update.go\<close>, \<open>xfr.go\<close> and the verification of \<open>tsig.go\<close>: messages of a header, at
  most one question, three sections of RRsets, and the EDNS and TSIG pseudo records. A message is
  a value here; operations that change it return it. the random \<open>GenMessageId\<close> is the parameter \<open>msgid\<close>.
  A decoding that fails yields only its error; what it has already stored in the receiver is dropped.
\<close>

datatype SectionType = AnswerSection | AuthSection | AdditionalSection

type_synonym Section = "RRset list"

definition rrCount :: "Section \<Rightarrow> nat" where
  "rrCount section = sum_list (map (\<lambda>rrset. if RRCount rrset = 0 then 1 else RRCount rrset) section)"

fun Section_Rend :: "64 word \<Rightarrow> Section \<Rightarrow> MsgRender \<Rightarrow> (g53_error, MsgRender) go" where
  "Section_Rend now [] r = Ret r"
| "Section_Rend now (rrset # s) r = gbind (RRset_Rend now rrset r) (Section_Rend now s)"

fun Section_ToWire :: "Section \<Rightarrow> OutputBuffer \<Rightarrow> (g53_error, OutputBuffer) go" where
  "Section_ToWire [] out = Ret out"
| "Section_ToWire (rrset # s) out = gbind (RRset_ToWire rrset out) (Section_ToWire s)"

record Message =
  m_Header :: Header
  m_Question :: "Question option"
  m_Sections :: "SectionType \<Rightarrow> Section"
  m_Edns :: "EDNS option"
  m_Tsig :: "TSIG option"

definition Message_zero :: Message where
  "Message_zero = \<lparr>m_Header = Header_zero, m_Question = None, m_Sections = (\<lambda>_. []), m_Edns = None, m_Tsig = None\<rparr>"

section \<open>Decoding\<close>

definition TSIGFromRRset :: "RRset \<Rightarrow> (g53_error, TSIG) go" where
  "TSIGFromRRset rrset =
     gbind (idx (rr_Rdatas rrset) 0) (\<lambda>rdata.
     case rdata of
       TSIG_rdata tsig \<Rightarrow>
         Ret (tsig\<lparr>tsig_Header := Some \<lparr>th_Name = rr_Name rrset, th_Rrtype = rr_Type rrset, th_Class = rr_Class rrset,
                                      th_Ttl = rr_Ttl rrset, th_Rdlength = 0\<rparr>\<rparr>)
     | _ \<Rightarrow> Panic)"

definition section_count :: "Header \<Rightarrow> SectionType \<Rightarrow> u16" where
  "section_count h st = (case st of AnswerSection \<Rightarrow> ANCount h | AuthSection \<Rightarrow> NSCount h | AdditionalSection \<Rightarrow> ARCount h)"

fun section_loop :: "nat \<Rightarrow> InputBuffer \<Rightarrow> RRset option \<Rightarrow> Section \<Rightarrow> (g53_error, RRset option \<times> Section \<times> InputBuffer) go" where
  "section_loop 0 buf lastRRset s = Ret (lastRRset, s, buf)"
| "section_loop (Suc n) buf lastRRset s =
     gbind (RRsetFromWire buf) (\<lambda>(rrset, buf).
     case lastRRset of
       None \<Rightarrow> section_loop n buf (Some rrset) s
     | Some l \<Rightarrow>
         gbind (IsSameRRset l rrset) (\<lambda>same.
         if same then
           gbind (idx (rr_Rdatas rrset) 0) (\<lambda>d.
           section_loop n buf (Some (l\<lparr>rr_Rdatas := rr_Rdatas l @ [d]\<rparr>)) s)
         else section_loop n buf (Some rrset) (s @ [l])))"

definition sectionFromWire :: "Message \<Rightarrow> SectionType \<Rightarrow> InputBuffer \<Rightarrow> (g53_error, Message \<times> InputBuffer) go" where
  "sectionFromWire m st buf =
     gbind (section_loop (unat (section_count (m_Header m) st)) buf None []) (\<lambda>(lastRRset, s, buf).
     gbind (case lastRRset of
              None \<Rightarrow> Ret (m, s)
            | Some l \<Rightarrow>
                if st = AdditionalSection \<and> rr_Type l = RR_OPT then
                  gbind (EdnsFromRRset l) (\<lambda>e. Ret (m\<lparr>m_Edns := Some e\<rparr>, s))
                else if st = AdditionalSection \<and> rr_Type l = RR_TSIG then
                  gbind (TSIGFromRRset l) (\<lambda>t. Ret (m\<lparr>m_Tsig := Some t\<rparr>, s))
                else Ret (m, s @ [l])) (\<lambda>(m, s).
     Ret (m\<lparr>m_Sections := (m_Sections m)(st := s)\<rparr>, buf)))"

definition FromWire :: "Message \<Rightarrow> InputBuffer \<Rightarrow> (g53_error, Message \<times> InputBuffer) go" where
  "FromWire m buf =
     gbind (HeaderFromWire (m_Header m) buf) (\<lambda>(h, buf).
     let m = m\<lparr>m_Header := h\<rparr> in
     gbind (if QDCount h = 1 then gbind (QuestionFromWire buf) (\<lambda>(q, buf). Ret (m\<lparr>m_Question := Some q\<rparr>, buf))
            else Ret (m\<lparr>m_Question := None\<rparr>, buf)) (\<lambda>(m, buf).
     let m = m\<lparr>m_Edns := None, m_Tsig := None\<rparr> in
     gbind (sectionFromWire m AnswerSection buf) (\<lambda>(m, buf).
     gbind (sectionFromWire m AuthSection buf) (\<lambda>(m, buf).
     sectionFromWire m AdditionalSection buf))))"

definition MessageFromWire :: "InputBuffer \<Rightarrow> (g53_error, Message) go" where
  "MessageFromWire buf = gbind (FromWire Message_zero buf) (\<lambda>(m, _). Ret m)"

section \<open>Rendering\<close>

definition Message_Rend :: "64 word \<Rightarrow> Message \<Rightarrow> MsgRender \<Rightarrow> (g53_error, Message \<times> MsgRender) go" where
  "Message_Rend now m r =
     (let r = Header_Rend (m_Header m) r in
      gbind (case m_Question m of None \<Rightarrow> Ret r | Some q \<Rightarrow> Question_Rend q r) (\<lambda>r.
      gbind (Section_Rend now (m_Sections m AnswerSection) r) (\<lambda>r.
      gbind (Section_Rend now (m_Sections m AuthSection) r) (\<lambda>r.
      gbind (Section_Rend now (m_Sections m AdditionalSection) r) (\<lambda>r.
      gbind (case m_Edns m of None \<Rightarrow> Ret r | Some e \<Rightarrow> EDNS_Rend e r) (\<lambda>r.
      case m_Tsig m of
        None \<Rightarrow> Ret (m, r)
      | Some t \<Rightarrow>
          gbind (TSIG_Rend now t r) (\<lambda>(t, r).
          gbind (patch_length r (ARCount (m_Header m) + 1) 10) (\<lambda>r.
          Ret (m\<lparr>m_Tsig := Some t\<rparr>, r)))))))))"

definition RecalculateSectionRRCount :: "Message \<Rightarrow> Message" where
  "RecalculateSectionRRCount m =
     m\<lparr>m_Header := (m_Header m)
        \<lparr>QDCount := (if m_Question m = None then 0 else 1),
         ANCount := word_of_nat (rrCount (m_Sections m AnswerSection)),
         NSCount := word_of_nat (rrCount (m_Sections m AuthSection)),
         ARCount := word_of_nat (rrCount (m_Sections m AdditionalSection))
           + (case m_Edns m of None \<Rightarrow> 0 | Some e \<Rightarrow> word_of_nat (EDNS_RRCount e))\<rparr>\<rparr>"

text \<open>\<open>ToWire\<close> does not write the EDNS and TSIG pseudo records.\<close>

definition Message_ToWire :: "Message \<Rightarrow> OutputBuffer \<Rightarrow> (g53_error, OutputBuffer) go" where
  "Message_ToWire m out =
     (let out = Header_ToWire (m_Header m) out;
          out = (case m_Question m of None \<Rightarrow> out | Some q \<Rightarrow> Question_ToWire q out)
      in gbind (Section_ToWire (m_Sections m AnswerSection) out) (\<lambda>out.
         gbind (Section_ToWire (m_Sections m AuthSection) out) (\<lambda>out.
         Section_ToWire (m_Sections m AdditionalSection) out)))"

section \<open>Building and changing messages\<close>

definition MakeQuery :: "u16 \<Rightarrow> Name \<Rightarrow> RRType \<Rightarrow> int \<Rightarrow> bool \<Rightarrow> Message" where
  "MakeQuery msgid name typ udp dnssec =
     (let h = SetFlag Header_zero FLAG_RD True;
          h = h\<lparr>Opcode := 0, Id := msgid, QDCount := 1, ARCount := 1\<rparr>
      in Message_zero\<lparr>m_Header := h, m_Question := Some \<lparr>q_Name = name, q_Type = typ, q_Class = CLASS_IN\<rparr>,
           m_Edns := Some \<lparr>e_Version = 0, e_extendedRcode = 0, e_UdpSize = word_of_int udp,
                          e_DnssecAware = dnssec, e_Options = []\<rparr>\<rparr>)"

definition Message_Clear :: "Message \<Rightarrow> Message" where
  "Message_Clear m =
     m\<lparr>m_Header := Header_Clear (m_Header m), m_Question := None, m_Sections := (\<lambda>_. []), m_Edns := None, m_Tsig := None\<rparr>"

definition AddRRset :: "Message \<Rightarrow> SectionType \<Rightarrow> RRset \<Rightarrow> Message" where
  "AddRRset m st rrset = m\<lparr>m_Sections := (m_Sections m)(st := m_Sections m st @ [rrset])\<rparr>"

fun rrset_index :: "Section \<Rightarrow> Name \<Rightarrow> RRType \<Rightarrow> RRClass \<Rightarrow> nat \<Rightarrow> (g53_error, nat option) go" where
  "rrset_index [] name typ cls i = Ret None"
| "rrset_index (rrset # s) name typ cls i =
     gbind (if rr_Class rrset = cls \<and> rr_Type rrset = typ then Equals (rr_Name rrset) name else Ret False) (\<lambda>eq.
     if eq then Ret (Some i) else rrset_index s name typ cls (i + 1))"

definition rrsetIndex :: "Message \<Rightarrow> SectionType \<Rightarrow> Name \<Rightarrow> RRType \<Rightarrow> RRClass \<Rightarrow> (g53_error, nat option) go" where
  "rrsetIndex m st name typ cls = rrset_index (m_Sections m st) name typ cls 0"

definition HasRRset :: "Message \<Rightarrow> SectionType \<Rightarrow> RRset \<Rightarrow> (g53_error, bool) go" where
  "HasRRset m st rrset =
     gbind (rrsetIndex m st (rr_Name rrset) (rr_Type rrset) (rr_Class rrset)) (\<lambda>i. Ret (i \<noteq> None))"

text \<open>The error of \<open>AddRdata\<close> is dropped.\<close>

definition AddRR ::
  "Message \<Rightarrow> SectionType \<Rightarrow> Name \<Rightarrow> RRType \<Rightarrow> RRClass \<Rightarrow> RRTTL \<Rightarrow> Rdata \<Rightarrow> bool \<Rightarrow> (g53_error, Message) go" where
  "AddRR m st name typ cls ttl rdata merge =
     gbind (if merge then rrsetIndex m st name typ cls else Ret None) (\<lambda>found.
     case found of
       Some i \<Rightarrow>
         let s = m_Sections m st in
         gbind (case AddRdata (s ! i) rdata of Err _ \<Rightarrow> Ret (s ! i) | res \<Rightarrow> res) (\<lambda>rrset.
         Ret (m\<lparr>m_Sections := (m_Sections m)(st := s[i := rrset\<lparr>rr_Ttl := ttl\<rparr>])\<rparr>))
     | None \<Rightarrow>
         Ret (AddRRset m st \<lparr>rr_Name = name, rr_Type = typ, rr_Class = cls, rr_Ttl = ttl, rr_Rdatas = [rdata]\<rparr>))"

definition MakeResponse :: "Message \<Rightarrow> Message" where
  "MakeResponse m =
     (let h = Header_zero\<lparr>Id := Id (m_Header m), Opcode := Opcode (m_Header m), QDCount := QDCount (m_Header m)\<rparr>;
          h = SetFlag h FLAG_QR True;
          h = SetFlag h FLAG_RD (GetFlag (m_Header m) FLAG_RD)
      in Message_zero\<lparr>m_Header := h, m_Question := m_Question m\<rparr>)"

definition ClearSection :: "Message \<Rightarrow> SectionType \<Rightarrow> Message" where
  "ClearSection m st =
     (let m = m\<lparr>m_Sections := (m_Sections m)(st := [])\<rparr> in
      case st of
        AnswerSection \<Rightarrow> m\<lparr>m_Header := (m_Header m)\<lparr>ANCount := 0\<rparr>\<rparr>
      | AuthSection \<Rightarrow> m\<lparr>m_Header := (m_Header m)\<lparr>NSCount := 0\<rparr>\<rparr>
      | AdditionalSection \<Rightarrow> m\<lparr>m_Edns := None, m_Tsig := None, m_Header := (m_Header m)\<lparr>ARCount := 0\<rparr>\<rparr>)"

definition GetSection :: "Message \<Rightarrow> SectionType \<Rightarrow> Section" where
  "GetSection m st = m_Sections m st"

definition SectionRRCount :: "Message \<Rightarrow> SectionType \<Rightarrow> nat" where
  "SectionRRCount m st = rrCount (m_Sections m st)"

definition SectionRRsetCount :: "Message \<Rightarrow> SectionType \<Rightarrow> nat" where
  "SectionRRsetCount m st = length (m_Sections m st)"

definition SetTSIG :: "Message \<Rightarrow> TSIG option \<Rightarrow> Message" where
  "SetTSIG m tsig = m\<lparr>m_Tsig := map_option (\<lambda>t. t\<lparr>tsig_OrigId := Id (m_Header m)\<rparr>) tsig\<rparr>"

section \<open>Dynamic updates\<close>

definition MakeUpdate :: "u16 \<Rightarrow> Name \<Rightarrow> Message" where
  "MakeUpdate msgid zone =
     Message_zero\<lparr>m_Header := Header_zero\<lparr>Opcode := 5, Id := msgid\<rparr>,
       m_Question := Some \<lparr>q_Name = zone, q_Type = RR_SOA, q_Class = CLASS_IN\<rparr>\<rparr>"

definition UpdateNameExists :: "Message \<Rightarrow> Name list \<Rightarrow> Message" where
  "UpdateNameExists m names =
     fold (\<lambda>name m. AddRRset m AnswerSection
       \<lparr>rr_Name = name, rr_Type = RR_ANY, rr_Class = CLASS_ANY, rr_Ttl = 0, rr_Rdatas = []\<rparr>) names m"

definition UpdateNameNotExists :: "Message \<Rightarrow> Name list \<Rightarrow> Message" where
  "UpdateNameNotExists m names =
     fold (\<lambda>name m. AddRRset m AnswerSection
       \<lparr>rr_Name = name, rr_Type = RR_ANY, rr_Class = CLASS_NONE, rr_Ttl = 0, rr_Rdatas = []\<rparr>) names m"

definition UpdateRdataExsits :: "Message \<Rightarrow> RRset \<Rightarrow> Message" where
  "UpdateRdataExsits m rrset = AddRRset m AnswerSection rrset"

definition UpdateRRsetExists :: "Message \<Rightarrow> RRset \<Rightarrow> Message" where
  "UpdateRRsetExists m rrset = AddRRset m AnswerSection
     \<lparr>rr_Name = rr_Name rrset, rr_Type = rr_Type rrset, rr_Class = CLASS_ANY, rr_Ttl = 0, rr_Rdatas = []\<rparr>"

definition UpdateRRsetNotExists :: "Message \<Rightarrow> RRset \<Rightarrow> Message" where
  "UpdateRRsetNotExists m rrset = AddRRset m AnswerSection
     \<lparr>rr_Name = rr_Name rrset, rr_Type = rr_Type rrset, rr_Class = CLASS_NONE, rr_Ttl = 0, rr_Rdatas = []\<rparr>"

definition UpdateAddRRset :: "Message \<Rightarrow> RRset \<Rightarrow> Message" where
  "UpdateAddRRset m rrset = AddRRset m AuthSection rrset"

definition UpdateRemoveRRset :: "Message \<Rightarrow> RRset \<Rightarrow> Message" where
  "UpdateRemoveRRset m rrset = AddRRset m AuthSection
     \<lparr>rr_Name = rr_Name rrset, rr_Type = rr_Type rrset, rr_Class = CLASS_ANY, rr_Ttl = 0, rr_Rdatas = []\<rparr>"

definition UpdateRemoveName :: "Message \<Rightarrow> Name \<Rightarrow> Message" where
  "UpdateRemoveName m name = AddRRset m AuthSection
     \<lparr>rr_Name = name, rr_Type = RR_ANY, rr_Class = CLASS_ANY, rr_Ttl = 0, rr_Rdatas = []\<rparr>"

definition UpdateRemoveRdata :: "Message \<Rightarrow> RRset \<Rightarrow> Message" where
  "UpdateRemoveRdata m rrset = AddRRset m AuthSection
     \<lparr>rr_Name = rr_Name rrset, rr_Type = rr_Type rrset, rr_Class = CLASS_NONE, rr_Ttl = 0, rr_Rdatas = rr_Rdatas rrset\<rparr>"

section \<open>Zone transfers\<close>

definition MakeAXFR :: "u16 \<Rightarrow> Name \<Rightarrow> TSIG option \<Rightarrow> Message" where
  "MakeAXFR msgid zone tsig =
     SetTSIG (Message_zero\<lparr>m_Header := Header_zero\<lparr>Opcode := 0, Id := msgid, QDCount := 1\<rparr>,
       m_Question := Some \<lparr>q_Name = zone, q_Type = RR_AXFR, q_Class = CLASS_IN\<rparr>\<rparr>) tsig"

definition MakeIXFR :: "u16 \<Rightarrow> Name \<Rightarrow> RRset \<Rightarrow> TSIG option \<Rightarrow> Message" where
  "MakeIXFR msgid zone currentSOA tsig =
     (let m = AddRRset (Message_zero\<lparr>m_Header := Header_zero\<lparr>Opcode := 0, Id := msgid, QDCount := 1, NSCount := 1\<rparr>,
                m_Question := Some \<lparr>q_Name = zone, q_Type = RR_IXFR, q_Class = CLASS_IN\<rparr>\<rparr>) AuthSection currentSOA
      in if tsig \<noteq> None then SetTSIG m tsig else m)"

section \<open>Verifying a signature\<close>

text \<open>
  The result is the message and the record as the call leaves them (the message loses its record
  and has its counts recomputed, the record has its defaults filled in), and the returned error.
  \<open>hmac.Equal\<close> is equality of the bytes.
\<close>

definition VerifyTsig ::
  "(TSIGAlgorithm \<Rightarrow> byte list \<Rightarrow> byte list \<Rightarrow> byte list) \<Rightarrow> 64 word \<Rightarrow> TSIG \<Rightarrow> Message \<Rightarrow> byte list \<Rightarrow> byte list option
   \<Rightarrow> (g53_error, Message \<times> TSIG \<times> g53_error option) go" where
  "VerifyTsig hmac now tsig msg secret requestMac =
     (let msg = RecalculateSectionRRCount (msg\<lparr>m_Tsig := None\<rparr>) in
      gbind (Message_Rend now msg NewMsgRender) (\<lambda>(msg, render).
      gbind (toWireFmtBuf now tsig (odata (rbuf render)) requestMac) (\<lambda>(tsig, buf).
      let ti = (if now < tsig_TimeSigned tsig then tsig_TimeSigned tsig - now else now - tsig_TimeSigned tsig) in
      if ucast (tsig_Fudge tsig) < ti then Ret (msg, tsig, Some ErrTime)
      else
        case hashSelect hmac (tsig_Algorithm tsig) secret of
          Ret h \<Rightarrow>
            let h = h\<lparr>hash_written := hash_written h @ buf\<rparr> in
            Ret (msg, tsig, if hash_Sum h (hash_written h) \<noteq> mac_bytes tsig then Some ErrSig else None)
        | Err e \<Rightarrow> Ret (msg, tsig, Some e)
        | Panic \<Rightarrow> Panic
        | Diverge \<Rightarrow> Diverge)))"

end
