(* ===== verification/Message_Codec.thy ===== *)
theory Message_Codec
  imports Edns_Codec Tsig_Codec Message
begin

text \<open>
  Messages: what \<open>Message_Rend\<close> writes is what \<open>MessageFromWire\<close> reads, section by section, with the
  EDNS and TSIG pseudo records.
\<close>

section \<open>The loop of a section\<close>

definition split_last :: "'a list \<Rightarrow> 'a option \<times> 'a list" where
  "split_last xs = (if xs = [] then (None, []) else (Some (last xs), butlast xs))"

lemma split_last_snoc [simp]: "split_last (xs @ [x]) = (Some x, xs)"
  by (simp add: split_last_def)

lemma section_loop_reads:
  assumes "reads_many RRsetFromWire zs D p q" "list_all (\<lambda>z. wf_name (rr_Name z)) acc" "list_all (\<lambda>z. wf_name (rr_Name z)) zs"
  shows "section_loop (length zs) (buf_at D p) (fst (split_last acc)) (snd (split_last acc)) =
    gbind (group_records acc zs) (\<lambda>s. Ret (fst (split_last s), snd (split_last s), buf_at D q))"
  using assms
proof (induction zs arbitrary: p acc)
  case (Cons z zs)
  then obtain m where m: "reads RRsetFromWire z D p m" "reads_many RRsetFromWire zs D m q" by auto
  have z: "wf_name (rr_Name z)" "list_all (\<lambda>z. wf_name (rr_Name z)) zs" using Cons.prems(3) by simp_all
  note IH = Cons.IH [OF m(2) _ z(2)]
  show ?case
  proof (cases acc rule: rev_cases)
    case Nil
    then show ?thesis using IH [of "[z]"] m(1) z(1) by (simp add: split_last_def reads_def)
  next
    case (snoc xs l)
    then have l: "wf_name (rr_Name l)" "list_all (\<lambda>z. wf_name (rr_Name z)) xs" using Cons.prems(2) by simp_all
    have "section_loop (length zs) (buf_at D m) (Some (l\<lparr>rr_Rdatas := ds\<rparr>)) xs =
        gbind (group_records (xs @ [l\<lparr>rr_Rdatas := ds\<rparr>]) zs) (\<lambda>s. Ret (fst (split_last s), snd (split_last s), buf_at D q))" for ds
      using IH [of "xs @ [l\<lparr>rr_Rdatas := ds\<rparr>]"] l by simp
    moreover have "section_loop (length zs) (buf_at D m) (Some z) (xs @ [l]) =
        gbind (group_records (xs @ [l, z]) zs) (\<lambda>s. Ret (fst (split_last s), snd (split_last s), buf_at D q))"
      using IH [of "xs @ [l] @ [z]"] l z split_last_snoc [of "xs @ [l]" z] by simp
    ultimately show ?thesis using m(1) snoc IsSameRRset_key [OF l(1) z(1)]
      by (simp add: reads_def gbind_assoc)
  qed
qed (simp add: split_last_def)

text \<open>Rendering a section is rendering its records.\<close>

lemma Section_Rend_records: "Section_Rend now s = rend_many (RRset_Rend now) (concat (map records s))"
proof (induction s)
  case (Cons x s)
  show ?case
    by (simp add: fun_eq_iff rend_many_append Cons.IH flip: RRset_Rend_records)
qed (simp add: fun_eq_iff)

lemma length_records: "length (concat (map records s)) = rrCount s"
  by (induction s) (auto simp: records_def rrCount_def RRCount_def)

definition section_size :: "Section \<Rightarrow> nat" where
  "section_size s = sum_list (map record_size (concat (map records s)))"

definition section_reads :: "byte set \<Rightarrow> Section \<Rightarrow> byte list \<Rightarrow> nat \<Rightarrow> nat \<Rightarrow> bool" where
  "section_reads A s D p q \<longleftrightarrow> (\<exists>ys. list_all2 (rrset_alike A) s ys \<and>
     section_loop (rrCount s) (buf_at D p) None [] = Ret (fst (split_last ys), snd (split_last ys), buf_at D q))"

lemma records_ok: "rrset_ok A x \<Longrightarrow> y \<in> set (records x) \<Longrightarrow> rrset_ok A y \<and> length (rr_Rdatas y) \<le> 1"
  by (auto simp: records_def rrset_ok_def list_all_iff split: if_splits)

text \<open>A list of records that can be read one after the other.\<close>

definition recs_read :: "byte set \<Rightarrow> RRset list \<Rightarrow> byte list \<Rightarrow> nat \<Rightarrow> nat \<Rightarrow> bool" where
  "recs_read A xs D p q \<longleftrightarrow> (\<exists>zs. list_all2 (rrset_alike A) xs zs \<and> reads_many RRsetFromWire zs D p q)"

lemma reads_many_append: "reads_many dec (xs @ ys) D p q \<longleftrightarrow> (\<exists>m. reads_many dec xs D p m \<and> reads_many dec ys D m q)"
  by (induction xs arbitrary: p) auto

lemma recs_read_append: "recs_read A xs D p m \<Longrightarrow> recs_read A ys D m q \<Longrightarrow> recs_read A (xs @ ys) D p q"
  unfolding recs_read_def using reads_many_append by (metis list_all2_appendI)

lemma section_reads_recs:
  assumes "successively (\<lambda>x y. \<not> same_key x y) s" "recs_read A (concat (map records s)) D p q"
  shows "section_reads A s D p q"
proof -
  obtain zs where zs: "list_all2 (rrset_alike A) (concat (map records s)) zs" "reads_many RRsetFromWire zs D p q"
    using assms(2) by (auto simp: recs_read_def)
  obtain ys where ys: "list_all2 (rrset_alike A) s ys" "group_records [] zs = Ret ys"
    using group_section [OF zs(1) assms(1), of "[]"] by auto
  have wf: "list_all (\<lambda>z. wf_name (rr_Name z)) zs"
    using list_all2_nthD2 [OF zs(1)] unfolding list_all_length by (auto simp: rrset_alike_def name_alike_def name_ok_def)
  have "length zs = rrCount s" using list_all2_lengthD [OF zs(1)] length_records by simp
  then show ?thesis using section_loop_reads [OF zs(2) _ wf, of "[]"] ys
    by (auto simp: section_reads_def split_last_def)
qed

lemma emits_section:
  assumes "list_all (rrset_ok A) s"
  shows "emits A (section_size s) (Section_Rend now s) (recs_read A (concat (map records s)))"
proof -
  have "list_all (\<lambda>x. rrset_ok A x \<and> length (rr_Rdatas x) \<le> 1) (concat (map records s))"
    using assms records_ok by (auto simp: list_all_iff)
  then show ?thesis unfolding Section_Rend_records section_size_def recs_read_def
    by (rule record_rend.rend_many_reads)
qed

section \<open>Messages\<close>

text \<open>
  The parts of a message behind its header. \<open>extra\<close> is a rendering step that appends the records
  \<open>xs\<close> to the additional section: the TSIG record, or nothing.
\<close>

definition edns_rrsets :: "Message \<Rightarrow> RRset list" where
  "edns_rrsets m = (case m_Edns m of None \<Rightarrow> [] | Some e \<Rightarrow> [edns_rrset e])"

definition body_Rend :: "64 word \<Rightarrow> Message \<Rightarrow> MsgRender \<Rightarrow> (g53_error, MsgRender) go" where
  "body_Rend now m r =
     gbind (case m_Question m of None \<Rightarrow> Ret r | Some q \<Rightarrow> Question_Rend q r) (\<lambda>r.
     gbind (Section_Rend now (m_Sections m AnswerSection) r) (\<lambda>r.
     gbind (Section_Rend now (m_Sections m AuthSection) r) (\<lambda>r.
     gbind (Section_Rend now (m_Sections m AdditionalSection) r) (\<lambda>r.
     case m_Edns m of None \<Rightarrow> Ret r | Some e \<Rightarrow> EDNS_Rend e r))))"

definition message_ok :: "byte set \<Rightarrow> Message \<Rightarrow> bool" where
  "message_ok A m \<longleftrightarrow>
     (case m_Question m of None \<Rightarrow> True | Some q \<Rightarrow> name_ok A (q_Name q)) \<and>
     (\<forall>st \<in> {AnswerSection, AuthSection, AdditionalSection}.
        list_all (rrset_ok A) (m_Sections m st) \<and> successively (\<lambda>x y. \<not> same_key x y) (m_Sections m st)) \<and>
     list_all (\<lambda>x. rr_Type x \<noteq> RR_OPT \<and> rr_Type x \<noteq> RR_TSIG) (m_Sections m AdditionalSection) \<and>
     (case m_Edns m of None \<Rightarrow> True | Some e \<Rightarrow> 0 \<notin> A \<and> edns_ok e)"

definition body_size :: "Message \<Rightarrow> nat" where
  "body_size m = 260 + (section_size (m_Sections m AnswerSection) + (section_size (m_Sections m AuthSection) +
     (section_size (m_Sections m AdditionalSection) +
      (case m_Edns m of None \<Rightarrow> 0 | Some e \<Rightarrow> 266 + length (concat (map option_bytes (e_Options e)))))))"

definition question_reads :: "byte set \<Rightarrow> Message \<Rightarrow> byte list \<Rightarrow> nat \<Rightarrow> nat \<Rightarrow> bool" where
  "question_reads A m D p q \<longleftrightarrow>
     (case m_Question m of
        None \<Rightarrow> q = p
      | Some x \<Rightarrow> \<exists>y. question_alike A x y \<and> reads QuestionFromWire y D p q)"

definition body_reads :: "byte set \<Rightarrow> Message \<Rightarrow> byte list \<Rightarrow> nat \<Rightarrow> nat \<Rightarrow> bool" where
  "body_reads A m D p q \<longleftrightarrow> (\<exists>a b c. question_reads A m D p a \<and> section_reads A (m_Sections m AnswerSection) D a b \<and>
     section_reads A (m_Sections m AuthSection) D b c \<and>
     recs_read A (concat (map records (m_Sections m AdditionalSection @ edns_rrsets m))) D c q)"

lemma emits_option:
  assumes "\<And>x. v = Some x \<Longrightarrow> emits A (sz x) (f x) (P x)"
  shows "emits A (case v of None \<Rightarrow> 0 | Some x \<Rightarrow> sz x) (\<lambda>r. case v of None \<Rightarrow> Ret r | Some x \<Rightarrow> f x r)
    (\<lambda>D p q. case v of None \<Rightarrow> q = p | Some x \<Rightarrow> P x D p q)"
  using assms emits_Ret by (cases v) (simp_all add: eta_contract_eq)

lemma records_edns: "records (edns_rrset e) = [edns_rrset e]"
  by (auto simp: records_def edns_rrset_def)

lemma records_tsig: "records (tsig_rrset t h) = [tsig_rrset t h]"
  by (auto simp: records_def tsig_rrset_def)

lemma emits_body:
  assumes ok: "message_ok A m"
  shows "emits A (body_size m) (body_Rend now m) (body_reads A m)"
proof -
  note ok' = ok [unfolded message_ok_def, simplified]
  have q: "emits A (case m_Question m of None \<Rightarrow> 0 | Some q \<Rightarrow> 260) (\<lambda>r. case m_Question m of None \<Rightarrow> Ret r | Some q \<Rightarrow> Question_Rend q r)
    (\<lambda>D p q. case m_Question m of None \<Rightarrow> q = p | Some x \<Rightarrow> \<exists>y. question_alike A x y \<and> reads QuestionFromWire y D p q)"
    by (rule emits_option) (use ok' in \<open>auto intro!: question_rend.rend_rel_reads\<close>)
  have q: "emits A 260 (\<lambda>r. case m_Question m of None \<Rightarrow> Ret r | Some q \<Rightarrow> Question_Rend q r) (question_reads A m)"
    by (rule emits_weaken [OF q]) (auto simp: question_reads_def split: option.splits)
  have s: "emits A (section_size (m_Sections m st)) (Section_Rend now (m_Sections m st)) (recs_read A (concat (map records (m_Sections m st))))" for st
    using ok' by (cases st) (auto intro!: emits_section)
  have s': "emits A (section_size (m_Sections m st)) (Section_Rend now (m_Sections m st)) (section_reads A (m_Sections m st))" for st
    by (rule emits_weaken [OF s]) (use ok' section_reads_recs in \<open>(cases st; auto), simp\<close>)
  have e: "emits A (case m_Edns m of None \<Rightarrow> 0 | Some e \<Rightarrow> 266 + length (concat (map option_bytes (e_Options e))))
    (\<lambda>r. case m_Edns m of None \<Rightarrow> Ret r | Some e \<Rightarrow> EDNS_Rend e r)
    (\<lambda>D p q. case m_Edns m of None \<Rightarrow> q = p | Some e \<Rightarrow> \<exists>y. rrset_alike A (edns_rrset e) y \<and> reads RRsetFromWire y D p q)"
    by (rule emits_option, rule edns_rend.rend_rel_reads) (use ok' in auto)
  have e: "emits A (case m_Edns m of None \<Rightarrow> 0 | Some e \<Rightarrow> 266 + length (concat (map option_bytes (e_Options e))))
    (\<lambda>r. case m_Edns m of None \<Rightarrow> Ret r | Some e \<Rightarrow> EDNS_Rend e r) (recs_read A (concat (map records (edns_rrsets m))))"
    by (rule emits_weaken [OF e]) (auto simp: edns_rrsets_def recs_read_def records_edns list_all2_Cons1 split: option.splits)
  show ?thesis
    unfolding body_Rend_def [abs_def] body_size_def
  proof (rule emits_weaken [OF emits_seq [OF q emits_seq [OF s' emits_seq [OF s' emits_seq [OF s e]]]]], goal_cases)
    case (1 D p q)
    then show ?case unfolding body_reads_def map_append concat_append by (meson recs_read_append)
  qed simp
qed

section \<open>Decoding\<close>

lemma sectionFromWire_plain:
  assumes "section_reads A s D p q" "unat (section_count (m_Header m) st) = rrCount s" "st \<noteq> AdditionalSection"
  shows "\<exists>ys. list_all2 (rrset_alike A) s ys \<and>
    sectionFromWire m st (buf_at D p) = Ret (m\<lparr>m_Sections := (m_Sections m)(st := ys)\<rparr>, buf_at D q)"
proof -
  obtain ys where ys: "list_all2 (rrset_alike A) s ys"
    "section_loop (rrCount s) (buf_at D p) None [] = Ret (fst (split_last ys), snd (split_last ys), buf_at D q)"
    using assms(1) by (auto simp: section_reads_def)
  then have "sectionFromWire m st (buf_at D p) = Ret (m\<lparr>m_Sections := (m_Sections m)(st := ys)\<rparr>, buf_at D q)"
    using assms(2,3) by (simp add: sectionFromWire_def split_last_def)
  then show ?thesis using ys(1) by blast
qed

lemma sectionFromWire_additional:
  assumes "section_reads A s D p q" "unat (ARCount (m_Header m)) = rrCount s"
    "list_all (\<lambda>x. rr_Type x \<noteq> RR_OPT \<and> rr_Type x \<noteq> RR_TSIG) s"
  shows "\<exists>ys. list_all2 (rrset_alike A) s ys \<and>
    sectionFromWire m AdditionalSection (buf_at D p) = Ret (m\<lparr>m_Sections := (m_Sections m)(AdditionalSection := ys)\<rparr>, buf_at D q)"
proof -
  obtain ys where ys: "list_all2 (rrset_alike A) s ys"
    "section_loop (rrCount s) (buf_at D p) None [] = Ret (fst (split_last ys), snd (split_last ys), buf_at D q)"
    using assms(1) by (auto simp: section_reads_def)
  have "ys \<noteq> [] \<Longrightarrow> rr_Type (last ys) \<noteq> RR_OPT \<and> rr_Type (last ys) \<noteq> RR_TSIG"
    using ys(1) assms(3) by (cases s rule: rev_cases) (auto simp: list_all2_append1 list_all2_Cons1 rrset_alike_def)
  then have "sectionFromWire m AdditionalSection (buf_at D p) = Ret (m\<lparr>m_Sections := (m_Sections m)(AdditionalSection := ys)\<rparr>, buf_at D q)"
    using assms(2) ys(2) by (auto simp: sectionFromWire_def section_count_def split_last_def)
  then show ?thesis using ys(1) by blast
qed

lemma sectionFromWire_pseudo:
  assumes "section_reads A (s @ [x]) D p q" "unat (ARCount (m_Header m)) = rrCount (s @ [x])"
  shows "\<exists>ys y. list_all2 (rrset_alike A) s ys \<and> rrset_alike A x y \<and> sectionFromWire m AdditionalSection (buf_at D p) =
    gbind (if rr_Type x = RR_OPT then gbind (EdnsFromRRset y) (\<lambda>e. Ret (m\<lparr>m_Edns := Some e\<rparr>, ys))
           else if rr_Type x = RR_TSIG then gbind (TSIGFromRRset y) (\<lambda>t. Ret (m\<lparr>m_Tsig := Some t\<rparr>, ys))
           else Ret (m, ys @ [y])) (\<lambda>(m, s). Ret (m\<lparr>m_Sections := (m_Sections m)(AdditionalSection := s)\<rparr>, buf_at D q))"
proof -
  obtain zs where zs: "list_all2 (rrset_alike A) (s @ [x]) zs"
    "section_loop (rrCount (s @ [x])) (buf_at D p) None [] = Ret (fst (split_last zs), snd (split_last zs), buf_at D q)"
    using assms(1) by (auto simp: section_reads_def)
  then obtain ys y where y: "zs = ys @ [y]" "list_all2 (rrset_alike A) s ys" "rrset_alike A x y"
    by (auto simp: list_all2_append1 list_all2_Cons1)
  moreover have "rr_Type y = rr_Type x" using y(3) by (simp add: rrset_alike_def)
  ultimately show ?thesis using zs(2) assms(2)
    by (intro exI [of _ ys] exI [of _ y]) (simp add: sectionFromWire_def section_count_def)
qed

text \<open>What a decoded message shares with the one that was written.\<close>

definition edns_norm :: "EDNS \<Rightarrow> EDNS" where
  "edns_norm e = e\<lparr>e_Options := map option_norm (take 1 (e_Options e))\<rparr>"

definition message_alike :: "byte set \<Rightarrow> Message \<Rightarrow> Message \<Rightarrow> bool" where
  "message_alike A m m' \<longleftrightarrow> m_Header m' = m_Header m \<and> rel_option (question_alike A) (m_Question m) (m_Question m') \<and>
     (\<forall>st. list_all2 (rrset_alike A) (m_Sections m st) (m_Sections m' st)) \<and>
     m_Edns m' = map_option edns_norm (m_Edns m) \<and> m_Tsig m' = None"

definition counts_ok :: "Message \<Rightarrow> bool" where
  "counts_ok m \<longleftrightarrow> QDCount (m_Header m) = (if m_Question m = None then 0 else 1) \<and>
     unat (ANCount (m_Header m)) = rrCount (m_Sections m AnswerSection) \<and>
     unat (NSCount (m_Header m)) = rrCount (m_Sections m AuthSection) \<and>
     unat (ARCount (m_Header m)) = rrCount (m_Sections m AdditionalSection) + (if m_Edns m = None then 0 else 1)"

definition counts_fit :: "Message \<Rightarrow> bool" where
  "counts_fit m \<longleftrightarrow> (\<forall>st. rrCount (m_Sections m st) < 65535) \<and>
     (case m_Edns m of None \<Rightarrow> True | Some e \<Rightarrow> length (e_Options e) \<le> 1)"

lemma counts_ok_Recalculate:
  assumes "counts_fit m"
  shows "counts_ok (RecalculateSectionRRCount m)"
proof -
  have c: "rrCount (m_Sections m st) < 65535" for st using assms by (simp add: counts_fit_def)
  have u: "unat (word_of_nat n :: u16) = n" if "n < 65536" for n using that by (simp add: unat_of_nat)
  have c1: "unat (word_of_nat (rrCount (m_Sections m st)) :: u16) = rrCount (m_Sections m st)" for st
    using u [of "rrCount (m_Sections m st)"] c [of st] by simp
  have c2: "unat (word_of_nat (rrCount (m_Sections m st)) + 1 :: u16) = rrCount (m_Sections m st) + 1" for st
    using u [of "rrCount (m_Sections m st) + 1"] c [of st] by (simp add: add.commute)
  have "m_Edns m = Some e \<Longrightarrow> EDNS_RRCount e = 1" for e
    using assms by (cases "e_Options e") (auto simp: counts_fit_def EDNS_RRCount_def)
  then show ?thesis
    by (auto simp: counts_ok_def RecalculateSectionRRCount_def c1 c2 split: option.splits)
qed

lemma Recalculate_simps [simp]:
  "m_Question (RecalculateSectionRRCount m) = m_Question m" "m_Sections (RecalculateSectionRRCount m) = m_Sections m"
  "m_Edns (RecalculateSectionRRCount m) = m_Edns m" "m_Tsig (RecalculateSectionRRCount m) = m_Tsig m"
  "header_ok (m_Header (RecalculateSectionRRCount m)) = header_ok (m_Header m)"
  by (simp_all add: RecalculateSectionRRCount_def header_ok_def)

lemma Message_Rend_body:
  "Message_Rend now m r = gbind (body_Rend now m (Header_Rend (m_Header m) r)) (\<lambda>r.
     case m_Tsig m of
       None \<Rightarrow> Ret (m, r)
     | Some t \<Rightarrow>
         gbind (TSIG_Rend now t r) (\<lambda>(t, r).
         gbind (patch_length r (ARCount (m_Header m) + 1) 10) (\<lambda>r. Ret (m\<lparr>m_Tsig := Some t\<rparr>, r))))"
  by (simp add: Message_Rend_def body_Rend_def gbind_assoc Let_def)

lemma FromWire_reads:
  assumes h: "HeaderFromWire (m_Header m0) (buf_at D 0) = Ret (h, buf_at D 12)"
    and q: "QDCount h = (if m_Question m = None then 0 else 1)" "question_reads A m D 12 a"
    and an: "section_reads A (m_Sections m AnswerSection) D a b" "unat (ANCount h) = rrCount (m_Sections m AnswerSection)"
    and ns: "section_reads A (m_Sections m AuthSection) D b c" "unat (NSCount h) = rrCount (m_Sections m AuthSection)"
  shows "\<exists>q' an ns. rel_option (question_alike A) (m_Question m) q' \<and>
    list_all2 (rrset_alike A) (m_Sections m AnswerSection) an \<and> list_all2 (rrset_alike A) (m_Sections m AuthSection) ns \<and>
    FromWire m0 (buf_at D 0) = sectionFromWire
      \<lparr>m_Header = h, m_Question = q', m_Sections = (m_Sections m0)(AnswerSection := an, AuthSection := ns), m_Edns = None, m_Tsig = None\<rparr>
      AdditionalSection (buf_at D c)"
proof -
  obtain q' where q': "rel_option (question_alike A) (m_Question m) q'" "q' = None \<Longrightarrow> a = 12"
    "\<And>x. q' = Some x \<Longrightarrow> reads QuestionFromWire x D 12 a"
    using q(2) by (cases "m_Question m") (auto simp: question_reads_def intro: that [of None] that [of "Some _"])
  let ?m = "\<lparr>m_Header = h, m_Question = q', m_Sections = m_Sections m0, m_Edns = None, m_Tsig = None\<rparr>"
  obtain y1 where y1: "list_all2 (rrset_alike A) (m_Sections m AnswerSection) y1"
    "sectionFromWire ?m AnswerSection (buf_at D a) = Ret (?m\<lparr>m_Sections := (m_Sections m0)(AnswerSection := y1)\<rparr>, buf_at D b)"
    using sectionFromWire_plain [OF an(1), of ?m AnswerSection] an(2) by (auto simp: section_count_def)
  let ?m1 = "?m\<lparr>m_Sections := (m_Sections m0)(AnswerSection := y1)\<rparr>"
  obtain y2 where y2: "list_all2 (rrset_alike A) (m_Sections m AuthSection) y2"
    "sectionFromWire ?m1 AuthSection (buf_at D b) = Ret (?m1\<lparr>m_Sections := (m_Sections ?m1)(AuthSection := y2)\<rparr>, buf_at D c)"
    using sectionFromWire_plain [OF ns(1), of ?m1 AuthSection] ns(2) by (auto simp: section_count_def)
  have "FromWire m0 (buf_at D 0) = gbind (sectionFromWire ?m AnswerSection (buf_at D a)) (\<lambda>(m, buf).
      gbind (sectionFromWire m AuthSection buf) (\<lambda>(m, buf). sectionFromWire m AdditionalSection buf))"
    using q(1) q' h by (cases m0; cases q'; cases "m_Question m") (auto simp: FromWire_def reads_def Let_def)
  then show ?thesis using q'(1) y1 y2 by auto
qed

lemma Header_Rend_eq: "\<exists>b. Header_Rend h r = r\<lparr>rbuf := b\<rparr> \<and> odata b = odata (rbuf r) @ enc_header h"
  using odata_Header_Rend [of h r] by (intro exI [of _ "rbuf (Header_Rend h r)"]) (simp add: Header_Rend_def Let_def Render_WriteUint16_def)

text \<open>The header is left out of what the renderer promises to keep: signing changes a count of it.\<close>

lemma message_written:
  assumes "message_ok A m" "body_size m + 312 < 2 ^ 63"
  obtains r bs where "body_Rend now m (Header_Rend h NewMsgRender) = Ret r" "odata (rbuf r) = enc_header h @ bs"
    "length bs \<le> body_size m" "render_ok A {12..<rlen r} r"
    "\<And>D. agree {12..<rlen r} (odata (rbuf r)) D \<Longrightarrow> length D < 2 ^ 63 \<Longrightarrow> body_reads A m D 12 (rlen r)"
proof -
  obtain b where b: "Header_Rend h NewMsgRender = NewMsgRender\<lparr>rbuf := b\<rparr>" "odata b = enc_header h"
    using Header_Rend_eq [of h NewMsgRender] by (auto simp: NewMsgRender_def NewOutputBuffer_def)
  let ?r = "NewMsgRender\<lparr>rbuf := b\<rparr>"
  have "render_ok A {} ?r" using render_ok_data [OF render_ok_New, of b "enc_header h"] b(2)
    by (simp add: NewMsgRender_def NewOutputBuffer_def)
  then show ?thesis
  proof (rule emitsE [OF emits_body [OF assms(1), of now]])
    show "rlen ?r + body_size m + 300 < 2 ^ 63" using b(2) assms(2) by simp
  qed (use b that in auto)
qed

lemma HeaderFromWire_at: "header_ok h \<Longrightarrow> length rest + 12 < 2 ^ 63 \<Longrightarrow>
    HeaderFromWire h0 (buf_at (enc_header h @ rest) 0) = Ret (h, buf_at (enc_header h @ rest) 12)"
  using HeaderFromWire_enc [of "[]" h rest h0] by (simp add: buf_at_input input_ok_def header_trunc_ok)

lemma successively_pseudo:
  assumes "successively (\<lambda>x y. \<not> same_key x y) s" "list_all (\<lambda>x. rr_Type x \<noteq> RR_OPT \<and> rr_Type x \<noteq> RR_TSIG) s"
    "rr_Type x = RR_OPT \<or> rr_Type x = RR_TSIG"
  shows "successively (\<lambda>x y. \<not> same_key x y) (s @ [x])"
  using assms by (cases s rule: rev_cases) (auto simp: successively_append_iff same_key_def)

lemma rrCount_snoc: "rrCount (s @ [x]) = rrCount s + (if rr_Rdatas x = [] then 1 else length (rr_Rdatas x))"
  by (simp add: rrCount_def RRCount_def)

lemma message_ok_additional:
  assumes "message_ok A m"
  shows "successively (\<lambda>x y. \<not> same_key x y) (m_Sections m AdditionalSection)"
    "list_all (\<lambda>x. rr_Type x \<noteq> RR_OPT \<and> rr_Type x \<noteq> RR_TSIG) (m_Sections m AdditionalSection)"
  using assms by (auto simp: message_ok_def)

lemma edns_rrset_type: "rr_Type (edns_rrset e) = RR_OPT"
  by (simp add: edns_rrset_def)

lemma message_decodes:
  assumes ok: "message_ok A m" "header_ok (m_Header m)" "counts_ok m" and D: "D = enc_header (m_Header m) @ bs" "length D < 2 ^ 63"
    and b: "body_reads A m D 12 q"
  shows "\<exists>m'. MessageFromWire (buf_at D 0) = Ret m' \<and> message_alike A m m'"
proof -
  obtain a b c where r: "question_reads A m D 12 a" "section_reads A (m_Sections m AnswerSection) D a b"
    "section_reads A (m_Sections m AuthSection) D b c"
    "recs_read A (concat (map records (m_Sections m AdditionalSection @ edns_rrsets m))) D c q"
    using b by (auto simp: body_reads_def)
  have h: "HeaderFromWire (m_Header Message_zero) (buf_at D 0) = Ret (m_Header m, buf_at D 12)"
    using HeaderFromWire_at [OF ok(2)] D by simp
  obtain q' an ns where f: "rel_option (question_alike A) (m_Question m) q'"
    "list_all2 (rrset_alike A) (m_Sections m AnswerSection) an" "list_all2 (rrset_alike A) (m_Sections m AuthSection) ns"
    "FromWire Message_zero (buf_at D 0) = sectionFromWire \<lparr>m_Header = m_Header m, m_Question = q',
       m_Sections = (m_Sections Message_zero)(AnswerSection := an, AuthSection := ns), m_Edns = None, m_Tsig = None\<rparr>
      AdditionalSection (buf_at D c)"
    using FromWire_reads [OF h _ r(1,2) _ r(3)] ok(3) by (auto simp: counts_ok_def)
  let ?m = "\<lparr>m_Header = m_Header m, m_Question = q',
       m_Sections = (m_Sections Message_zero)(AnswerSection := an, AuthSection := ns), m_Edns = None, m_Tsig = None\<rparr>"
  note add = message_ok_additional [OF ok(1)]
  have "\<exists>ys. list_all2 (rrset_alike A) (m_Sections m AdditionalSection) ys \<and> sectionFromWire ?m AdditionalSection (buf_at D c) =
    Ret (?m\<lparr>m_Sections := (m_Sections ?m)(AdditionalSection := ys), m_Edns := map_option edns_norm (m_Edns m)\<rparr>, buf_at D q)"
  proof (cases "m_Edns m")
    case None
    then have "section_reads A (m_Sections m AdditionalSection) D c q"
      using r(4) add(1) section_reads_recs by (simp add: edns_rrsets_def)
    then show ?thesis using sectionFromWire_additional [of A "m_Sections m AdditionalSection" D c q ?m] add(2) ok(3) None
      by (auto simp: counts_ok_def)
  next
    case (Some e)
    then have "section_reads A (m_Sections m AdditionalSection @ [edns_rrset e]) D c q"
      using r(4) section_reads_recs [OF successively_pseudo [OF add]] by (simp add: edns_rrsets_def edns_rrset_def)
    moreover have "unat (ARCount (m_Header ?m)) = rrCount (m_Sections m AdditionalSection @ [edns_rrset e])"
      using ok(3) Some by (simp add: counts_ok_def rrCount_snoc edns_rrset_def)
    ultimately obtain ys y where y: "list_all2 (rrset_alike A) (m_Sections m AdditionalSection) ys" "rrset_alike A (edns_rrset e) y"
      "sectionFromWire ?m AdditionalSection (buf_at D c) = gbind (gbind (EdnsFromRRset y) (\<lambda>e. Ret (?m\<lparr>m_Edns := Some e\<rparr>, ys)))
         (\<lambda>(m, s). Ret (m\<lparr>m_Sections := (m_Sections m)(AdditionalSection := s)\<rparr>, buf_at D q))"
      using sectionFromWire_pseudo [of A "m_Sections m AdditionalSection" "edns_rrset e" D c q ?m] by (auto simp: edns_rrset_type)
    then show ?thesis using ok(1) Some EdnsFromRRset_alike [of e A y] by (auto simp: message_ok_def edns_norm_def)
  qed
  then obtain ys where ys: "list_all2 (rrset_alike A) (m_Sections m AdditionalSection) ys"
    "FromWire Message_zero (buf_at D 0) = Ret (?m\<lparr>m_Sections := (m_Sections ?m)(AdditionalSection := ys),
       m_Edns := map_option edns_norm (m_Edns m)\<rparr>, buf_at D q)" using f(4) by auto
  have "list_all2 (rrset_alike A) (m_Sections m st) (((m_Sections ?m)(AdditionalSection := ys)) st)" for st
    using f(2,3) ys(1) by (cases st) simp_all
  then show ?thesis using f(1) ys(2) by (auto simp: MessageFromWire_def message_alike_def)
qed


lemma message_round_trip_lemma:
  assumes "message_ok A m" "header_ok (m_Header m)" "counts_ok m" "m_Tsig m = None" "body_size m + 312 < 2 ^ 63"
  shows "\<exists>r m'. Message_Rend now m NewMsgRender = Ret (m, r) \<and>
    MessageFromWire (NewInputBuffer (odata (rbuf r))) = Ret m' \<and> message_alike A m m'"
proof (rule message_written [OF assms(1,5), of now "m_Header m"])
  fix r bs assume r: "body_Rend now m (Header_Rend (m_Header m) NewMsgRender) = Ret r" "odata (rbuf r) = enc_header (m_Header m) @ bs"
    "length bs \<le> body_size m" "\<And>D. agree {12..<rlen r} (odata (rbuf r)) D \<Longrightarrow> length D < 2 ^ 63 \<Longrightarrow> body_reads A m D 12 (rlen r)"
  have "rlen r < 2 ^ 63" using r(2,3) assms(5) by simp
  then show ?thesis
    using message_decodes [OF assms(1-3) r(2) _ r(4) [OF agree_refl]] r(1) assms(4)
    by (auto simp: Message_Rend_body NewInputBuffer_at)
qed

section \<open>Names in lower case\<close>

text \<open>
  Compression matches names without regard to case, so a decoded name can differ from the written
  one in case. Over an alphabet of lower-case bytes every name is read back exactly.
\<close>

definition lower :: "byte set" where
  "lower = {b. b \<noteq> 0 \<and> maptolower b = b}"

lemma fold_case_lower: "A \<subseteq> lower \<Longrightarrow> over A ls \<Longrightarrow> fold_case ls = ls"
  unfolding over_def fold_case_def lower_def by (intro map_idI) (auto intro!: map_idI)

lemma name_norm_lower: "A \<subseteq> lower \<Longrightarrow> name_ok A n \<Longrightarrow> name_norm n = n"
  by (simp add: name_norm_def name_ok_def fold_case_lower wf_name_def)

lemma name_alike_lower: "A \<subseteq> lower \<Longrightarrow> name_ok A n \<Longrightarrow> name_alike A n m \<Longrightarrow> m = n"
  unfolding name_alike_def name_ok_def wf_name_def by (metis fold_case_lower)

lemma rdata_norm_fields:
  assumes "A \<subseteq> lower" "rdata_ok A d"
  shows "rdata_fields (rdata_norm d) = rdata_fields d"
  using assms by (cases d) (auto simp: rdata_ok_def name_norm_lower encodeStringToHex_def)

lemma Rdata_Rend_lower:
  assumes "A \<subseteq> lower" "rdata_ok A d"
  shows "Rdata_Rend now' (rdata_norm d) = Rdata_Rend now d"
  using rdata_norm_fields [OF assms] Rdata_Rend_fields [of d now] Rdata_Rend_fields [of "rdata_norm d" now'] assms(2)
  by (simp add: rdata_ok_def)

lemma RRset_Rend_lower:
  assumes "A \<subseteq> lower" "rrset_ok A x" "rrset_alike A x y"
  shows "RRset_Rend now' y = RRset_Rend now x"
proof -
  have y: "rr_Name y = rr_Name x" "rr_Type y = rr_Type x" "rr_Class y = rr_Class x" "rr_Ttl y = rr_Ttl x"
    "rr_Rdatas y = map rdata_norm (rr_Rdatas x)"
    using assms name_alike_lower by (auto simp: rrset_ok_def rrset_alike_def)
  then have h: "rr_header_Rend y = rr_header_Rend x" by (simp add: fun_eq_iff rr_header_Rend_def)
  have "list_all (rdata_ok A) ds \<Longrightarrow> rdatas_Rend now' y (map rdata_norm ds) = rdatas_Rend now x ds" for ds
  proof (induction ds)
    case (Cons d ds)
    then show ?case using Rdata_Rend_lower [OF assms(1), of d now' now] by (intro ext) (simp add: h Let_def)
  qed (simp add: fun_eq_iff)
  moreover have "list_all (rdata_ok A) (rr_Rdatas x)" using assms(2) by (auto simp: rrset_ok_def list_all_iff)
  ultimately show ?thesis by (simp add: fun_eq_iff RRset_Rend_def y(5) h)
qed

lemma Section_Rend_lower:
  assumes "A \<subseteq> lower" "list_all2 (rrset_alike A) s s'" "list_all (rrset_ok A) s"
  shows "Section_Rend now' s' = Section_Rend now s \<and> rrCount s' = rrCount s"
  using assms(2,3)
proof (induction rule: list_all2_induct)
  case (Cons x xs y ys)
  then show ?case using RRset_Rend_lower [OF assms(1), of x y now' now]
    by (auto intro!: ext simp: rrCount_def RRCount_def rrset_alike_def)
qed (simp add: fun_eq_iff)

section \<open>EDNS as a record\<close>

text \<open>With no option the OPT record is rendered like any other record.\<close>

definition edns_as_rrset :: "Message \<Rightarrow> Message" where
  "edns_as_rrset m = m\<lparr>m_Sections := (m_Sections m)(AdditionalSection := m_Sections m AdditionalSection @ edns_rrsets m), m_Edns := None\<rparr>"

definition plain_edns :: "Message \<Rightarrow> bool" where
  "plain_edns m \<longleftrightarrow> (case m_Edns m of None \<Rightarrow> True | Some e \<Rightarrow> e_Options e = [])"

lemma EDNS_Rend_record: "e_Options e = [] \<Longrightarrow> EDNS_Rend e = RRset_Rend now (edns_rrset e)"
  by (simp add: fun_eq_iff EDNS_Rend_def RRset_Rend_def rr_header_Rend_def edns_rrset_def Let_def gbind_assoc)

lemma Section_Rend_append: "Section_Rend now (s @ s') = (\<lambda>r. gbind (Section_Rend now s r) (Section_Rend now s'))"
proof (induction s)
  case (Cons x s)
  show ?case by (intro ext) (simp add: Cons.IH gbind_assoc)
qed (simp add: fun_eq_iff)

lemma Section_Rend_few: "Section_Rend now [] = Ret" "Section_Rend now [x] = RRset_Rend now x"
proof -
  show *: "Section_Rend now [] = Ret" by (simp add: fun_eq_iff)
  show "Section_Rend now [x] = RRset_Rend now x" by (intro ext) (simp add: *)
qed

lemma body_Rend_edns: "plain_edns m \<Longrightarrow> body_Rend now (edns_as_rrset m) = body_Rend now m"
  by (intro ext) (auto simp: body_Rend_def EDNS_Rend_record [of _ now] Section_Rend_few eta_contract_eq edns_as_rrset_def plain_edns_def edns_rrsets_def Section_Rend_append gbind_assoc
    split: option.splits)

lemma edns_rrsets_ok:
  assumes "message_ok A m" "plain_edns m"
  shows "list_all (rrset_ok A) (edns_rrsets m)" "rrCount (edns_rrsets m) = (if m_Edns m = None then 0 else 1)"
  using assms name_ok_Root [of A]
  by (auto simp: message_ok_def plain_edns_def edns_rrsets_def rrset_ok_def edns_rrset_def rrCount_def RRCount_def split: option.splits)

section \<open>Signing and verifying\<close>

lemma over_lower: "over lower ls \<longleftrightarrow> list_all (list_all (\<lambda>b. b \<noteq> 0 \<and> maptolower b = b)) ls"
  by (auto simp: over_def lower_def list_all_iff)

lemma algorithm_name_text:
  assumes "valid_labels ls" "over lower ls" "name_text ls False = algo"
  shows "\<exists>alg. algorithm_name algo = Ret alg \<and> name_ok lower alg \<and> Name_String (name_norm alg) False = Ret algo"
proof -
  have "fold_case ls = ls" using assms(2) fold_case_lower by blast
  then have "NameFromString algo = Ret (name_of ls)"
    using NewName_text [OF assms(1), of False True] assms(3) by (simp add: NameFromString_def cased_def)
  then show ?thesis
    using assms \<open>fold_case ls = ls\<close> Name_String_labels [OF assms(1), of False]
    by (simp add: algorithm_name_def name_ok_def wf_name_of name_norm_def labels_name_of)
qed

lemma algorithm_names:
  assumes "algo \<in> {HmacMD5, HmacSHA1, HmacSHA256, HmacSHA512}"
  shows "\<exists>alg. algorithm_name algo = Ret alg \<and> name_ok lower alg \<and> Name_String (name_norm alg) False = Ret algo"
proof -
  define good where "good ls algo \<longleftrightarrow> valid_labels ls \<and> list_all (list_all (\<lambda>b. b \<noteq> 0 \<and> maptolower b = b)) ls \<and> name_text ls False = algo" for ls algo
  have "good [ascii ''hmac-md5'', ascii ''sig-alg'', ascii ''reg'', ascii ''int''] HmacMD5" unfolding good_def by code_simp
  moreover have "good [ascii ''hmac-sha1''] HmacSHA1" "good [ascii ''hmac-sha256''] HmacSHA256" "good [ascii ''hmac-sha512''] HmacSHA512"
    unfolding good_def by code_simp+
  ultimately have "\<exists>ls. good ls algo" using assms by blast
  then show ?thesis using algorithm_name_text by (auto simp: good_def over_lower)
qed

lemma toWireFmtBuf_same:
  assumes "tsig_TimeSigned t \<noteq> 0" "tsig_Fudge t \<noteq> 0" "tsig_Header t = Some h" "algorithm_name (tsig_Algorithm t) = Ret alg"
  shows "\<exists>B. \<forall>now t' h'. tsig_Header t' = Some h' \<and> th_Name h' = th_Name h \<and> th_Ttl h' = th_Ttl h \<and>
    tsig_Algorithm t' = tsig_Algorithm t \<and> tsig_TimeSigned t' = tsig_TimeSigned t \<and> tsig_Fudge t' = tsig_Fudge t \<and>
    tsig_Error t' = tsig_Error t \<and> tsig_OtherLen t' = tsig_OtherLen t \<and> tsig_OtherData t' = tsig_OtherData t \<longrightarrow>
    toWireFmtBuf now t' bs mac = Ret (t', B)"
  using assms by (simp add: toWireFmtBuf_def tsigWireFmt_ToWire_def Let_def)

text \<open>A key that can sign: a header with a lower-case name, a digest that has not been written to.\<close>

definition signing_key :: "(byte list \<Rightarrow> byte list) \<Rightarrow> TSIG \<Rightarrow> TsigHeader \<Rightarrow> bool" where
  "signing_key H t h \<longleftrightarrow> tsig_Header t = Some h \<and> name_ok lower (th_Name h) \<and> th_Rrtype h = RR_TSIG \<and>
     tsig_Algorithm t \<in> {HmacMD5, HmacSHA1, HmacSHA256, HmacSHA512} \<and> tsig_hash t = Some \<lparr>hash_Sum = H, hash_written = []\<rparr> \<and>
     tsig_Error t = 0 \<and> tsig_OtherLen t = 0 \<and> tsig_OtherData t = [] \<and>
     tsig_TimeSigned t \<noteq> 0 \<and> take_bit 48 (tsig_TimeSigned t) = tsig_TimeSigned t \<and> tsig_Fudge t \<noteq> 0 \<and>
     (\<forall>x. length (H x) < 65000)"

lemma genMessageHash_signs:
  assumes k: "signing_key H t h"
  shows "\<exists>B alg. algorithm_name (tsig_Algorithm t) = Ret alg \<and>
    (let t1 = t\<lparr>tsig_hash := Some \<lparr>hash_Sum = H, hash_written = B\<rparr>, tsig_MAC := Some (H B), tsig_MACSize := word_of_nat (length (H B))\<rparr>
     in genMessageHash now t bs = Ret t1 \<and> tsig_ok lower t1 alg \<and> tsig_Header t1 = Some h \<and>
     (\<forall>now' n. th_Name n = th_Name h \<and> th_Ttl n = th_Ttl h \<longrightarrow>
        toWireFmtBuf now' (tsig_wire t1\<lparr>tsig_Header := Some n\<rparr>) bs (tsig_MAC t) = Ret (tsig_wire t1\<lparr>tsig_Header := Some n\<rparr>, B)))"
proof -
  have k1: "tsig_Algorithm t \<in> {HmacMD5, HmacSHA1, HmacSHA256, HmacSHA512}" using k unfolding signing_key_def by blast
  have k2: "tsig_Header t = Some h" "tsig_hash t = Some \<lparr>hash_Sum = H, hash_written = []\<rparr>" "tsig_Error t = 0" "tsig_OtherLen t = 0"
    "tsig_OtherData t = []" "tsig_TimeSigned t \<noteq> 0" "take_bit 48 (tsig_TimeSigned t) = tsig_TimeSigned t" "tsig_Fudge t \<noteq> 0"
    "\<And>x. length (H x) < 65000" using k unfolding signing_key_def by blast+
  obtain alg where alg: "algorithm_name (tsig_Algorithm t) = Ret alg" "name_ok lower alg" "Name_String (name_norm alg) False = Ret (tsig_Algorithm t)"
    using algorithm_names [OF k1] by blast
  obtain B where B: "\<And>now t' h'. tsig_Header t' = Some h' \<and> th_Name h' = th_Name h \<and> th_Ttl h' = th_Ttl h \<and>
    tsig_Algorithm t' = tsig_Algorithm t \<and> tsig_TimeSigned t' = tsig_TimeSigned t \<and> tsig_Fudge t' = tsig_Fudge t \<and>
    tsig_Error t' = tsig_Error t \<and> tsig_OtherLen t' = tsig_OtherLen t \<and> tsig_OtherData t' = tsig_OtherData t \<Longrightarrow>
    toWireFmtBuf now t' bs (tsig_MAC t) = Ret (t', B)"
    using toWireFmtBuf_same [OF k2(6,8,1) alg(1), of bs "tsig_MAC t"] by blast
  let ?t1 = "t\<lparr>tsig_hash := Some \<lparr>hash_Sum = H, hash_written = B\<rparr>, tsig_MAC := Some (H B), tsig_MACSize := word_of_nat (length (H B))\<rparr>"
  have "toWireFmtBuf now t bs (tsig_MAC t) = Ret (t, B)" using B k2(1) by simp
  then have "genMessageHash now t bs = Ret ?t1" using k2 by (simp add: genMessageHash_def Let_def)
  moreover have "length (H B) < 65536" using k2(9) [of B] by simp
  then have "tsig_ok lower ?t1 alg" using k2(4,5,7) k2(9) [of B] alg(2,3) by (simp add: tsig_ok_def mac_bytes_def unat_of_nat)
  moreover have "toWireFmtBuf now' (tsig_wire ?t1\<lparr>tsig_Header := Some n\<rparr>) bs (tsig_MAC t) = Ret (tsig_wire ?t1\<lparr>tsig_Header := Some n\<rparr>, B)"
    if "th_Name n = th_Name h \<and> th_Ttl n = th_Ttl h" for now' n
    by (rule B) (use that in \<open>simp add: tsig_wire_def\<close>)
  moreover have "tsig_Header ?t1 = Some h" using k2(1) by simp
  ultimately show ?thesis using alg(1) unfolding Let_def by blast
qed

lemma patch_header_count:
  assumes "odata (rbuf r) = enc_header h @ bs" "rlen r < 2 ^ 63"
  shows "\<exists>b. patch_length r v 10 = Ret (r\<lparr>rbuf := b\<rparr>) \<and> odata b = enc_header (h\<lparr>ARCount := v\<rparr>) @ bs"
proof -
  let ?pre = "be16 (Id h) @ be16 (Header_flag h) @ be16 (QDCount h) @ be16 (ANCount h) @ be16 (NSCount h)"
  have f: "Header_flag (h\<lparr>ARCount := v\<rparr>) = Header_flag h" by (simp add: Header_flag_def)
  have "odata (rbuf r) = ?pre @ be16 (ARCount h) @ bs" using assms(1) by (simp add: enc_header_def)
  then obtain b where "WriteUint16At (rbuf r) v (length ?pre) = Ret b" "odata b = ?pre @ be16 v @ bs"
    using WriteUint16At_mid [of ?pre bs "be16 (ARCount h)" "rbuf r" v] assms(2) by auto
  then show ?thesis
    by (intro exI [of _ b]) (simp add: patch_length_def Render_WriteUint16At_def enc_header_def f)
qed

lemma agree_behind_header: "length h = length h' \<Longrightarrow> agree {length h..<n} (h @ bs) (h' @ bs @ cs)"
  by (auto simp: agree_def nth_append)

definition sign_room :: nat where
  "sign_room = 67000"

text \<open>The signed message, and the message digest that was signed.\<close>

lemma signed_written:
  assumes m: "message_ok lower m" "header_ok (m_Header m)" "m_Tsig m = Some t" "signing_key H t h" "body_size m + sign_room < 2 ^ 63"
  obtains r0 r B bs D where
    "body_Rend now m (Header_Rend (m_Header m) NewMsgRender) = Ret r0"
    "D = enc_header ((m_Header m)\<lparr>ARCount := ARCount (m_Header m) + 1\<rparr>) @ bs" "length D < 2 ^ 63" "odata (rbuf r) = D"
    "body_reads lower m D 12 (rlen r0)"
    "let t1 = t\<lparr>tsig_hash := Some \<lparr>hash_Sum = H, hash_written = B\<rparr>, tsig_MAC := Some (H B), tsig_MACSize := word_of_nat (length (H B))\<rparr>
     in Message_Rend now m NewMsgRender = Ret (m\<lparr>m_Tsig := Some t1\<rparr>, r) \<and>
       recs_read lower [tsig_rrset t1 h] D (rlen r0) (length D) \<and>
       (\<forall>now' n. th_Name n = th_Name h \<and> th_Ttl n = th_Ttl h \<longrightarrow>
          toWireFmtBuf now' (tsig_wire t1\<lparr>tsig_Header := Some n\<rparr>) (odata (rbuf r0)) (tsig_MAC t) = Ret (tsig_wire t1\<lparr>tsig_Header := Some n\<rparr>, B))"
proof -
  have "body_size m + 312 < 2 ^ 63" using m(5) by (simp add: sign_room_def)
  then obtain r0 b0 where r0: "body_Rend now m (Header_Rend (m_Header m) NewMsgRender) = Ret r0" "odata (rbuf r0) = enc_header (m_Header m) @ b0"
    "length b0 \<le> body_size m" "render_ok lower {12..<rlen r0} r0"
    "\<And>D. agree {12..<rlen r0} (odata (rbuf r0)) D \<Longrightarrow> length D < 2 ^ 63 \<Longrightarrow> body_reads lower m D 12 (rlen r0)"
    using message_written [OF m(1), of now "m_Header m"] by blast
  obtain B alg where B: "algorithm_name (tsig_Algorithm t) = Ret alg"
    "let t1 = t\<lparr>tsig_hash := Some \<lparr>hash_Sum = H, hash_written = B\<rparr>, tsig_MAC := Some (H B), tsig_MACSize := word_of_nat (length (H B))\<rparr>
     in genMessageHash now t (odata (rbuf r0)) = Ret t1 \<and> tsig_ok lower t1 alg \<and> tsig_Header t1 = Some h \<and>
     (\<forall>now' n. th_Name n = th_Name h \<and> th_Ttl n = th_Ttl h \<longrightarrow>
        toWireFmtBuf now' (tsig_wire t1\<lparr>tsig_Header := Some n\<rparr>) (odata (rbuf r0)) (tsig_MAC t) = Ret (tsig_wire t1\<lparr>tsig_Header := Some n\<rparr>, B))"
    using genMessageHash_signs [OF m(4)] by blast
  define t1 where "t1 = t\<lparr>tsig_hash := Some \<lparr>hash_Sum = H, hash_written = B\<rparr>, tsig_MAC := Some (H B), tsig_MACSize := word_of_nat (length (H B))\<rparr>"
  note B' = B(2) [folded t1_def, unfolded Let_def, simplified]
  have h: "name_ok lower (th_Name h)" "th_Rrtype h = RR_TSIG" using m(4) unfolding signing_key_def by blast+
  have len: "length (mac_bytes t1) + length (tsig_OtherData t1) < 65264" using B' by (simp add: tsig_ok_def)
  have room: "rlen r0 + (length (mac_bytes t1) + length (tsig_OtherData t1) + 538) + 300 < 2 ^ 63"
    using r0(2,3) m(5) len by (simp add: sign_room_def)
  obtain r1 b1 where r1: "tsig_write t1 h alg r0 = Ret r1" "odata (rbuf r1) = odata (rbuf r0) @ b1"
    "length b1 \<le> length (mac_bytes t1) + length (tsig_OtherData t1) + 538"
    "\<And>D. agree ({12..<rlen r0} \<union> {rlen r0..<rlen r1}) (odata (rbuf r1)) D \<Longrightarrow> length D < 2 ^ 63 \<Longrightarrow>
       \<exists>y. rrset_alike lower (tsig_rrset t1 h) y \<and> reads RRsetFromWire y D (rlen r0) (rlen r1)"
    by (rule emitsE [OF emits_tsig [of lower t1 alg h] r0(4) _ room]) (use B' h in auto)
  let ?h' = "(m_Header m)\<lparr>ARCount := ARCount (m_Header m) + 1\<rparr>" and ?D = "enc_header ((m_Header m)\<lparr>ARCount := ARCount (m_Header m) + 1\<rparr>) @ b0 @ b1"
  have D: "length ?D < 2 ^ 63" "rlen r1 = length ?D" "rlen r0 = 12 + length b0" using room r0(2) r1(2,3) by simp_all
  obtain b where b: "patch_length r1 (ARCount (m_Header m) + 1) 10 = Ret (r1\<lparr>rbuf := b\<rparr>)" "odata b = ?D"
    using patch_header_count [of r1 "m_Header m" "b0 @ b1" "ARCount (m_Header m) + 1"] r0(2) r1(2) D by auto
  have "agree {12..<n} (enc_header (m_Header m) @ b0) ?D" "agree {12..<n} (enc_header (m_Header m) @ (b0 @ b1)) ?D" for n
    using agree_behind_header [of "enc_header (m_Header m)" "enc_header ?h'" n b0 b1]
      agree_behind_header [of "enc_header (m_Header m)" "enc_header ?h'" n "b0 @ b1" "[]"] by simp_all
  note ag = this [folded r0(2)]
  have "{12..<rlen r0} \<union> {rlen r0..<rlen r1} = {12..<rlen r1}" using D by auto
  then have "recs_read lower [tsig_rrset t1 h] ?D (rlen r0) (length ?D)"
    using r1(4) [of ?D] ag(2) D r0(2) r1(2) by (auto simp: recs_read_def list_all2_Cons1)
  moreover have "Message_Rend now m NewMsgRender = Ret (m\<lparr>m_Tsig := Some t1\<rparr>, r1\<lparr>rbuf := b\<rparr>)"
    using r0(1) m(3) TSIG_Rend_write [of now t r0 t1 h alg] B' B(1) r1(1) b(1) by (simp add: Message_Rend_body t1_def)
  ultimately show ?thesis
    using that [OF r0(1) refl D(1), of "r1\<lparr>rbuf := b\<rparr>" B] b(2) r0(5) [OF ag(1) D(1)] B' unfolding Let_def t1_def by simp
qed

lemma successively_signed:
  assumes "message_ok A m" "rr_Type x = RR_TSIG"
  shows "successively (\<lambda>x y. \<not> same_key x y) ((m_Sections m AdditionalSection @ edns_rrsets m) @ [x])"
proof (cases "m_Edns m")
  case None
  then show ?thesis using successively_pseudo [OF message_ok_additional [OF assms(1)], of x] assms(2) by (simp add: edns_rrsets_def)
next
  case (Some e)
  have "\<not> same_key (edns_rrset e) x" using assms(2) by (simp add: same_key_def edns_rrset_type)
  moreover have "successively (\<lambda>x y. \<not> same_key x y) (m_Sections m AdditionalSection @ [edns_rrset e])"
    using successively_pseudo [OF message_ok_additional [OF assms(1)], of "edns_rrset e"] by (simp add: edns_rrset_type)
  ultimately show ?thesis using Some successively_append_iff [of _ "m_Sections m AdditionalSection @ [edns_rrset e]" "[x]"]
    by (simp add: edns_rrsets_def)
qed

lemma signed_decodes:
  assumes ok: "message_ok lower m" "header_ok (m_Header m)" "counts_ok m" "plain_edns m" "unat (ARCount (m_Header m)) < 65535"
    and D: "D = enc_header ((m_Header m)\<lparr>ARCount := ARCount (m_Header m) + 1\<rparr>) @ bs" "length D < 2 ^ 63"
    and b: "body_reads lower m D 12 p" "recs_read lower [tsig_rrset t1 h] D p q"
    and h: "name_ok lower (th_Name h)" "th_Rrtype h = RR_TSIG"
  shows "\<exists>m' n. MessageFromWire (buf_at D 0) = Ret m' \<and> m_Tsig m' = Some (tsig_wire t1\<lparr>tsig_Header := Some n\<rparr>) \<and>
    th_Name n = th_Name h \<and> th_Ttl n = th_Ttl h \<and>
    message_alike lower ((edns_as_rrset m)\<lparr>m_Header := (m_Header m)\<lparr>ARCount := ARCount (m_Header m) + 1\<rparr>\<rparr>) (m'\<lparr>m_Tsig := None\<rparr>)"
proof -
  let ?h' = "(m_Header m)\<lparr>ARCount := ARCount (m_Header m) + 1\<rparr>" and ?x = "tsig_rrset t1 h"
    and ?add = "m_Sections m AdditionalSection @ edns_rrsets m"
  obtain a b c where r: "question_reads lower m D 12 a" "section_reads lower (m_Sections m AnswerSection) D a b"
    "section_reads lower (m_Sections m AuthSection) D b c" "recs_read lower (concat (map records ?add)) D c p"
    using b(1) by (auto simp: body_reads_def)
  have x: "rr_Type ?x = RR_TSIG" using h(2) by (simp add: tsig_rrset_def)
  have "recs_read lower (concat (map records (?add @ [?x]))) D c q"
    using recs_read_append [OF r(4) b(2)] by (simp add: records_tsig)
  from section_reads_recs [OF successively_signed [OF ok(1) x] this] have sec: "section_reads lower (?add @ [?x]) D c q" .
  have "header_ok ?h'" using ok(2) by (simp add: header_ok_def)
  then have hd: "HeaderFromWire (m_Header Message_zero) (buf_at D 0) = Ret (?h', buf_at D 12)"
    using HeaderFromWire_at [of ?h'] D by simp
  obtain q' an ns where f: "rel_option (question_alike lower) (m_Question m) q'"
    "list_all2 (rrset_alike lower) (m_Sections m AnswerSection) an" "list_all2 (rrset_alike lower) (m_Sections m AuthSection) ns"
    "FromWire Message_zero (buf_at D 0) = sectionFromWire \<lparr>m_Header = ?h', m_Question = q',
       m_Sections = (m_Sections Message_zero)(AnswerSection := an, AuthSection := ns), m_Edns = None, m_Tsig = None\<rparr>
      AdditionalSection (buf_at D c)"
    using FromWire_reads [OF hd _ r(1,2) _ r(3)] ok(3) by (auto simp: counts_ok_def)
  let ?m = "\<lparr>m_Header = ?h', m_Question = q',
       m_Sections = (m_Sections Message_zero)(AnswerSection := an, AuthSection := ns), m_Edns = None, m_Tsig = None\<rparr>"
  have "unat (ARCount (m_Header m) + 1) = unat (ARCount (m_Header m)) + 1" using ok(5) by (simp add: unat_word_ariths)
  then have "unat (ARCount (m_Header ?m)) = rrCount (?add @ [?x])"
    using ok(3) edns_rrsets_ok(2) [OF ok(1,4)] by (simp add: counts_ok_def rrCount_def RRCount_def tsig_rrset_def)
  from sectionFromWire_pseudo [OF sec this] x obtain ys y where y: "list_all2 (rrset_alike lower) ?add ys" "rrset_alike lower ?x y"
    "sectionFromWire ?m AdditionalSection (buf_at D c) = gbind (gbind (TSIGFromRRset y) (\<lambda>t. Ret (?m\<lparr>m_Tsig := Some t\<rparr>, ys)))
       (\<lambda>(m, s). Ret (m\<lparr>m_Sections := (m_Sections m)(AdditionalSection := s)\<rparr>, buf_at D q))" by auto
  have "rr_Name y = th_Name h" using y(2) name_alike_lower [OF subset_refl h(1)] by (simp add: rrset_alike_def tsig_rrset_def)
  then obtain n where n: "TSIGFromRRset y = Ret (tsig_wire t1\<lparr>tsig_Header := Some n\<rparr>)" "th_Name n = th_Name h" "th_Ttl n = th_Ttl h"
    using y(2) by (auto simp: rrset_alike_def tsig_rrset_def TSIGFromRRset_def idx_def)
  have "list_all2 (rrset_alike lower) (m_Sections (edns_as_rrset m) st) (((m_Sections ?m)(AdditionalSection := ys)) st)" for st
    using f(2,3) y(1) by (cases st) (simp_all add: edns_as_rrset_def)
  then show ?thesis using f(1,4) y(3) n by (auto simp: MessageFromWire_def message_alike_def edns_as_rrset_def)
qed

lemma question_alike_lower:
  assumes "A \<subseteq> lower" "rel_option (question_alike A) q q'" "case q of None \<Rightarrow> True | Some x \<Rightarrow> name_ok A (q_Name x)"
  shows "q' = q"
  using assms(2,3) name_alike_lower [OF assms(1)] by (cases q; cases q') (auto simp: question_alike_def)

text \<open>A decoded message is rendered again as it was, its counts computed anew.\<close>

lemma rendered_again:
  assumes ok: "message_ok lower m" "counts_ok m" "plain_edns m"
    and al: "message_alike lower ((edns_as_rrset m)\<lparr>m_Header := (m_Header m)\<lparr>ARCount := c\<rparr>\<rparr>) m'"
  shows "m_Header (RecalculateSectionRRCount m') = m_Header m" "body_Rend now' (RecalculateSectionRRCount m') = body_Rend now m"
proof -
  note al' = al [unfolded message_alike_def]
  have q: "m_Question m' = m_Question m" using question_alike_lower [OF subset_refl, of "m_Question m" "m_Question m'"] ok(1) al'
    by (auto simp: message_ok_def edns_as_rrset_def)
  have qd: "QDCount (m_Header m) = (if m_Question m = None then 0 else 1)" using ok(2) by (simp add: counts_ok_def)
  have e: "m_Edns m' = None" using al' by (simp add: edns_as_rrset_def)
  have "list_all (rrset_ok lower) (m_Sections (edns_as_rrset m) st)" for st
    using ok(1) edns_rrsets_ok(1) [OF ok(1,3)] by (cases st) (auto simp: message_ok_def edns_as_rrset_def)
  then have s: "Section_Rend now' (m_Sections m' st) = Section_Rend now (m_Sections (edns_as_rrset m) st)"
    "rrCount (m_Sections m' st) = rrCount (m_Sections (edns_as_rrset m) st)" for st
    using Section_Rend_lower [OF subset_refl, of "m_Sections (edns_as_rrset m) st" "m_Sections m' st" now' now] al' by auto
  have "rrCount (s @ s') = rrCount s + rrCount s'" for s s' by (simp add: rrCount_def)
  then have "rrCount (m_Sections m' AnswerSection) = unat (ANCount (m_Header m))" "rrCount (m_Sections m' AuthSection) = unat (NSCount (m_Header m))"
    "rrCount (m_Sections m' AdditionalSection) = unat (ARCount (m_Header m))"
    using ok(2) edns_rrsets_ok(2) [OF ok(1,3)] by (simp_all add: s(2) counts_ok_def edns_as_rrset_def)
  then show "m_Header (RecalculateSectionRRCount m') = m_Header m"
    using al' q e qd by (cases "m_Header m") (auto simp: RecalculateSectionRRCount_def)
  have "body_Rend now' (RecalculateSectionRRCount m') = body_Rend now (edns_as_rrset m)"
    using q e s(1) by (intro ext) (simp add: body_Rend_def edns_as_rrset_def)
  then show "body_Rend now' (RecalculateSectionRRCount m') = body_Rend now m" using body_Rend_edns [OF ok(3)] by simp
qed

definition time_apart :: "64 word \<Rightarrow> 64 word \<Rightarrow> 64 word" where
  "time_apart a b = (if a < b then b - a else a - b)"

definition sig_error :: "64 word \<Rightarrow> TSIG \<Rightarrow> bool \<Rightarrow> g53_error option" where
  "sig_error now t same = (if ucast (tsig_Fudge t) < time_apart now (tsig_TimeSigned t) then Some ErrTime else if same then None else Some ErrSig)"

lemma signed_verifies:
  assumes m: "message_ok lower m" "header_ok (m_Header m)" "counts_ok m" "plain_edns m" "unat (ARCount (m_Header m)) < 65535"
    "m_Tsig m = Some t" "signing_key H t h" "body_size m + sign_room < 2 ^ 63"
  shows "\<exists>ms r m' t' B. Message_Rend now m NewMsgRender = Ret (ms, r) \<and>
    MessageFromWire (NewInputBuffer (odata (rbuf r))) = Ret m' \<and> m_Tsig m' = Some t' \<and> mac_bytes t' = H B \<and>
    message_alike lower ((edns_as_rrset m)\<lparr>m_Header := (m_Header m)\<lparr>ARCount := ARCount (m_Header m) + 1\<rparr>\<rparr>) (m'\<lparr>m_Tsig := None\<rparr>) \<and>
    (\<forall>hmac now' secret H'. hashSelect hmac (tsig_Algorithm t) secret = Ret \<lparr>hash_Sum = H', hash_written = []\<rparr> \<longrightarrow>
       (\<exists>m2. VerifyTsig hmac now' t' m' secret (tsig_MAC t) = Ret (m2, t', sig_error now' t (H' B = H B))))"
proof -
  have h: "name_ok lower (th_Name h)" "th_Rrtype h = RR_TSIG" using m(7) unfolding signing_key_def by blast+
  obtain r0 r B bs D where w: "body_Rend now m (Header_Rend (m_Header m) NewMsgRender) = Ret r0"
    "D = enc_header ((m_Header m)\<lparr>ARCount := ARCount (m_Header m) + 1\<rparr>) @ bs" "length D < 2 ^ 63" "odata (rbuf r) = D"
    "body_reads lower m D 12 (rlen r0)"
    "let t1 = t\<lparr>tsig_hash := Some \<lparr>hash_Sum = H, hash_written = B\<rparr>, tsig_MAC := Some (H B), tsig_MACSize := word_of_nat (length (H B))\<rparr>
     in Message_Rend now m NewMsgRender = Ret (m\<lparr>m_Tsig := Some t1\<rparr>, r) \<and>
       recs_read lower [tsig_rrset t1 h] D (rlen r0) (length D) \<and>
       (\<forall>now' n. th_Name n = th_Name h \<and> th_Ttl n = th_Ttl h \<longrightarrow>
          toWireFmtBuf now' (tsig_wire t1\<lparr>tsig_Header := Some n\<rparr>) (odata (rbuf r0)) (tsig_MAC t) = Ret (tsig_wire t1\<lparr>tsig_Header := Some n\<rparr>, B))"
    using signed_written [OF m(1,2,6,7,8), of now] by metis
  define t1 where "t1 = t\<lparr>tsig_hash := Some \<lparr>hash_Sum = H, hash_written = B\<rparr>, tsig_MAC := Some (H B), tsig_MACSize := word_of_nat (length (H B))\<rparr>"
  note w6 = w(6) [folded t1_def, unfolded Let_def]
  obtain m' n where m': "MessageFromWire (buf_at D 0) = Ret m'" "m_Tsig m' = Some (tsig_wire t1\<lparr>tsig_Header := Some n\<rparr>)"
    "th_Name n = th_Name h" "th_Ttl n = th_Ttl h"
    "message_alike lower ((edns_as_rrset m)\<lparr>m_Header := (m_Header m)\<lparr>ARCount := ARCount (m_Header m) + 1\<rparr>\<rparr>) (m'\<lparr>m_Tsig := None\<rparr>)"
    using signed_decodes [OF m(1-5) w(2,3,5) _ h] w6 by blast
  let ?t' = "tsig_wire t1\<lparr>tsig_Header := Some n\<rparr>" and ?m1 = "RecalculateSectionRRCount (m'\<lparr>m_Tsig := None\<rparr>)"
  have "Message_Rend now' ?m1 NewMsgRender = Ret (?m1, r0)" for now'
    using w(1) rendered_again(1) [OF m(1,3,4) m'(5)] rendered_again(2) [OF m(1,3,4) m'(5), of now' now] by (simp add: Message_Rend_body)
  moreover have "toWireFmtBuf now' ?t' (odata (rbuf r0)) (tsig_MAC t) = Ret (?t', B)" for now' using w6 m'(3,4) by blast
  moreover have t': "tsig_TimeSigned ?t' = tsig_TimeSigned t" "tsig_Fudge ?t' = tsig_Fudge t" "tsig_Algorithm ?t' = tsig_Algorithm t"
    "mac_bytes ?t' = H B" by (simp_all add: tsig_wire_def t1_def mac_bytes_def)
  ultimately have "VerifyTsig hmac now' ?t' m' secret (tsig_MAC t) = Ret (?m1, ?t', sig_error now' t (H' B = H B))"
    if "hashSelect hmac (tsig_Algorithm t) secret = Ret \<lparr>hash_Sum = H', hash_written = []\<rparr>" for hmac now' secret H'
    using that by (simp add: VerifyTsig_def sig_error_def time_apart_def Let_def)
  then show ?thesis using w6 w(4) m'(1,2,5) t'(4) unfolding NewInputBuffer_at by blast
qed

lemma rrset_alike_lower:
  assumes "A \<subseteq> lower" "rrset_ok A x" "rrset_alike A x y"
  shows "y = x\<lparr>rr_Rdatas := map rdata_norm (rr_Rdatas x)\<rparr>"
  using assms name_alike_lower by (auto simp: rrset_ok_def rrset_alike_def)

definition rrset_norm :: "RRset \<Rightarrow> RRset" where
  "rrset_norm x = x\<lparr>rr_Rdatas := map rdata_norm (rr_Rdatas x)\<rparr>"

lemma section_alike_lower:
  assumes "A \<subseteq> lower" "list_all2 (rrset_alike A) s s'" "list_all (rrset_ok A) s"
  shows "s' = map rrset_norm s"
  using assms(2,3) by (induction rule: list_all2_induct) (use rrset_alike_lower [OF assms(1)] in \<open>auto simp: rrset_norm_def\<close>)

lemma message_ok_sections: "message_ok A m \<Longrightarrow> list_all (rrset_ok A) (m_Sections m st)"
  by (cases st) (auto simp: message_ok_def)

lemma Recalculate_ok [simp]: "message_ok A (RecalculateSectionRRCount m) = message_ok A m"
    "body_size (RecalculateSectionRRCount m) = body_size m" "plain_edns (RecalculateSectionRRCount m) = plain_edns m"
  by (simp_all add: message_ok_def body_size_def plain_edns_def)

lemma SetTSIG_simps [simp]:
  "message_ok A (SetTSIG m t) = message_ok A m" "body_size (SetTSIG m t) = body_size m" "plain_edns (SetTSIG m t) = plain_edns m"
  "counts_ok (SetTSIG m t) = counts_ok m" "m_Header (SetTSIG m t) = m_Header m"
  "m_Tsig (SetTSIG m t) = map_option (\<lambda>t. t\<lparr>tsig_OrigId := Id (m_Header m)\<rparr>) t"
  by (simp_all add: message_ok_def body_size_def plain_edns_def counts_ok_def SetTSIG_def)

lemma NewTSIG_key:
  assumes "NewTSIG hmac t0 key secret alg = Ret t" "NameFromString key = Ret name" "name_ok lower name"
    "t0 \<noteq> 0" "take_bit 48 t0 = t0" "\<And>a k x. length (hmac a k x) < 65000"
  shows "\<exists>k h. fromBase64 secret = Ret k \<and> signing_key (hmac (tsig_Algorithm t) k) t h \<and> tsig_MAC t = None \<and>
    tsig_TimeSigned t = t0 \<and> tsig_Fudge t = 300"
proof -
  obtain algo hs where a: "AlgorithmFromString alg = Ret algo" "hashSelect hmac algo secret = Ret hs"
    "t = \<lparr>tsig_Header = Some \<lparr>th_Name = name, th_Rrtype = RR_TSIG, th_Class = CLASS_ANY, th_Ttl = 0, th_Rdlength = 0\<rparr>,
          tsig_Algorithm = algo, tsig_TimeSigned = t0, tsig_Fudge = 300, tsig_MACSize = 0, tsig_MAC = None,
          tsig_OrigId = 0, tsig_Error = 0, tsig_OtherLen = 0, tsig_OtherData = [], tsig_hash = Some hs\<rparr>"
    using assms(1,2) unfolding NewTSIG_def gbind_eq_Ret_iff by auto
  obtain k where k: "fromBase64 secret = Ret k" "algo \<in> {HmacMD5, HmacSHA1, HmacSHA256, HmacSHA512}" "hs = \<lparr>hash_Sum = hmac algo k, hash_written = []\<rparr>"
    using a(2) unfolding hashSelect_def gbind_eq_Ret_iff by (metis go.distinct(3) go.inject(1))
  show ?thesis
    using k assms(3-6) unfolding signing_key_def a(3) by (intro exI [of _ k] exI [of _ "\<lparr>th_Name = name, th_Rrtype = RR_TSIG, th_Class = CLASS_ANY, th_Ttl = 0, th_Rdlength = 0\<rparr>"])
      (simp only: TSIG.simps TsigHeader.simps; simp)
qed

lemma hashSelect_key:
  "fromBase64 secret = Ret k \<Longrightarrow> algo \<in> {HmacMD5, HmacSHA1, HmacSHA256, HmacSHA512} \<Longrightarrow>
   hashSelect hmac algo secret = Ret \<lparr>hash_Sum = hmac algo k, hash_written = []\<rparr>"
  unfolding hashSelect_def by (simp only: gbind.simps if_True)

lemma edns_rrsets_simps [simp]:
  "edns_rrsets (SetTSIG m t) = edns_rrsets m" "edns_rrsets (RecalculateSectionRRCount m) = edns_rrsets m"
  "m_Sections (SetTSIG m t) = m_Sections m"
  by (simp_all add: edns_rrsets_def SetTSIG_def)

lemma edns_as_rrset_alike:
  assumes "message_ok lower m" "plain_edns m" "message_alike lower ((edns_as_rrset m)\<lparr>m_Header := h\<rparr>) (m'\<lparr>m_Tsig := None\<rparr>)"
  shows "m_Edns m' = None" "m_Sections m' AdditionalSection = map rrset_norm (m_Sections m AdditionalSection @ edns_rrsets m)"
proof -
  show "m_Edns m' = None" using assms(3) by (simp add: message_alike_def edns_as_rrset_def)
  have "list_all2 (rrset_alike lower) (m_Sections m AdditionalSection @ edns_rrsets m) (m_Sections m' AdditionalSection)"
    using assms(3) by (auto simp: message_alike_def edns_as_rrset_def dest!: spec [of _ AdditionalSection])
  then show "m_Sections m' AdditionalSection = map rrset_norm (m_Sections m AdditionalSection @ edns_rrsets m)"
    by (rule section_alike_lower [OF subset_refl])
      (use message_ok_sections [OF assms(1)] edns_rrsets_ok(1) [OF assms(1,2)] in simp)
qed

end
