(* ===== verification/Fsm.thy ===== *)
theory Fsm
  imports Main "HOL-Library.AList"
begin

text \<open>
  \<open>src/cement/fsm\<close> (\<open>fsm.go\<close>, \<open>event.go\<close>, \<open>errors.go\<close>): a generic state machine of named states and events with
  callbacks. A callback receives the event and may change it (\<open>Cancel\<close>, \<open>Async\<close>, \<open>Err\<close>) and the world
  outside of the machine, of type \<open>'w\<close>; it does not call back into the machine (\<open>Event\<close> would lock the mutex
  it already holds). \<open>eventMu\<close> makes calls of \<open>Event\<close> and \<open>Transition\<close> atomic to one another, so one call is one
  function here. Go maps are association lists with distinct keys.

  The theorems give the possible results of an event under arbitrary callbacks, and the order of the callbacks.
\<close>

section \<open>Types\<close>

type_synonym eKey = "string \<times> string"

datatype callbackType = callbackNone | callbackBeforeEvent | callbackLeaveState | callbackEnterState | callbackAfterEvent

type_synonym cKey = "string \<times> callbackType"

record ('a, 'e) Event =
  ev_Event :: string
  ev_Src :: string
  ev_Dst :: string
  ev_Err :: "'e option"
  ev_Args :: "'a list"
  canceled :: bool
  async :: bool

datatype 'e fsm_error =
  InvalidEventError string string
  | UnknownEventError string
  | InTransitionError string
  | NotInTransitionError
  | NoTransitionError "'e option"
  | CanceledError "'e option"
  | AsyncError "'e option"
  | InternalError
  | EventErr 'e

definition Cancel :: "('a, 'e) Event \<Rightarrow> 'e list \<Rightarrow> ('a, 'e) Event" where
  "Cancel e err = (let e = e\<lparr>canceled := True\<rparr> in if length err > 0 then e\<lparr>ev_Err := Some (err ! 0)\<rparr> else e)"

definition Async :: "('a, 'e) Event \<Rightarrow> ('a, 'e) Event" where
  "Async e = e\<lparr>async := True\<rparr>"

type_synonym ('a, 'e, 'w) Callback = "('a, 'e) Event \<Rightarrow> 'w \<Rightarrow> ('a, 'e) Event \<times> 'w"

text \<open>
  The closure stored in \<open>transition\<close> captures the event and its destination; the interface
  \<open>transitionerObj\<close> is always the default implementation.
\<close>

record ('a, 'e, 'w) FSM =
  current :: string
  transitions :: "(eKey \<times> string) list"
  callbacks :: "(cKey \<times> ('a, 'e, 'w) Callback) list"
  transition :: "(string \<times> ('a, 'e) Event) option"

record EventDesc =
  ed_Name :: string
  ed_Src :: "string list"
  ed_Dst :: string

section \<open>Construction\<close>

definition HasPrefix :: "string \<Rightarrow> string \<Rightarrow> bool" where
  "HasPrefix s p \<longleftrightarrow> take (length p) s = p"

definition TrimPrefix :: "string \<Rightarrow> string \<Rightarrow> string" where
  "TrimPrefix s p = (if HasPrefix s p then drop (length p) s else s)"

definition add_event :: "EventDesc \<Rightarrow> (eKey \<times> string) list \<Rightarrow> (eKey \<times> string) list" where
  "add_event e ts = fold (\<lambda>src. AList.update (ed_Name e, src) (ed_Dst e)) (ed_Src e) ts"

definition all_states :: "EventDesc list \<Rightarrow> string list" where
  "all_states events = concat (map (\<lambda>e. concat (map (\<lambda>src. [src, ed_Dst e]) (ed_Src e))) events)"

definition callback_key :: "EventDesc list \<Rightarrow> string \<Rightarrow> cKey" where
  "callback_key events name =
     (let allEvents = map ed_Name events; allStates = all_states events;
          general = (\<lambda>prefix word type all.
            let target = TrimPrefix name prefix in
            if target = word then ('''', type)
            else if target \<in> set all then (target, type)
            else (target, callbackNone))
      in if HasPrefix name ''before_'' then general ''before_'' ''event'' callbackBeforeEvent allEvents
         else if HasPrefix name ''leave_'' then general ''leave_'' ''state'' callbackLeaveState allStates
         else if HasPrefix name ''enter_'' then general ''enter_'' ''state'' callbackEnterState allStates
         else if HasPrefix name ''after_'' then general ''after_'' ''event'' callbackAfterEvent allEvents
         else if name \<in> set allStates then (name, callbackEnterState)
         else if name \<in> set allEvents then (name, callbackAfterEvent)
         else (name, callbackNone))"

text \<open>The list of callbacks is the map of names in the order the \<open>range\<close> loop visits it.\<close>

definition NewFSM :: "string \<Rightarrow> EventDesc list \<Rightarrow> (string \<times> ('a, 'e, 'w) Callback) list \<Rightarrow> ('a, 'e, 'w) FSM" where
  "NewFSM initial events cbs =
     \<lparr>current = initial, transitions = fold add_event events [],
      callbacks = fold (\<lambda>(name, fn) m.
        let key = callback_key events name in
        if snd key \<noteq> callbackNone then AList.update key fn m else m) cbs [],
      transition = None\<rparr>"

section \<open>Queries\<close>

definition Is :: "('a, 'e, 'w) FSM \<Rightarrow> string \<Rightarrow> bool" where
  "Is f state \<longleftrightarrow> state = current f"

definition SetState :: "('a, 'e, 'w) FSM \<Rightarrow> string \<Rightarrow> ('a, 'e, 'w) FSM" where
  "SetState f state = f\<lparr>current := state\<rparr>"

definition Can :: "('a, 'e, 'w) FSM \<Rightarrow> string \<Rightarrow> bool" where
  "Can f event \<longleftrightarrow> map_of (transitions f) (event, current f) \<noteq> None \<and> transition f = None"

definition Cannot :: "('a, 'e, 'w) FSM \<Rightarrow> string \<Rightarrow> bool" where
  "Cannot f event \<longleftrightarrow> \<not> Can f event"

section \<open>Callbacks\<close>

definition call :: "('a, 'e, 'w) FSM \<Rightarrow> cKey \<Rightarrow> ('a, 'e, 'w) Callback" where
  "call f key e w = (case map_of (callbacks f) key of None \<Rightarrow> (e, w) | Some fn \<Rightarrow> fn e w)"

definition has_callback :: "('a, 'e, 'w) FSM \<Rightarrow> cKey \<Rightarrow> bool" where
  "has_callback f key \<longleftrightarrow> map_of (callbacks f) key \<noteq> None"

definition beforeEventCallbacks ::
  "('a, 'e, 'w) FSM \<Rightarrow> ('a, 'e) Event \<Rightarrow> 'w \<Rightarrow> ('a, 'e) Event \<times> 'w \<times> 'e fsm_error option" where
  "beforeEventCallbacks f e w =
     (let key = (ev_Event e, callbackBeforeEvent);
          (e, w) = call f key e w
      in
      if has_callback f key \<and> canceled e then (e, w, Some (CanceledError (ev_Err e)))
      else
        let (e, w) = call f ('''', callbackBeforeEvent) e w in
        if has_callback f ('''', callbackBeforeEvent) \<and> canceled e then (e, w, Some (CanceledError (ev_Err e)))
        else (e, w, None))"

definition leave_error :: "('a, 'e) Event \<Rightarrow> 'e fsm_error option" where
  "leave_error e =
     (if canceled e then Some (CanceledError (ev_Err e)) else if async e then Some (AsyncError (ev_Err e)) else None)"

definition leaveStateCallbacks ::
  "('a, 'e, 'w) FSM \<Rightarrow> ('a, 'e) Event \<Rightarrow> 'w \<Rightarrow> ('a, 'e) Event \<times> 'w \<times> 'e fsm_error option" where
  "leaveStateCallbacks f e w =
     (let (e, w) = call f (current f, callbackLeaveState) e w in
      if has_callback f (current f, callbackLeaveState) \<and> leave_error e \<noteq> None then (e, w, leave_error e)
      else
        let (e, w) = call f ('''', callbackLeaveState) e w in
        if has_callback f ('''', callbackLeaveState) \<and> leave_error e \<noteq> None then (e, w, leave_error e)
        else (e, w, None))"

definition enterStateCallbacks :: "('a, 'e, 'w) FSM \<Rightarrow> ('a, 'e) Event \<Rightarrow> 'w \<Rightarrow> ('a, 'e) Event \<times> 'w" where
  "enterStateCallbacks f e w =
     (let (e, w) = call f (current f, callbackEnterState) e w in call f ('''', callbackEnterState) e w)"

definition afterEventCallbacks :: "('a, 'e, 'w) FSM \<Rightarrow> ('a, 'e) Event \<Rightarrow> 'w \<Rightarrow> ('a, 'e) Event \<times> 'w" where
  "afterEventCallbacks f e w =
     (let (e, w) = call f (ev_Event e, callbackAfterEvent) e w in call f ('''', callbackAfterEvent) e w)"

section \<open>Events\<close>

text \<open>\<open>transitionerStruct.transition\<close>; it also returns the event as the callbacks left it.\<close>

definition doTransition ::
  "('a, 'e, 'w) FSM \<Rightarrow> 'w \<Rightarrow> ('a, 'e, 'w) FSM \<times> 'w \<times> ('a, 'e) Event option \<times> 'e fsm_error option" where
  "doTransition f w =
     (case transition f of
        None \<Rightarrow> (f, w, None, Some NotInTransitionError)
      | Some (dst, e) \<Rightarrow>
          let f = f\<lparr>current := dst\<rparr>;
              (e, w) = enterStateCallbacks f e w;
              (e, w) = afterEventCallbacks f e w
          in (f\<lparr>transition := None\<rparr>, w, Some e, None))"

definition Transition :: "('a, 'e, 'w) FSM \<Rightarrow> 'w \<Rightarrow> ('a, 'e, 'w) FSM \<times> 'w \<times> 'e fsm_error option" where
  "Transition f w = (let (f, w, _, err) = doTransition f w in (f, w, err))"

definition FSM_Event :: "('a, 'e, 'w) FSM \<Rightarrow> string \<Rightarrow> 'a list \<Rightarrow> 'w \<Rightarrow> ('a, 'e, 'w) FSM \<times> 'w \<times> 'e fsm_error option" where
  "FSM_Event f event args w =
     (if transition f \<noteq> None then (f, w, Some (InTransitionError event))
      else
        case map_of (transitions f) (event, current f) of
          None \<Rightarrow>
            if list_ex (\<lambda>(ekey, _). fst ekey = event) (transitions f)
            then (f, w, Some (InvalidEventError event (current f)))
            else (f, w, Some (UnknownEventError event))
        | Some dst \<Rightarrow>
            let e = \<lparr>ev_Event = event, ev_Src = current f, ev_Dst = dst, ev_Err = None, ev_Args = args,
                     canceled = False, async = False\<rparr>;
                (e, w, err) = beforeEventCallbacks f e w
            in if err \<noteq> None then (f, w, err)
               else if current f = dst then
                 let (e, w) = afterEventCallbacks f e w in (f, w, Some (NoTransitionError (ev_Err e)))
               else
                 let f = f\<lparr>transition := Some (dst, e)\<rparr>;
                     (e, w, err) = leaveStateCallbacks f e w;
                     f = f\<lparr>transition := Some (dst, e)\<rparr>
                 in case err of
                      Some (CanceledError x) \<Rightarrow> (f\<lparr>transition := None\<rparr>, w, err)
                    | Some _ \<Rightarrow> (f, w, err)
                    | None \<Rightarrow>
                        let (f, w, e, err) = doTransition f w in
                        case err of
                          Some _ \<Rightarrow> (f, w, Some InternalError)
                        | None \<Rightarrow> (f, w, map_option EventErr (ev_Err (the e))))"

section \<open>The transition map\<close>

lemma map_of_fold_update:
  "map_of (fold (\<lambda>src. AList.update (n, src) d) srcs ts) (n', s) = (if n' = n \<and> s \<in> set srcs then Some d else map_of ts (n', s))"
  by (induction srcs arbitrary: ts) (auto simp: update_conv)

lemma map_of_add_event:
  "map_of (add_event e ts) (n, s) = (if n = ed_Name e \<and> s \<in> set (ed_Src e) then Some (ed_Dst e) else map_of ts (n, s))"
  by (auto simp: add_event_def map_of_fold_update)

text \<open>The last description of an event for a source state is the one that counts.\<close>

definition event_dst :: "EventDesc list \<Rightarrow> string \<Rightarrow> string \<Rightarrow> string option" where
  "event_dst events n s = map_option ed_Dst (find (\<lambda>e. n = ed_Name e \<and> s \<in> set (ed_Src e)) (rev events))"

lemma map_of_fold_add_event: "map_of (fold add_event events ts) (n, s) =
    (case event_dst events n s of None \<Rightarrow> map_of ts (n, s) | Some d \<Rightarrow> Some d)"
proof (induction events arbitrary: ts)
  case (Cons e events)
  have "find P (xs @ [x]) = (case find P xs of None \<Rightarrow> if P x then Some x else None | Some y \<Rightarrow> Some y)" for P xs and x :: EventDesc
    by (induction xs) auto
  then show ?case by (auto simp: Cons map_of_add_event event_dst_def split: option.splits)
qed (simp add: event_dst_def)

lemma NewFSM_transitions: "map_of (transitions (NewFSM initial events cbs)) (n, s) = event_dst events n s"
  by (simp add: NewFSM_def map_of_fold_add_event split: option.splits)

section \<open>Results of an event\<close>

lemma before_error: "beforeEventCallbacks f e w = (e', w', Some err) \<Longrightarrow> \<exists>x. err = CanceledError x"
  by (auto simp: beforeEventCallbacks_def Let_def split: prod.splits if_splits)

lemma leave_state_error: "leaveStateCallbacks f e w = (e', w', Some err) \<Longrightarrow> (\<exists>x. err = CanceledError x) \<or> (\<exists>x. err = AsyncError x)"
  by (auto simp: leaveStateCallbacks_def leave_error_def Let_def split: prod.splits if_splits)

lemma FSM_Event_enabled:
  assumes ev: "FSM_Event (f :: ('a, 'e, 'w) FSM) event args w = (f', w', err)" and None: "transition f = None" and Some: "map_of (transitions f) (event, current f) = Some dst"
  obtains (canceled) x where "f' = f" "err = Some (CanceledError x)"
  | (stays) x where "dst = current f" "f' = f" "err = Some (NoTransitionError x)"
  | (asynchronous) e x where "dst \<noteq> current f" "f' = f\<lparr>transition := Some (dst, e)\<rparr>" "err = Some (AsyncError x)"
  | (moves) e where "dst \<noteq> current f" "f' = f\<lparr>current := dst\<rparr>" "err = map_option EventErr (ev_Err (e :: ('a, 'e) Event))"
proof -
  let ?e = "\<lparr>ev_Event = event, ev_Src = current f, ev_Dst = dst, ev_Err = None, ev_Args = args, canceled = False, async = False\<rparr>"
  obtain e1 w1 err1 where 1: "beforeEventCallbacks f ?e w = (e1, w1, err1)" by (metis prod_cases3)
  consider (b) x where "err1 = Some (CanceledError x)" | (same) "err1 = None" "current f = dst" | (other) "err1 = None" "current f \<noteq> dst"
    using before_error [of f ?e w e1 w1] 1 by (cases err1) auto
  then show ?thesis
  proof cases
    case b
    then have "FSM_Event f event args w = (f, w1, Some (CanceledError x))" by (simp add: FSM_Event_def None Some 1)
    then show ?thesis using ev canceled by auto
  next
    case same
    obtain e2 w2 where "afterEventCallbacks f e1 w1 = (e2, w2)" by (metis surj_pair)
    then have "FSM_Event f event args w = (f, w2, Some (NoTransitionError (ev_Err e2)))" by (simp add: FSM_Event_def None Some 1 same(1) if_P [OF same(2)])
    then show ?thesis using ev same by (intro stays) auto
  next
    case other
    obtain e2 w2 err2 where 2: "leaveStateCallbacks (f\<lparr>transition := Some (dst, e1)\<rparr>) e1 w1 = (e2, w2, err2)" by (metis prod_cases3)
    let ?f = "f\<lparr>transition := Some (dst, e2), current := dst\<rparr>"
    obtain e3 w3 e4 w4 where 3: "enterStateCallbacks ?f e2 w2 = (e3, w3)" "afterEventCallbacks ?f e3 w3 = (e4, w4)" by (metis surj_pair)
    have "FSM_Event f event args w =
       (case err2 of
          None \<Rightarrow> (f\<lparr>current := dst\<rparr>, w4, map_option EventErr (ev_Err e4))
        | Some (CanceledError x) \<Rightarrow> (f, w2, err2)
        | _ \<Rightarrow> (f\<lparr>transition := Some (dst, e2)\<rparr>, w2, err2))"
      using None 3 by (simp add: FSM_Event_def Some 1 other 2 doTransition_def split: option.split fsm_error.split)
    note r = this [unfolded ev]
    show ?thesis
    proof (cases err2)
      case N2: None
      then show ?thesis using r other by (intro moves [of e4]) auto
    next
      case S2: (Some er)
      then show ?thesis using leave_state_error 2 r other canceled asynchronous [of e2] by fastforce
    qed
  qed
qed

lemma FSM_Event_cases:
  assumes "FSM_Event f event args w = (f', w', err)"
  obtains (busy) "transition f \<noteq> None" "f' = f" "w' = w" "err = Some (InTransitionError event)"
  | (refused) "transition f = None" "map_of (transitions f) (event, current f) = None" "f' = f" "w' = w"
      "err = (if event \<in> fst ` fst ` set (transitions f) then Some (InvalidEventError event (current f)) else Some (UnknownEventError event))"
  | (enabled) dst where "transition f = None" "map_of (transitions f) (event, current f) = Some dst"
proof (cases "transition f")
  case (Some t)
  then show ?thesis using assms by (intro busy) (simp_all add: FSM_Event_def)
next
  case None
  have "list_ex (\<lambda>(ekey, _). fst ekey = event) (transitions f) \<longleftrightarrow> event \<in> fst ` fst ` set (transitions f)"
    by (force simp: list_ex_iff)
  then show ?thesis using assms None refused enabled
    by (cases "map_of (transitions f) (event, current f)") (auto simp: FSM_Event_def split: if_splits)
qed

lemma Transition_pending:
  assumes "transition f = Some (dst, e)"
  shows "\<exists>w'. Transition f w = (f\<lparr>current := dst, transition := None\<rparr>, w', None)"
  using assms by (auto simp: Transition_def doTransition_def Let_def split: prod.splits)

section \<open>The callbacks of a new machine\<close>

lemma NewFSM_callbacks:
  "map_of (callbacks (NewFSM initial events cbs)) key =
     (if snd key = callbackNone then None else map_of (rev (map (\<lambda>(n, fn). (callback_key events n, fn)) cbs)) key)"
proof -
  have "map_of (fold (\<lambda>(name, fn) m. let key = callback_key events name in
        if snd key \<noteq> callbackNone then AList.update key fn m else m) cbs m) key =
      (if snd key = callbackNone then map_of m key
       else (map_of m ++ map_of (rev (map (\<lambda>(n, fn). (callback_key events n, fn)) cbs))) key)" for m
  proof (induction cbs arbitrary: m)
    case (Cons c cbs)
    then show ?case by (cases c) (auto simp: Let_def update_conv map_add_def split: option.splits)
  qed simp
  from this [of "[]"] show ?thesis by (simp add: NewFSM_def)
qed

lemma HasPrefix_append [simp]: "HasPrefix (p @ s) p" "TrimPrefix (p @ s) p = s"
  by (simp_all add: HasPrefix_def TrimPrefix_def)

lemma HasPrefixE: "HasPrefix n p \<Longrightarrow> (\<And>s. n = p @ s \<Longrightarrow> P) \<Longrightarrow> P"
  unfolding HasPrefix_def by (metis append_take_drop_id)

lemma callback_key_before:
  "callback_key events n = (t, callbackBeforeEvent) \<longleftrightarrow>
     n = ''before_event'' \<and> t = '''' \<or> n = ''before_'' @ t \<and> t \<noteq> ''event'' \<and> t \<in> set (map ed_Name events)"
proof (cases "HasPrefix n ''before_''")
  case True
  then obtain s where s: "n = ''before_'' @ s" by (rule HasPrefixE)
  then show ?thesis using True unfolding callback_key_def Let_def by (simp add: s TrimPrefix_def HasPrefix_def) (auto split: if_splits)
next
  case False
  then show ?thesis unfolding callback_key_def Let_def by (auto simp: HasPrefix_def split: if_splits)
qed

lemma callback_key_leave:
  "callback_key events n = (t, callbackLeaveState) \<longleftrightarrow>
     n = ''leave_state'' \<and> t = '''' \<or> n = ''leave_'' @ t \<and> t \<noteq> ''state'' \<and> t \<in> set (all_states events)"
proof (cases "HasPrefix n ''leave_''")
  case True
  then obtain s where s: "n = ''leave_'' @ s" by (rule HasPrefixE)
  then show ?thesis using True unfolding callback_key_def Let_def by (simp add: s TrimPrefix_def HasPrefix_def) (auto split: if_splits)
next
  case False
  then show ?thesis unfolding callback_key_def Let_def by (auto simp: HasPrefix_def split: if_splits)
qed

lemma callback_key_enter:
  assumes "t \<noteq> n"
  shows "callback_key events n = (t, callbackEnterState) \<longleftrightarrow>
     n = ''enter_state'' \<and> t = '''' \<or> n = ''enter_'' @ t \<and> t \<noteq> ''state'' \<and> t \<in> set (all_states events)"
proof (cases "HasPrefix n ''enter_''")
  case True
  then obtain s where s: "n = ''enter_'' @ s" by (rule HasPrefixE)
  then show ?thesis using True unfolding callback_key_def Let_def by (simp add: s TrimPrefix_def HasPrefix_def) (auto split: if_splits)
next
  case False
  then show ?thesis using assms unfolding callback_key_def Let_def by (auto simp: HasPrefix_def split: if_splits)
qed

lemma callback_key_after:
  assumes "t \<noteq> n"
  shows "callback_key events n = (t, callbackAfterEvent) \<longleftrightarrow>
     n = ''after_event'' \<and> t = '''' \<or> n = ''after_'' @ t \<and> t \<noteq> ''event'' \<and> t \<in> set (map ed_Name events)"
proof (cases "HasPrefix n ''after_''")
  case True
  then obtain s where s: "n = ''after_'' @ s" by (rule HasPrefixE)
  then show ?thesis using True unfolding callback_key_def Let_def by (simp add: s TrimPrefix_def HasPrefix_def) (auto split: if_splits)
next
  case False
  then show ?thesis using assms unfolding callback_key_def Let_def by (auto simp: HasPrefix_def split: if_splits)
qed

text \<open>Callbacks that append their own name to a list, to observe the order of the calls.\<close>

definition log_call :: "string \<Rightarrow> ('a, 'e, string list) Callback" where
  "log_call n e w = (e, w @ [n])"

definition logging :: "string \<Rightarrow> EventDesc list \<Rightarrow> string list \<Rightarrow> ('a, 'e, string list) FSM" where
  "logging initial events names = NewFSM initial events (map (\<lambda>n. (n, log_call n)) names)"

lemma map_of_unique:
  assumes "\<And>n'. n' \<in> set ns \<Longrightarrow> k n' = key \<longleftrightarrow> n' = n"
  shows "map_of (map (\<lambda>n. (k n, g n)) ns) key = (if n \<in> set ns then Some (g n) else None)"
  using assms by (induction ns) auto

lemma callbacks_logging:
  assumes "\<And>n'. n' \<in> set names \<Longrightarrow> callback_key events n' = key \<longleftrightarrow> n' = n" "snd key \<noteq> callbackNone"
  shows "map_of (callbacks (logging s events names)) key = (if n \<in> set names then Some (log_call n) else None)"
  using map_of_unique [of "rev names" "callback_key events" key n log_call] assms
  by (simp add: logging_def NewFSM_callbacks comp_def rev_map)

lemma event_dst_names:
  assumes "event_dst events ev s = Some d"
  shows "ev \<in> set (map ed_Name events) \<and> s \<in> set (all_states events) \<and> d \<in> set (all_states events)"
proof -
  obtain e where "e \<in> set events" "ev = ed_Name e" "s \<in> set (ed_Src e)" "d = ed_Dst e"
    using assms unfolding event_dst_def by (auto simp: find_Some_iff) (metis length_rev nth_mem set_rev)
  then show ?thesis unfolding all_states_def by (auto intro!: bexI [of _ e] bexI [of _ s])
qed

lemma logging_callbacks:
  assumes d: "event_dst events ev s = Some d"
    and e: "'''' \<notin> set (map ed_Name events)" "'''' \<notin> set (all_states events)" "ev \<noteq> ''event''" "s \<noteq> ''state''" "d \<noteq> ''state''"
    and n: "d \<notin> set names" "ev \<notin> set names" "'''' \<notin> set names"
  defines "f \<equiv> logging s events names :: ('a, 'e, string list) FSM"
  shows "map_of (callbacks f) (ev, callbackBeforeEvent) = (if ''before_'' @ ev \<in> set names then Some (log_call (''before_'' @ ev)) else None)"
    "map_of (callbacks f) ('''', callbackBeforeEvent) = (if ''before_event'' \<in> set names then Some (log_call ''before_event'') else None)"
    "map_of (callbacks f) (s, callbackLeaveState) = (if ''leave_'' @ s \<in> set names then Some (log_call (''leave_'' @ s)) else None)"
    "map_of (callbacks f) ('''', callbackLeaveState) = (if ''leave_state'' \<in> set names then Some (log_call ''leave_state'') else None)"
    "map_of (callbacks f) (d, callbackEnterState) = (if ''enter_'' @ d \<in> set names then Some (log_call (''enter_'' @ d)) else None)"
    "map_of (callbacks f) ('''', callbackEnterState) = (if ''enter_state'' \<in> set names then Some (log_call ''enter_state'') else None)"
    "map_of (callbacks f) (ev, callbackAfterEvent) = (if ''after_'' @ ev \<in> set names then Some (log_call (''after_'' @ ev)) else None)"
    "map_of (callbacks f) ('''', callbackAfterEvent) = (if ''after_event'' \<in> set names then Some (log_call ''after_event'') else None)"
proof -
  have m: "ev \<in> set (map ed_Name events)" "s \<in> set (all_states events)" "d \<in> set (all_states events)"
    using event_dst_names [OF d] by auto
  have ne: "ev \<noteq> ''''" "s \<noteq> ''''" "d \<noteq> ''''" using m e(1,2) by metis+
  show "map_of (callbacks f) (ev, callbackBeforeEvent) = (if ''before_'' @ ev \<in> set names then Some (log_call (''before_'' @ ev)) else None)"
    "map_of (callbacks f) ('''', callbackBeforeEvent) = (if ''before_event'' \<in> set names then Some (log_call ''before_event'') else None)"
    "map_of (callbacks f) (s, callbackLeaveState) = (if ''leave_'' @ s \<in> set names then Some (log_call (''leave_'' @ s)) else None)"
    "map_of (callbacks f) ('''', callbackLeaveState) = (if ''leave_state'' \<in> set names then Some (log_call ''leave_state'') else None)"
    "map_of (callbacks f) (d, callbackEnterState) = (if ''enter_'' @ d \<in> set names then Some (log_call (''enter_'' @ d)) else None)"
    "map_of (callbacks f) ('''', callbackEnterState) = (if ''enter_state'' \<in> set names then Some (log_call ''enter_state'') else None)"
    "map_of (callbacks f) (ev, callbackAfterEvent) = (if ''after_'' @ ev \<in> set names then Some (log_call (''after_'' @ ev)) else None)"
    "map_of (callbacks f) ('''', callbackAfterEvent) = (if ''after_event'' \<in> set names then Some (log_call ''after_event'') else None)"
    unfolding f_def
    by (rule callbacks_logging; (subst callback_key_before callback_key_leave callback_key_enter callback_key_after)?; use m ne e n in \<open>force\<close>)+
qed

lemma callback_order_lemma:
  assumes d: "event_dst events ev s = Some d" "d \<noteq> s"
    and e: "'''' \<notin> set (map ed_Name events)" "'''' \<notin> set (all_states events)" "ev \<noteq> ''event''" "s \<noteq> ''state''" "d \<noteq> ''state''"
    and n: "d \<notin> set names" "ev \<notin> set names" "'''' \<notin> set names"
  shows "FSM_Event (logging s events names :: ('a, 'e, string list) FSM) ev args w =
    ((logging s events names)\<lparr>current := d\<rparr>,
     w @ filter (\<lambda>n. n \<in> set names) [''before_'' @ ev, ''before_event'', ''leave_'' @ s, ''leave_state'',
       ''enter_'' @ d, ''enter_state'', ''after_'' @ ev, ''after_event''], None)"
proof -
  let ?f = "logging s events names :: ('a, 'e, string list) FSM"
  note k = logging_callbacks [OF d(1) e n]
  define p where "p n = filter (\<lambda>n. n \<in> set names) [n]" for n
  have call: "call (?f\<lparr>current := c, transition := tr\<rparr>) key e w = (e, w @ p n)"
    if "map_of (callbacks ?f) key = (if n \<in> set names then Some (log_call n) else None)" for key n e w c tr
    using that by (simp add: call_def p_def log_call_def)
  have t: "map_of (transitions ?f) (ev, s) = Some d" using d(1) by (simp add: logging_def NewFSM_transitions)
  have c: "transition ?f = None" "current ?f = s" by (simp_all add: logging_def NewFSM_def)
  have f: "?f = ?f\<lparr>current := s, transition := None\<rparr>" using c by simp
  let ?e = "\<lparr>ev_Event = ev, ev_Src = s, ev_Dst = d, ev_Err = None, ev_Args = args, canceled = False, async = False\<rparr>"
  have 1: "beforeEventCallbacks (?f\<lparr>current := s, transition := None\<rparr>) ?e w = (?e, w @ p (''before_'' @ ev) @ p ''before_event'', None)"
    unfolding beforeEventCallbacks_def Let_def by (simp only: call [OF k(1)] call [OF k(2)] prod.case Event.simps simp_thms if_False append_assoc)
  have cur: "current (?f\<lparr>current := c, transition := tr\<rparr>) = c" for c tr by simp
  have 2: "leaveStateCallbacks (?f\<lparr>current := s, transition := tr\<rparr>) ?e w = (?e, w @ p (''leave_'' @ s) @ p ''leave_state'', None)" for tr w
    unfolding leaveStateCallbacks_def Let_def leave_error_def
    by (simp only: cur call [OF k(3)] call [OF k(4)] prod.case Event.simps simp_thms if_False append_assoc)
  have 3: "enterStateCallbacks (?f\<lparr>current := d, transition := tr\<rparr>) ?e w = (?e, w @ p (''enter_'' @ d) @ p ''enter_state'')"
    "afterEventCallbacks (?f\<lparr>current := d, transition := tr\<rparr>) ?e w = (?e, w @ p (''after_'' @ ev) @ p ''after_event'')" for tr w
    unfolding enterStateCallbacks_def afterEventCallbacks_def Let_def
    by (simp_all only: cur Event.simps call [OF k(5)] call [OF k(6)] call [OF k(7)] call [OF k(8)] prod.case append_assoc)
  have u: "?f\<lparr>transition := tr\<rparr> = ?f\<lparr>current := s, transition := tr\<rparr>" "?f\<lparr>transition := tr, current := d\<rparr> = ?f\<lparr>current := d, transition := tr\<rparr>" for tr
    using c by simp_all
  have lv: "leaveStateCallbacks (?f\<lparr>transition := tr\<rparr>) ?e w = (?e, w @ p (''leave_'' @ s) @ p ''leave_state'', None)" for tr w
    unfolding u(1) by (rule 2)
  have en: "enterStateCallbacks (?f\<lparr>transition := tr, current := d\<rparr>) ?e w = (?e, w @ p (''enter_'' @ d) @ p ''enter_state'')"
    "afterEventCallbacks (?f\<lparr>transition := tr, current := d\<rparr>) ?e w = (?e, w @ p (''after_'' @ ev) @ p ''after_event'')" for tr w
    unfolding u(2) by (rule 3)+
  have "FSM_Event ?f ev args w = (?f\<lparr>current := d\<rparr>, w @ (p (''before_'' @ ev) @ p ''before_event'') @ (p (''leave_'' @ s) @ p ''leave_state'')
      @ (p (''enter_'' @ d) @ p ''enter_state'') @ p (''after_'' @ ev) @ p ''after_event'', None)"
    unfolding FSM_Event_def c t Let_def option.case 1 [folded f] prod.case
    using d(2) c by (simp add: lv en doTransition_def Let_def)
  moreover have "filter (\<lambda>n. n \<in> set names) [a1, a2, a3, a4, a5, a6, a7, a8] = (p a1 @ p a2) @ (p a3 @ p a4) @ (p a5 @ p a6) @ p a7 @ p a8" for a1 a2 a3 a4 a5 a6 a7 a8
    by (simp add: p_def)
  ultimately show ?thesis by simp
qed

section \<open>Properties\<close>

text \<open>C16. Whatever its callbacks do, an event leaves a machine in the state it was in, with an error, or moves it to the
  destination its transition map has for the event, with no transition pending; while a transition is pending every
  event is refused without any effect; a transition becomes pending exactly when a leave callback asked for an
  asynchronous one, and \<open>Transition\<close> then completes it. The internal error never occurs.\<close>

theorem FSM_Event_safe:
  assumes "FSM_Event (f :: ('a, 'e, 'w) FSM) event args w = (f', w', err)"
  shows "transitions f' = transitions f \<and> callbacks f' = callbacks f \<and> err \<noteq> Some InternalError \<and>
    (current f' = current f \<and> err \<noteq> None \<or>
     map_of (transitions f) (event, current f) = Some (current f') \<and> transition f' = None \<and> (err = None \<or> (\<exists>x. err = Some (EventErr x)))) \<and>
    (transition f \<noteq> None \<longrightarrow> f' = f \<and> w' = w \<and> err = Some (InTransitionError event)) \<and>
    (transition f = None \<and> transition f' \<noteq> None \<longleftrightarrow> (\<exists>x. err = Some (AsyncError x))) \<and>
    ((\<exists>x. err = Some (AsyncError x)) \<longrightarrow>
       (\<exists>dst w''. map_of (transitions f) (event, current f) = Some dst \<and> Transition f' w' = (f\<lparr>current := dst\<rparr>, w'', None)))"
  using assms
proof (cases rule: FSM_Event_cases)
  case (enabled dst)
  show ?thesis
  proof (rule FSM_Event_enabled [OF assms enabled])
    fix e x assume a: "dst \<noteq> current f" "f' = f\<lparr>transition := Some (dst, e)\<rparr>" "err = Some (AsyncError x)"
    then obtain w'' where "Transition f' w' = (f'\<lparr>current := dst, transition := None\<rparr>, w'', None)"
      using Transition_pending [of f' dst e w'] by auto
    then show ?thesis using a enabled by auto
  next
    fix e assume "dst \<noteq> current f" "f' = f\<lparr>current := dst\<rparr>" "err = map_option EventErr (ev_Err (e :: ('a, 'e) Event))"
    then show ?thesis using enabled by (cases "ev_Err e") auto
  qed (use enabled in auto)
qed auto

theorem FSM_Event_safe_witness:
  "let f = NewFSM ''a'' [\<lparr>ed_Name = ''go'', ed_Src = [''a''], ed_Dst = ''b''\<rparr>] [(''leave_a'', \<lambda>e w. (Async e, w))] :: (nat, nat, nat) FSM;
       (f1, w1, err1) = FSM_Event f ''go'' [] 0
   in current f1 = ''a'' \<and> err1 = Some (AsyncError None) \<and> current (fst (Transition f1 w1)) = ''b''"
proof -
  let ?f = "NewFSM ''a'' [\<lparr>ed_Name = ''go'', ed_Src = [''a''], ed_Dst = ''b''\<rparr>] [(''leave_a'', \<lambda>e w. (Async e, w))] :: (nat, nat, nat) FSM"
  obtain f1 w1 err1 where r: "FSM_Event ?f ''go'' [] 0 = (f1, w1, err1)" by (metis prod_cases3)
  have "current (fst (FSM_Event ?f ''go'' [] 0)) = ''a'' \<and> snd (snd (FSM_Event ?f ''go'' [] 0)) = Some (AsyncError None) \<and>
    map_of (transitions ?f) (''go'', current ?f) = Some ''b''" by code_simp
  then have c: "current f1 = ''a''" "err1 = Some (AsyncError None)" "map_of (transitions ?f) (''go'', current ?f) = Some ''b''"
    unfolding r by simp_all
  then obtain w2 where "Transition f1 w1 = (?f\<lparr>current := ''b''\<rparr>, w2, None)" using FSM_Event_safe [OF r] by auto
  then show ?thesis unfolding Let_def r using c by simp
qed

text \<open>C17. The documented order of the callbacks: an event that changes the state calls those of \<open>before_<event>\<close>,
  \<open>before_event\<close>, \<open>leave_<old>\<close>, \<open>leave_state\<close>, \<open>enter_<new>\<close>, \<open>enter_state\<close>, \<open>after_<event>\<close>, \<open>after_event\<close> that are given to
  \<open>NewFSM\<close>, each once and in this order, whatever the order of the map of callbacks.\<close>

theorem callback_order:
  assumes "event_dst events ev s = Some d" "d \<noteq> s"
    and "'''' \<notin> set (map ed_Name events)" "'''' \<notin> set (all_states events)" "ev \<noteq> ''event''" "s \<noteq> ''state''" "d \<noteq> ''state''"
    and "d \<notin> set names" "ev \<notin> set names" "'''' \<notin> set names"
  shows "FSM_Event (NewFSM s events (map (\<lambda>n. (n, log_call n)) names)) ev args w =
    ((NewFSM s events (map (\<lambda>n. (n, log_call n)) names))\<lparr>current := d\<rparr>,
     w @ filter (\<lambda>n. n \<in> set names) [''before_'' @ ev, ''before_event'', ''leave_'' @ s, ''leave_state'',
       ''enter_'' @ d, ''enter_state'', ''after_'' @ ev, ''after_event''], None)"
  by (rule callback_order_lemma [OF assms, unfolded logging_def])

theorem callback_order_witness:
  "fst (snd (FSM_Event (NewFSM ''a'' [\<lparr>ed_Name = ''go'', ed_Src = [''a''], ed_Dst = ''b''\<rparr>]
      (map (\<lambda>n. (n, log_call n)) [''after_go'', ''enter_b'', ''before_event'', ''leave_state''])) ''go'' [] []))
   = [''before_event'', ''leave_state'', ''enter_b'', ''after_go'']"
proof -
  let ?ev = "[\<lparr>ed_Name = ''go'', ed_Src = [''a''], ed_Dst = ''b''\<rparr>]" and ?ns = "[''after_go'', ''enter_b'', ''before_event'', ''leave_state'']"
  have "event_dst ?ev ''go'' ''a'' = Some ''b''" "'''' \<notin> set (map ed_Name ?ev)" "'''' \<notin> set (all_states ?ev)" by code_simp+
  then show ?thesis by (subst callback_order [of ?ev "''go''" "''a''" "''b''" ?ns]) simp_all
qed

end
