(* ===== verification/Cluster_Manager.thy ===== *)
theory Cluster_Manager
  imports Fsm
begin

text \<open>
  \<open>src/pkg/zke\<close> (\<open>fsm.go\<close>, \<open>cluster.go\<close>, \<open>manager.go\<close>, \<open>db.go\<close>) and the statuses of \<open>src/pkg/types/cluster.go\<close>: the life
  cycle of clusters. The manager keeps a list of clusters, each with a state machine of \<open>src/cement/fsm\<close>; requests
  start goroutines that run the installer and report with events, whose callbacks write the database.

  Pointers to clusters are indices of \<open>heap\<close>. Configurations (\<open>'c\<close>) and installer states (\<open>'f\<close>) are opaque; the results
  of the installer, of creating the Kubernetes client and cache, of the validation of a request and the clock are
  arguments. The database table is a map of \<open>clusterState\<close>, reached while \<open>dbUp\<close> holds. The log files of the installer
  (\<open>zkelog\<close>) and the Kubernetes clients held by a cluster are not modelled.

  A machine is kept as its current state and the mutex \<open>eventMu\<close>, which is held while a callback runs: the rest of it never
  changes. The goroutines and the one request that waits for a machine while it holds the manager's lock are
  \<open>thread\<close>s, and \<open>mgr_step\<close> interleaves them.
\<close>

section \<open>Statuses and events\<close>

definition CSRunning :: string where "CSRunning = ''Running''"
definition CSUnreachable :: string where "CSUnreachable = ''Unreachable''"
definition CSCreating :: string where "CSCreating = ''Creating''"
definition CSCreateFailed :: string where "CSCreateFailed = ''CreateFailed''"
definition CSUpdating :: string where "CSUpdating = ''Updating''"
definition CSDeleting :: string where "CSDeleting = ''Deleting''"
definition CSDeleted :: string where "CSDeleted = ''Deleted''"

definition CreateSucceedEvent :: string where "CreateSucceedEvent = ''createSucceed''"
definition CreateFailedEvent :: string where "CreateFailedEvent = ''createFailed''"
definition CreateCanceledEvent :: string where "CreateCanceledEvent = ''createCanceled''"
definition ContinuteCreateEvent :: string where "ContinuteCreateEvent = ''continuteCreate''"
definition UpdateEvent :: string where "UpdateEvent = ''update''"
definition UpdateCompletedEvent :: string where "UpdateCompletedEvent = ''updateCompleted''"
definition UpdateCanceledEvent :: string where "UpdateCanceledEvent = ''updateCanceled''"
definition GetInfoFailedEvent :: string where "GetInfoFailedEvent = ''getInfoFailed''"
definition GetInfoSucceedEvent :: string where "GetInfoSucceedEvent = ''getInfoSucceed''"
definition DeleteEvent :: string where "DeleteEvent = ''delete''"
definition DeleteCompletedEvent :: string where "DeleteCompletedEvent = ''deleteCompleted''"
definition DeleteFailedEvent :: string where "DeleteFailedEvent = ''deleteFailed''"
definition UpdateFailedEvent :: string where "UpdateFailedEvent = ''updateFailed''"

definition cluster_events :: "EventDesc list" where
  "cluster_events =
     [\<lparr>ed_Name = CreateSucceedEvent, ed_Src = [CSCreating], ed_Dst = CSRunning\<rparr>,
      \<lparr>ed_Name = CreateFailedEvent, ed_Src = [CSCreating], ed_Dst = CSCreateFailed\<rparr>,
      \<lparr>ed_Name = CreateCanceledEvent, ed_Src = [CSCreating], ed_Dst = CSCreateFailed\<rparr>,
      \<lparr>ed_Name = ContinuteCreateEvent, ed_Src = [CSCreateFailed], ed_Dst = CSCreating\<rparr>,
      \<lparr>ed_Name = UpdateEvent, ed_Src = [CSRunning], ed_Dst = CSUpdating\<rparr>,
      \<lparr>ed_Name = UpdateCompletedEvent, ed_Src = [CSUpdating], ed_Dst = CSRunning\<rparr>,
      \<lparr>ed_Name = UpdateCanceledEvent, ed_Src = [CSUpdating], ed_Dst = CSRunning\<rparr>,
      \<lparr>ed_Name = GetInfoFailedEvent, ed_Src = [CSRunning], ed_Dst = CSUnreachable\<rparr>,
      \<lparr>ed_Name = GetInfoSucceedEvent, ed_Src = [CSUnreachable], ed_Dst = CSRunning\<rparr>,
      \<lparr>ed_Name = DeleteEvent, ed_Src = [CSRunning, CSCreateFailed, CSUnreachable], ed_Dst = CSDeleting\<rparr>,
      \<lparr>ed_Name = DeleteCompletedEvent, ed_Src = [CSDeleting], ed_Dst = CSDeleted\<rparr>]"

section \<open>State\<close>

record ('c, 'f) clusterState =
  cs_FullState :: 'f
  cs_ZKEConfig :: 'c
  cs_CreateTime :: nat
  cs_DeleteTime :: nat
  cs_Created :: bool
  cs_ScVersion :: string

datatype chan = NilCh | OpenCh | ClosedCh

record 'c Cluster =
  c_Name :: string
  c_createTime :: nat
  c_deleteTime :: nat
  c_stopCh :: chan
  c_config :: 'c
  c_isCanceled :: bool
  c_current :: string
  c_eventMu :: bool
  c_scVersion :: string

datatype install_op = CreateOp | UpdateOp

text \<open>
  \<open>Installing\<close> and \<open>Destroying\<close> run the installer, \<open>Sending\<close> is about to send events to the machine, \<open>Calling\<close> is
  in the callback of an event, \<open>Removed\<close> is in the callback of \<open>deleteCompleted\<close> between its two effects, and
  \<open>Requesting\<close> is the request \<open>Update\<close>, holding the manager's lock, about to send its event.
\<close>

datatype ('c, 'f) thread =
  Installing install_op nat "('c, 'f) clusterState"
  | Destroying nat
  | Sending nat "(string \<times> ('c, 'f) clusterState \<times> string) list"
  | Calling nat string "('c, 'f) clusterState" string "(string \<times> ('c, 'f) clusterState \<times> string) list"
  | Removed nat
  | Requesting nat "('c, 'f) clusterState"

datatype bus_event = ResourceCreated string string | ResourceDeleted string string

record ('c, 'f) ZKEManager =
  heap :: "'c Cluster list"
  clusters :: "nat list"
  dbTable :: "string \<Rightarrow> ('c, 'f) clusterState option"
  dbUp :: bool
  mgr_lock :: bool
  mgr_scVersion :: string
  bus :: "bus_event list"
  alarms :: "(string \<times> string \<times> string) list"
  checkers :: "nat list"
  threads :: "('c, 'f) thread list"

definition cluster_at :: "('c, 'f) ZKEManager \<Rightarrow> nat \<Rightarrow> 'c Cluster" where
  "cluster_at w p = heap w ! p"

definition mgr_modify :: "('c, 'f) ZKEManager \<Rightarrow> nat \<Rightarrow> ('c Cluster \<Rightarrow> 'c Cluster) \<Rightarrow> ('c, 'f) ZKEManager" where
  "mgr_modify w p g = w\<lparr>heap := (heap w)[p := g (heap w ! p)]\<rparr>"

section \<open>The database\<close>

definition getClusterFromDB :: "string \<Rightarrow> ('c, 'f) ZKEManager \<Rightarrow> ('c, 'f) clusterState option" where
  "getClusterFromDB clusterID w = (if dbUp w then dbTable w clusterID else None)"

definition createOrUpdateClusterFromDB ::
  "string \<Rightarrow> ('c, 'f) clusterState \<Rightarrow> ('c, 'f) ZKEManager \<Rightarrow> ('c, 'f) ZKEManager option" where
  "createOrUpdateClusterFromDB clusterID s w =
     (if dbUp w then Some (w\<lparr>dbTable := (dbTable w)(clusterID := Some s)\<rparr>) else None)"

definition deleteClusterFromDB :: "string \<Rightarrow> ('c, 'f) ZKEManager \<Rightarrow> ('c, 'f) ZKEManager option" where
  "deleteClusterFromDB clusterID w = (if dbUp w then Some (w\<lparr>dbTable := (dbTable w)(clusterID := None)\<rparr>) else None)"

text \<open>A failed write is logged and dropped.\<close>

definition or_log :: "('c, 'f) ZKEManager \<Rightarrow> ('c, 'f) ZKEManager option \<Rightarrow> ('c, 'f) ZKEManager" where
  "or_log w res = (case res of None \<Rightarrow> w | Some w' \<Rightarrow> w')"

section \<open>The list of clusters\<close>

definition mgr_get :: "('c, 'f) ZKEManager \<Rightarrow> string \<Rightarrow> nat option" where
  "mgr_get w name = find (\<lambda>p. c_Name (cluster_at w p) = name) (clusters w)"

definition mgr_add :: "('c, 'f) ZKEManager \<Rightarrow> 'c Cluster \<Rightarrow> ('c, 'f) ZKEManager" where
  "mgr_add w c = w\<lparr>heap := heap w @ [c], clusters := clusters w @ [length (heap w)]\<rparr>"

fun remove_first :: "('a \<Rightarrow> bool) \<Rightarrow> 'a list \<Rightarrow> 'a list" where
  "remove_first P [] = []"
| "remove_first P (x # xs) = (if P x then xs else x # remove_first P xs)"

definition mgr_Remove :: "('c, 'f) ZKEManager \<Rightarrow> nat \<Rightarrow> ('c, 'f) ZKEManager" where
  "mgr_Remove w p = w\<lparr>clusters := remove_first (\<lambda>q. c_Name (cluster_at w q) = c_Name (cluster_at w p)) (clusters w)\<rparr>"

definition IsReady :: "'c Cluster \<Rightarrow> bool" where
  "IsReady c \<longleftrightarrow> c_current c = CSRunning \<or> c_current c = CSUnreachable"

definition GetReady :: "('c, 'f) ZKEManager \<Rightarrow> string \<Rightarrow> nat option" where
  "GetReady w name = (case mgr_get w name of None \<Rightarrow> None | Some p \<Rightarrow> if IsReady (cluster_at w p) then Some p else None)"

definition ListReady :: "('c, 'f) ZKEManager \<Rightarrow> nat list" where
  "ListReady w = filter (\<lambda>p. IsReady (cluster_at w p)) (clusters w)"

section \<open>Callbacks of the machine\<close>

text \<open>Each event that has a callback is sent with a state and an error message.\<close>

type_synonym ('c, 'f) Fsm_args = "('c, 'f) clusterState \<times> string"

definition publish_alarm :: "nat \<Rightarrow> string \<Rightarrow> string \<Rightarrow> ('c, 'f) ZKEManager \<Rightarrow> ('c, 'f) ZKEManager" where
  "publish_alarm p reason msg w =
     (if msg \<noteq> '''' then w\<lparr>alarms := alarms w @ [(c_Name (cluster_at w p), reason, msg)]\<rparr> else w)"

definition write_state :: "nat \<Rightarrow> ('c, 'f) clusterState \<Rightarrow> ('c, 'f) ZKEManager \<Rightarrow> ('c, 'f) ZKEManager" where
  "write_state p s w = or_log w (createOrUpdateClusterFromDB (c_Name (cluster_at w p)) s w)"

definition on_CreateSucceed :: "nat \<Rightarrow> ('c, 'f) Fsm_args \<Rightarrow> string \<Rightarrow> ('c, 'f) ZKEManager \<Rightarrow> ('c, 'f) ZKEManager" where
  "on_CreateSucceed p a dst w =
     (let w = write_state p (fst a) w in w\<lparr>bus := bus w @ [ResourceCreated (c_Name (cluster_at w p)) dst]\<rparr>)"

definition on_CreateFailed :: "nat \<Rightarrow> ('c, 'f) Fsm_args \<Rightarrow> ('c, 'f) ZKEManager \<Rightarrow> ('c, 'f) ZKEManager" where
  "on_CreateFailed p a w = write_state p (fst a) (publish_alarm p CreateFailedEvent (snd a) w)"

definition on_CreateCanceled :: "nat \<Rightarrow> ('c, 'f) Fsm_args \<Rightarrow> ('c, 'f) ZKEManager \<Rightarrow> ('c, 'f) ZKEManager" where
  "on_CreateCanceled p a w = write_state p (fst a) (mgr_modify w p (\<lambda>c. c\<lparr>c_isCanceled := False\<rparr>))"

definition on_UpdateCompleted :: "nat \<Rightarrow> ('c, 'f) Fsm_args \<Rightarrow> ('c, 'f) ZKEManager \<Rightarrow> ('c, 'f) ZKEManager" where
  "on_UpdateCompleted p a w = write_state p (fst a) (publish_alarm p UpdateFailedEvent (snd a) w)"

definition on_UpdateCanceled :: "nat \<Rightarrow> ('c, 'f) Fsm_args \<Rightarrow> ('c, 'f) ZKEManager \<Rightarrow> ('c, 'f) ZKEManager" where
  "on_UpdateCanceled p a w = write_state p (fst a) (mgr_modify w p (\<lambda>c. c\<lparr>c_isCanceled := False\<rparr>))"

text \<open>The callback of \<open>deleteCompleted\<close> takes the manager's lock in \<open>Remove\<close> and deletes the record after releasing it.\<close>

definition delete_remove :: "nat \<Rightarrow> string \<Rightarrow> ('c, 'f) ZKEManager \<Rightarrow> ('c, 'f) ZKEManager" where
  "delete_remove p msg w = mgr_Remove (publish_alarm p DeleteFailedEvent msg w) p"

definition delete_record :: "nat \<Rightarrow> ('c, 'f) ZKEManager \<Rightarrow> ('c, 'f) ZKEManager" where
  "delete_record p w = or_log w (deleteClusterFromDB (c_Name (cluster_at w p)) w)"

definition on_DeleteCompleted :: "nat \<Rightarrow> ('c, 'f) Fsm_args \<Rightarrow> ('c, 'f) ZKEManager \<Rightarrow> ('c, 'f) ZKEManager" where
  "on_DeleteCompleted p a w = delete_record p (delete_remove p (snd a) w)"

definition newClusterFsm :: "nat \<Rightarrow> string \<Rightarrow> (('c, 'f) Fsm_args, unit, ('c, 'f) ZKEManager) FSM" where
  "newClusterFsm p initialStatus =
     NewFSM initialStatus cluster_events
       [(CreateSucceedEvent, \<lambda>e w. (e, on_CreateSucceed p (hd (ev_Args e)) (ev_Dst e) w)),
        (CreateFailedEvent, \<lambda>e w. (e, on_CreateFailed p (hd (ev_Args e)) w)),
        (CreateCanceledEvent, \<lambda>e w. (e, on_CreateCanceled p (hd (ev_Args e)) w)),
        (UpdateCompletedEvent, \<lambda>e w. (e, on_UpdateCompleted p (hd (ev_Args e)) w)),
        (UpdateCanceledEvent, \<lambda>e w. (e, on_UpdateCanceled p (hd (ev_Args e)) w)),
        (DeleteCompletedEvent, \<lambda>e w. (e, on_DeleteCompleted p (hd (ev_Args e)) w))]"

definition newCluster :: "string \<Rightarrow> string \<Rightarrow> 'c \<Rightarrow> nat \<Rightarrow> string \<Rightarrow> 'c Cluster" where
  "newCluster name initialStatus config createTime scVersion =
     \<lparr>c_Name = name, c_createTime = createTime, c_deleteTime = 0, c_stopCh = NilCh, c_config = config,
      c_isCanceled = False, c_current = initialStatus, c_eventMu = False, c_scVersion = scVersion\<rparr>"

text \<open>What the machine does: where an event leads, and what its callback does.\<close>

definition cluster_next :: "string \<Rightarrow> string \<Rightarrow> string option" where
  "cluster_next status event = map_of (transitions (newClusterFsm 0 status :: ((nat, nat) Fsm_args, unit, (nat, nat) ZKEManager) FSM)) (event, status)"

definition run_callback ::
  "nat \<Rightarrow> string \<Rightarrow> string \<Rightarrow> ('c, 'f) Fsm_args \<Rightarrow> ('c, 'f) ZKEManager \<Rightarrow> ('c, 'f) ZKEManager" where
  "run_callback p event dst a w =
     (if event = CreateSucceedEvent then on_CreateSucceed p a dst w
      else if event = CreateFailedEvent then on_CreateFailed p a w
      else if event = CreateCanceledEvent then on_CreateCanceled p a w
      else if event = UpdateCompletedEvent then on_UpdateCompleted p a w
      else if event = UpdateCanceledEvent then on_UpdateCanceled p a w
      else if event = DeleteCompletedEvent then on_DeleteCompleted p a w
      else w)"

definition Cluster_Can :: "('c, 'f) ZKEManager \<Rightarrow> nat \<Rightarrow> string \<Rightarrow> bool" where
  "Cluster_Can w p event \<longleftrightarrow> cluster_next (c_current (cluster_at w p)) event \<noteq> None \<and> \<not> c_eventMu (cluster_at w p)"

section \<open>Goroutines\<close>

datatype 'f up_result = UpPanic string | UpError 'f string | UpOk 'f

datatype cache_result = HttpClientError string | CacheError string | CacheOk

text \<open>\<open>setCache\<close>: the channel is made before the cache is.\<close>

definition setCache :: "cache_result \<Rightarrow> 'c Cluster \<Rightarrow> 'c Cluster \<times> string option" where
  "setCache res c =
     (case res of
        HttpClientError msg \<Rightarrow> (c, Some msg)
      | CacheError msg \<Rightarrow> (c\<lparr>c_stopCh := OpenCh\<rparr>, Some msg)
      | CacheOk \<Rightarrow> (c\<lparr>c_stopCh := OpenCh\<rparr>, None))"

text \<open>
  The goroutine \<open>Create\<close>, from the end of the installer to the events it sends: the cluster it leaves, whether it starts
  the connection check, and the events. A panic of the installer is recovered and reported.
\<close>

definition Cluster_Create ::
  "'c Cluster \<Rightarrow> ('c, 'f) clusterState \<Rightarrow> 'f up_result \<Rightarrow> cache_result
   \<Rightarrow> 'c Cluster \<times> bool \<times> (string \<times> ('c, 'f) clusterState \<times> string) list" where
  "Cluster_Create c state up cache =
     (case up of
        UpPanic msg \<Rightarrow> (c, False, [(CreateFailedEvent, state, msg)])
      | UpError zkeState msg \<Rightarrow>
          let state = state\<lparr>cs_FullState := zkeState\<rparr> in
          if c_isCanceled c then (c, False, [(CreateCanceledEvent, state, '''')])
          else (c, False, [(CreateFailedEvent, state, msg)])
      | UpOk zkeState \<Rightarrow>
          let state = state\<lparr>cs_FullState := zkeState\<rparr> in
          if c_isCanceled c then (c, False, [(CreateCanceledEvent, state, '''')])
          else
            case setCache cache c of
              (c, Some msg) \<Rightarrow> (c, False, [(CreateFailedEvent, state, msg)])
            | (c, None) \<Rightarrow> (c, True, [(CreateSucceedEvent, state\<lparr>cs_Created := True\<rparr>, '''')]))"

text \<open>In \<open>Update\<close> a failed \<open>setCache\<close> is reported, and then the success is sent as well: there is no return.\<close>

definition Cluster_Update ::
  "'c Cluster \<Rightarrow> ('c, 'f) clusterState \<Rightarrow> 'f up_result \<Rightarrow> cache_result
   \<Rightarrow> 'c Cluster \<times> bool \<times> (string \<times> ('c, 'f) clusterState \<times> string) list" where
  "Cluster_Update c state up cache =
     (case up of
        UpPanic msg \<Rightarrow> (c, False, [(UpdateCompletedEvent, state, msg)])
      | UpError zkeState msg \<Rightarrow>
          let state = state\<lparr>cs_FullState := zkeState\<rparr> in
          if c_isCanceled c then
            (c, False, [(if cs_Created state then UpdateCanceledEvent else CreateCanceledEvent, state, '''')])
          else (c, False, [(if cs_Created state then UpdateCompletedEvent else CreateFailedEvent, state, msg)])
      | UpOk zkeState \<Rightarrow>
          let state = state\<lparr>cs_FullState := zkeState\<rparr> in
          if c_isCanceled c then
            (c, False, [(if cs_Created state then UpdateCanceledEvent else CreateCanceledEvent, state, '''')])
          else if cs_Created state then (c, False, [(UpdateCompletedEvent, state, '''')])
          else
            let (c, err) = setCache cache c;
                failed = (case err of None \<Rightarrow> [] | Some msg \<Rightarrow> [(CreateFailedEvent, state, msg)])
            in (c, False, failed @ [(CreateSucceedEvent, state\<lparr>cs_Created := True\<rparr>, '''')]))"

text \<open>The events of \<open>Destroy\<close>; the zero \<open>clusterState\<close> it passes is ignored by the callback and left to the caller here.\<close>

definition Cluster_Destroy :: "('c, 'f) clusterState \<Rightarrow> string option \<Rightarrow> (string \<times> ('c, 'f) clusterState \<times> string) list" where
  "Cluster_Destroy zero err =
     [(DeleteCompletedEvent, zero, case err of None \<Rightarrow> '''' | Some msg \<Rightarrow> msg)]"

text \<open>One turn of \<open>connectionCheckLoop\<close> sends one of two events, which have no callback.\<close>

definition connectionCheckEvent :: "bool \<Rightarrow> string" where
  "connectionCheckEvent failed = (if failed then GetInfoFailedEvent else GetInfoSucceedEvent)"

section \<open>Requests\<close>

datatype api_error = DuplicateResource | InvalidOption | ServerError | NotFound | PermissionDenied

definition spawn :: "('c, 'f) thread \<Rightarrow> ('c, 'f) ZKEManager \<Rightarrow> ('c, 'f) ZKEManager" where
  "spawn t w = w\<lparr>threads := threads w @ [t]\<rparr>"

definition ZKE_Create ::
  "string \<Rightarrow> 'c \<Rightarrow> bool \<Rightarrow> 'f \<Rightarrow> nat \<Rightarrow> ('c, 'f) ZKEManager \<Rightarrow> ('c, 'f) ZKEManager \<times> api_error option" where
  "ZKE_Create name config valid emptyState now w =
     (if mgr_get w name \<noteq> None then (w, Some DuplicateResource)
      else if \<not> valid then (w, Some InvalidOption)
      else
        let state = \<lparr>cs_FullState = emptyState, cs_ZKEConfig = config, cs_CreateTime = now, cs_DeleteTime = 0,
                     cs_Created = False, cs_ScVersion = mgr_scVersion w\<rparr>
        in case createOrUpdateClusterFromDB name state w of
             None \<Rightarrow> (w, Some ServerError)
           | Some w \<Rightarrow>
               let cluster = newCluster name CSCreating config now (mgr_scVersion w);
                   p = length (heap w)
               in (spawn (Installing CreateOp p state) (mgr_add w cluster), None))"

text \<open>
  \<open>Update\<close>, up to the event it sends with the lock held, and from there. The database can fail between the read and the
  write: \<open>up\<close> is whether it answers the write.
\<close>

definition update_prepare ::
  "string \<Rightarrow> ('c \<Rightarrow> 'c) \<Rightarrow> bool \<Rightarrow> bool \<Rightarrow> ('c, 'f) ZKEManager
   \<Rightarrow> ('c, 'f) ZKEManager \<times> (api_error + nat \<times> ('c, 'f) clusterState)" where
  "update_prepare name genConfig valid up w =
     (case mgr_get w name of
        None \<Rightarrow> (w, Inl NotFound)
      | Some p \<Rightarrow>
          if \<not> valid then (w, Inl InvalidOption)
          else
            let config = genConfig (c_config (cluster_at w p)) in
            case getClusterFromDB name w of
              None \<Rightarrow> (w, Inl ServerError)
            | Some state \<Rightarrow>
                if cs_Created state \<and> \<not> Cluster_Can w p UpdateEvent then (w, Inl PermissionDenied)
                else
                  let state = state\<lparr>cs_ZKEConfig := config\<rparr>;
                      w = (mgr_modify w p (\<lambda>c. c\<lparr>c_config := config\<rparr>))\<lparr>dbUp := up\<rparr>
                  in case createOrUpdateClusterFromDB name state w of
                       None \<Rightarrow> (w, Inl ServerError)
                     | Some w \<Rightarrow> (w, Inr (p, state)))"

definition update_event ::
  "nat \<Rightarrow> ('c, 'f) clusterState \<Rightarrow> ('c, 'f) ZKEManager \<Rightarrow> ('c, 'f) ZKEManager \<times> api_error option" where
  "update_event p state w =
     (let event = (if cs_Created state then UpdateEvent else ContinuteCreateEvent) in
      case cluster_next (c_current (cluster_at w p)) event of
        None \<Rightarrow> (w, Some ServerError)
      | Some status \<Rightarrow> (spawn (Installing UpdateOp p state) (mgr_modify w p (\<lambda>c. c\<lparr>c_current := status\<rparr>)), None))"

definition ZKE_Update ::
  "string \<Rightarrow> ('c \<Rightarrow> 'c) \<Rightarrow> bool \<Rightarrow> bool \<Rightarrow> ('c, 'f) ZKEManager \<Rightarrow> ('c, 'f) ZKEManager \<times> api_error option" where
  "ZKE_Update name genConfig valid up w =
     (case update_prepare name genConfig valid up w of
        (w, Inl err) \<Rightarrow> (w, Some err)
      | (w, Inr (p, state)) \<Rightarrow> update_event p state w)"

text \<open>
  \<open>Delete\<close>. The error of its event is dropped (the code tests an older variable). Closing a channel that is nil or closed
  panics, and is None here.
\<close>

definition ZKE_Delete :: "string \<Rightarrow> nat \<Rightarrow> bool \<Rightarrow> ('c, 'f) ZKEManager \<Rightarrow> (('c, 'f) ZKEManager \<times> api_error option) option" where
  "ZKE_Delete name now up w =
     (case mgr_get w name of
        None \<Rightarrow> Some (w, Some NotFound)
      | Some p \<Rightarrow>
          if \<not> Cluster_Can w p DeleteEvent then Some (w, Some PermissionDenied)
          else
            case getClusterFromDB (c_Name (cluster_at w p)) w of
              None \<Rightarrow> Some (w, Some ServerError)
            | Some state \<Rightarrow>
                let w = (case cluster_next (c_current (cluster_at w p)) DeleteEvent of
                           None \<Rightarrow> w
                         | Some status \<Rightarrow> mgr_modify w p (\<lambda>c. c\<lparr>c_current := status\<rparr>))
                in if cs_Created state \<and> c_stopCh (cluster_at w p) \<noteq> OpenCh then None
                   else
                     let w = (if cs_Created state then
                                let w = mgr_modify w p (\<lambda>c. c\<lparr>c_stopCh := ClosedCh\<rparr>) in
                                w\<lparr>bus := bus w @ [ResourceDeleted name (c_current (cluster_at w p))]\<rparr>
                              else w);
                         w = (mgr_modify w p (\<lambda>c. c\<lparr>c_deleteTime := now\<rparr>))\<lparr>dbUp := up\<rparr>;
                         state = state\<lparr>cs_DeleteTime := now\<rparr>
                     in case createOrUpdateClusterFromDB name state w of
                          None \<Rightarrow> Some (w, Some ServerError)
                        | Some w \<Rightarrow> Some (spawn (Destroying p) w, None))"

definition Cluster_Cancel :: "'c Cluster \<Rightarrow> 'c Cluster option" where
  "Cluster_Cancel c =
     (if c_current c = CSCreating \<or> c_current c = CSUpdating then
        if c_isCanceled c then None else Some (c\<lparr>c_isCanceled := True\<rparr>)
      else None)"

definition CancelCluster :: "string \<Rightarrow> ('c, 'f) ZKEManager \<Rightarrow> ('c, 'f) ZKEManager \<times> api_error option" where
  "CancelCluster name w =
     (case mgr_get w name of
        None \<Rightarrow> (w, Some NotFound)
      | Some p \<Rightarrow>
          case Cluster_Cancel (cluster_at w p) of
            None \<Rightarrow> (w, Some PermissionDenied)
          | Some c \<Rightarrow> (mgr_modify w p (\<lambda>_. c), None))"

text \<open>
  \<open>loadDB\<close> at the start, over the records in the order of the map: a created cluster is dropped when its client or cache
  cannot be made (\<open>Init\<close>).
\<close>

definition load_one ::
  "(string \<Rightarrow> bool) \<Rightarrow> string \<times> ('c, 'f) clusterState \<Rightarrow> ('c, 'f) ZKEManager \<Rightarrow> ('c, 'f) ZKEManager" where
  "load_one initOk kv w =
     (let (k, v) = kv; p = length (heap w) in
      if cs_Created v then
        let cluster = newCluster k CSRunning (cs_ZKEConfig v) (cs_CreateTime v) (cs_ScVersion v) in
        if initOk k then
          let w = mgr_add w (fst (setCache CacheOk cluster)) in
          w\<lparr>checkers := checkers w @ [p], bus := bus w @ [ResourceCreated k CSRunning]\<rparr>
        else w
      else mgr_add w (newCluster k CSCreateFailed (cs_ZKEConfig v) (cs_CreateTime v) (cs_ScVersion v)))"

definition loadDB :: "(string \<Rightarrow> bool) \<Rightarrow> (string \<times> ('c, 'f) clusterState) list \<Rightarrow> ('c, 'f) ZKEManager \<Rightarrow> ('c, 'f) ZKEManager" where
  "loadDB initOk records w = fold (load_one initOk) records w"

section \<open>Interleavings\<close>

text \<open>What can go wrong outside of the manager.\<close>

datatype fault = DbDown | CacheFails | InstallerPanics

definition up_allowed :: "fault set \<Rightarrow> 'f up_result \<Rightarrow> bool" where
  "up_allowed F up \<longleftrightarrow> (case up of UpPanic _ \<Rightarrow> InstallerPanics \<in> F | _ \<Rightarrow> True)"

definition cache_allowed :: "fault set \<Rightarrow> cache_result \<Rightarrow> bool" where
  "cache_allowed F res \<longleftrightarrow> res = CacheOk \<or> CacheFails \<in> F"

text \<open>
  A request holds the manager's lock from start to end; only \<open>Update\<close> can wait in between, for the mutex of a machine. A callback
  holds that mutex; only the one of \<open>deleteCompleted\<close> can wait, for the manager's lock.
\<close>

inductive mgr_step :: "fault set \<Rightarrow> ('c, 'f) ZKEManager \<Rightarrow> ('c, 'f) ZKEManager \<Rightarrow> bool" for F where
  create: "\<not> mgr_lock w \<Longrightarrow> mgr_step F w (fst (ZKE_Create name config valid f now w))"
| update_fails: "\<not> mgr_lock w \<Longrightarrow> up \<or> DbDown \<in> F \<Longrightarrow> update_prepare name g valid up w = (w', Inl err) \<Longrightarrow> mgr_step F w w'"
| update: "\<not> mgr_lock w \<Longrightarrow> up \<or> DbDown \<in> F \<Longrightarrow> update_prepare name g valid up w = (w', Inr (p, s)) \<Longrightarrow>
    mgr_step F w (spawn (Requesting p s) (w'\<lparr>mgr_lock := True\<rparr>))"
| requested: "threads w = ts @ Requesting p s # ts' \<Longrightarrow> \<not> c_eventMu (cluster_at w p) \<Longrightarrow>
    mgr_step F w (fst (update_event p s (w\<lparr>threads := ts @ ts', mgr_lock := False\<rparr>)))"
| delete: "\<not> mgr_lock w \<Longrightarrow> up \<or> DbDown \<in> F \<Longrightarrow> ZKE_Delete name now up w = Some (w', res) \<Longrightarrow> mgr_step F w w'"
| cancel: "\<not> mgr_lock w \<Longrightarrow> mgr_step F w (fst (CancelCluster name w))"
| installed: "threads w = ts @ Installing oper p s # ts' \<Longrightarrow> up_allowed F up \<Longrightarrow> cache_allowed F cache \<Longrightarrow>
    (case oper of CreateOp \<Rightarrow> Cluster_Create (cluster_at w p) s up cache | UpdateOp \<Rightarrow> Cluster_Update (cluster_at w p) s up cache)
      = (c, check, evs) \<Longrightarrow>
    mgr_step F w (mgr_modify (w\<lparr>threads := ts @ Sending p evs # ts', checkers := checkers w @ (if check then [p] else [])\<rparr>) p (\<lambda>_. c))"
| destroyed: "threads w = ts @ Destroying p # ts' \<Longrightarrow>
    mgr_step F w (w\<lparr>threads := ts @ Sending p (Cluster_Destroy zero err) # ts'\<rparr>)"
| sent: "threads w = ts @ Sending p ((event, s, msg) # evs) # ts' \<Longrightarrow> \<not> c_eventMu (cluster_at w p) \<Longrightarrow>
    cluster_next (c_current (cluster_at w p)) event = Some status \<Longrightarrow>
    mgr_step F w (mgr_modify (w\<lparr>threads := ts @ Calling p event s msg evs # ts'\<rparr>) p (\<lambda>c. c\<lparr>c_current := status, c_eventMu := True\<rparr>))"
| refused: "threads w = ts @ Sending p ((event, s, msg) # evs) # ts' \<Longrightarrow> \<not> c_eventMu (cluster_at w p) \<Longrightarrow>
    cluster_next (c_current (cluster_at w p)) event = None \<Longrightarrow>
    mgr_step F w (w\<lparr>threads := ts @ Sending p evs # ts'\<rparr>)"
| ended: "threads w = ts @ Sending p [] # ts' \<Longrightarrow> mgr_step F w (w\<lparr>threads := ts @ ts'\<rparr>)"
| called: "threads w = ts @ Calling p event s msg evs # ts' \<Longrightarrow> event \<noteq> DeleteCompletedEvent \<Longrightarrow>
    mgr_step F w (mgr_modify (run_callback p event (c_current (cluster_at w p)) (s, msg) (w\<lparr>threads := ts @ Sending p evs # ts'\<rparr>)) p
      (\<lambda>c. c\<lparr>c_eventMu := False\<rparr>))"
| removed: "threads w = ts @ Calling p DeleteCompletedEvent s msg [] # ts' \<Longrightarrow> \<not> mgr_lock w \<Longrightarrow>
    mgr_step F w (delete_remove p msg (w\<lparr>threads := ts @ Removed p # ts'\<rparr>))"
| deleted: "threads w = ts @ Removed p # ts' \<Longrightarrow>
    mgr_step F w (mgr_modify (delete_record p (w\<lparr>threads := ts @ ts'\<rparr>)) p (\<lambda>c. c\<lparr>c_eventMu := False\<rparr>))"
| checked: "p \<in> set (checkers w) \<Longrightarrow> \<not> c_eventMu (cluster_at w p) \<Longrightarrow> event = connectionCheckEvent failed \<Longrightarrow>
    cluster_next (c_current (cluster_at w p)) event = Some status \<Longrightarrow>
    mgr_step F w (mgr_modify w p (\<lambda>c. c\<lparr>c_current := status\<rparr>))"
| check_ends: "p \<in> set (checkers w) \<Longrightarrow> c_stopCh (cluster_at w p) = ClosedCh \<Longrightarrow>
    mgr_step F w (w\<lparr>checkers := remove1 p (checkers w)\<rparr>)"
| db_fails: "DbDown \<in> F \<Longrightarrow> mgr_step F w (w\<lparr>dbUp := False\<rparr>)"
| db_back: "mgr_step F w (w\<lparr>dbUp := True\<rparr>)"

definition empty_manager :: "string \<Rightarrow> (string \<times> ('c, 'f) clusterState) list \<Rightarrow> ('c, 'f) ZKEManager" where
  "empty_manager version records =
     \<lparr>heap = [], clusters = [], dbTable = map_of records, dbUp = True, mgr_lock = False, mgr_scVersion = version,
      bus = [], alarms = [], checkers = [], threads = []\<rparr>"

inductive mgr_reachable :: "fault set \<Rightarrow> ('c, 'f) ZKEManager \<Rightarrow> bool" for F where
  start: "distinct (map fst records) \<Longrightarrow> mgr_reachable F (loadDB initOk records (empty_manager version records))"
| step: "mgr_reachable F w \<Longrightarrow> mgr_step F w w' \<Longrightarrow> mgr_reachable F w'"

end
