(* ===== verification/Cluster_Invariant.thy ===== *)
theory Cluster_Invariant
  imports Cluster_Manager
begin

text \<open>
  Lemmas on \<open>Cluster_Manager\<close>: the table of the machine, what each operation leaves unchanged, that names of clusters stay
  distinct under every fault, and the invariant of the interleavings: a cluster has at most one worker, and its status and
  mutex are those that worker expects. The properties are in \<open>Cluster_Properties\<close>.
\<close>

section \<open>The table of the machine\<close>

lemmas status_defs = CSRunning_def CSUnreachable_def CSCreating_def CSCreateFailed_def CSUpdating_def CSDeleting_def CSDeleted_def

lemmas event_defs = CreateSucceedEvent_def CreateFailedEvent_def CreateCanceledEvent_def ContinuteCreateEvent_def UpdateEvent_def
  UpdateCompletedEvent_def UpdateCanceledEvent_def GetInfoFailedEvent_def GetInfoSucceedEvent_def DeleteEvent_def DeleteCompletedEvent_def

lemma status_neq [simp]:
    "CSRunning \<noteq> CSUnreachable" "CSRunning \<noteq> CSCreating" "CSRunning \<noteq> CSCreateFailed" "CSRunning \<noteq> CSUpdating" "CSRunning \<noteq> CSDeleting" "CSRunning \<noteq> CSDeleted"
    "CSUnreachable \<noteq> CSRunning" "CSUnreachable \<noteq> CSCreating" "CSUnreachable \<noteq> CSCreateFailed" "CSUnreachable \<noteq> CSUpdating" "CSUnreachable \<noteq> CSDeleting" "CSUnreachable \<noteq> CSDeleted"
    "CSCreating \<noteq> CSRunning" "CSCreating \<noteq> CSUnreachable" "CSCreating \<noteq> CSCreateFailed" "CSCreating \<noteq> CSUpdating" "CSCreating \<noteq> CSDeleting" "CSCreating \<noteq> CSDeleted"
    "CSCreateFailed \<noteq> CSRunning" "CSCreateFailed \<noteq> CSUnreachable" "CSCreateFailed \<noteq> CSCreating" "CSCreateFailed \<noteq> CSUpdating" "CSCreateFailed \<noteq> CSDeleting" "CSCreateFailed \<noteq> CSDeleted"
    "CSUpdating \<noteq> CSRunning" "CSUpdating \<noteq> CSUnreachable" "CSUpdating \<noteq> CSCreating" "CSUpdating \<noteq> CSCreateFailed" "CSUpdating \<noteq> CSDeleting" "CSUpdating \<noteq> CSDeleted"
    "CSDeleting \<noteq> CSRunning" "CSDeleting \<noteq> CSUnreachable" "CSDeleting \<noteq> CSCreating" "CSDeleting \<noteq> CSCreateFailed" "CSDeleting \<noteq> CSUpdating" "CSDeleting \<noteq> CSDeleted"
    "CSDeleted \<noteq> CSRunning" "CSDeleted \<noteq> CSUnreachable" "CSDeleted \<noteq> CSCreating" "CSDeleted \<noteq> CSCreateFailed" "CSDeleted \<noteq> CSUpdating" "CSDeleted \<noteq> CSDeleting"
  by (simp_all add: status_defs)

lemma event_neq [simp]:
    "CreateSucceedEvent \<noteq> CreateFailedEvent" "CreateSucceedEvent \<noteq> CreateCanceledEvent" "CreateSucceedEvent \<noteq> ContinuteCreateEvent" "CreateSucceedEvent \<noteq> UpdateEvent" "CreateSucceedEvent \<noteq> UpdateCompletedEvent" "CreateSucceedEvent \<noteq> UpdateCanceledEvent" "CreateSucceedEvent \<noteq> GetInfoFailedEvent" "CreateSucceedEvent \<noteq> GetInfoSucceedEvent" "CreateSucceedEvent \<noteq> DeleteEvent" "CreateSucceedEvent \<noteq> DeleteCompletedEvent"
    "CreateFailedEvent \<noteq> CreateSucceedEvent" "CreateFailedEvent \<noteq> CreateCanceledEvent" "CreateFailedEvent \<noteq> ContinuteCreateEvent" "CreateFailedEvent \<noteq> UpdateEvent" "CreateFailedEvent \<noteq> UpdateCompletedEvent" "CreateFailedEvent \<noteq> UpdateCanceledEvent" "CreateFailedEvent \<noteq> GetInfoFailedEvent" "CreateFailedEvent \<noteq> GetInfoSucceedEvent" "CreateFailedEvent \<noteq> DeleteEvent" "CreateFailedEvent \<noteq> DeleteCompletedEvent"
    "CreateCanceledEvent \<noteq> CreateSucceedEvent" "CreateCanceledEvent \<noteq> CreateFailedEvent" "CreateCanceledEvent \<noteq> ContinuteCreateEvent" "CreateCanceledEvent \<noteq> UpdateEvent" "CreateCanceledEvent \<noteq> UpdateCompletedEvent" "CreateCanceledEvent \<noteq> UpdateCanceledEvent" "CreateCanceledEvent \<noteq> GetInfoFailedEvent" "CreateCanceledEvent \<noteq> GetInfoSucceedEvent" "CreateCanceledEvent \<noteq> DeleteEvent" "CreateCanceledEvent \<noteq> DeleteCompletedEvent"
    "ContinuteCreateEvent \<noteq> CreateSucceedEvent" "ContinuteCreateEvent \<noteq> CreateFailedEvent" "ContinuteCreateEvent \<noteq> CreateCanceledEvent" "ContinuteCreateEvent \<noteq> UpdateEvent" "ContinuteCreateEvent \<noteq> UpdateCompletedEvent" "ContinuteCreateEvent \<noteq> UpdateCanceledEvent" "ContinuteCreateEvent \<noteq> GetInfoFailedEvent" "ContinuteCreateEvent \<noteq> GetInfoSucceedEvent" "ContinuteCreateEvent \<noteq> DeleteEvent" "ContinuteCreateEvent \<noteq> DeleteCompletedEvent"
    "UpdateEvent \<noteq> CreateSucceedEvent" "UpdateEvent \<noteq> CreateFailedEvent" "UpdateEvent \<noteq> CreateCanceledEvent" "UpdateEvent \<noteq> ContinuteCreateEvent" "UpdateEvent \<noteq> UpdateCompletedEvent" "UpdateEvent \<noteq> UpdateCanceledEvent" "UpdateEvent \<noteq> GetInfoFailedEvent" "UpdateEvent \<noteq> GetInfoSucceedEvent" "UpdateEvent \<noteq> DeleteEvent" "UpdateEvent \<noteq> DeleteCompletedEvent"
    "UpdateCompletedEvent \<noteq> CreateSucceedEvent" "UpdateCompletedEvent \<noteq> CreateFailedEvent" "UpdateCompletedEvent \<noteq> CreateCanceledEvent" "UpdateCompletedEvent \<noteq> ContinuteCreateEvent" "UpdateCompletedEvent \<noteq> UpdateEvent" "UpdateCompletedEvent \<noteq> UpdateCanceledEvent" "UpdateCompletedEvent \<noteq> GetInfoFailedEvent" "UpdateCompletedEvent \<noteq> GetInfoSucceedEvent" "UpdateCompletedEvent \<noteq> DeleteEvent" "UpdateCompletedEvent \<noteq> DeleteCompletedEvent"
    "UpdateCanceledEvent \<noteq> CreateSucceedEvent" "UpdateCanceledEvent \<noteq> CreateFailedEvent" "UpdateCanceledEvent \<noteq> CreateCanceledEvent" "UpdateCanceledEvent \<noteq> ContinuteCreateEvent" "UpdateCanceledEvent \<noteq> UpdateEvent" "UpdateCanceledEvent \<noteq> UpdateCompletedEvent" "UpdateCanceledEvent \<noteq> GetInfoFailedEvent" "UpdateCanceledEvent \<noteq> GetInfoSucceedEvent" "UpdateCanceledEvent \<noteq> DeleteEvent" "UpdateCanceledEvent \<noteq> DeleteCompletedEvent"
    "GetInfoFailedEvent \<noteq> CreateSucceedEvent" "GetInfoFailedEvent \<noteq> CreateFailedEvent" "GetInfoFailedEvent \<noteq> CreateCanceledEvent" "GetInfoFailedEvent \<noteq> ContinuteCreateEvent" "GetInfoFailedEvent \<noteq> UpdateEvent" "GetInfoFailedEvent \<noteq> UpdateCompletedEvent" "GetInfoFailedEvent \<noteq> UpdateCanceledEvent" "GetInfoFailedEvent \<noteq> GetInfoSucceedEvent" "GetInfoFailedEvent \<noteq> DeleteEvent" "GetInfoFailedEvent \<noteq> DeleteCompletedEvent"
    "GetInfoSucceedEvent \<noteq> CreateSucceedEvent" "GetInfoSucceedEvent \<noteq> CreateFailedEvent" "GetInfoSucceedEvent \<noteq> CreateCanceledEvent" "GetInfoSucceedEvent \<noteq> ContinuteCreateEvent" "GetInfoSucceedEvent \<noteq> UpdateEvent" "GetInfoSucceedEvent \<noteq> UpdateCompletedEvent" "GetInfoSucceedEvent \<noteq> UpdateCanceledEvent" "GetInfoSucceedEvent \<noteq> GetInfoFailedEvent" "GetInfoSucceedEvent \<noteq> DeleteEvent" "GetInfoSucceedEvent \<noteq> DeleteCompletedEvent"
    "DeleteEvent \<noteq> CreateSucceedEvent" "DeleteEvent \<noteq> CreateFailedEvent" "DeleteEvent \<noteq> CreateCanceledEvent" "DeleteEvent \<noteq> ContinuteCreateEvent" "DeleteEvent \<noteq> UpdateEvent" "DeleteEvent \<noteq> UpdateCompletedEvent" "DeleteEvent \<noteq> UpdateCanceledEvent" "DeleteEvent \<noteq> GetInfoFailedEvent" "DeleteEvent \<noteq> GetInfoSucceedEvent" "DeleteEvent \<noteq> DeleteCompletedEvent"
    "DeleteCompletedEvent \<noteq> CreateSucceedEvent" "DeleteCompletedEvent \<noteq> CreateFailedEvent" "DeleteCompletedEvent \<noteq> CreateCanceledEvent" "DeleteCompletedEvent \<noteq> ContinuteCreateEvent" "DeleteCompletedEvent \<noteq> UpdateEvent" "DeleteCompletedEvent \<noteq> UpdateCompletedEvent" "DeleteCompletedEvent \<noteq> UpdateCanceledEvent" "DeleteCompletedEvent \<noteq> GetInfoFailedEvent" "DeleteCompletedEvent \<noteq> GetInfoSucceedEvent" "DeleteCompletedEvent \<noteq> DeleteEvent"
  by (simp_all add: event_defs)

lemma cluster_next_eq: "cluster_next status event = event_dst cluster_events event status"
  unfolding cluster_next_def newClusterFsm_def by (rule NewFSM_transitions)

lemma cluster_next_simps [simp]:
  "cluster_next CSCreating CreateSucceedEvent = Some CSRunning"
  "cluster_next CSCreating CreateFailedEvent = Some CSCreateFailed"
  "cluster_next CSCreating CreateCanceledEvent = Some CSCreateFailed"
  "cluster_next CSUpdating UpdateCompletedEvent = Some CSRunning"
  "cluster_next CSUpdating UpdateCanceledEvent = Some CSRunning"
  "cluster_next CSDeleting DeleteCompletedEvent = Some CSDeleted"
  "cluster_next s ContinuteCreateEvent = (if s = CSCreateFailed then Some CSCreating else None)"
  "cluster_next s UpdateEvent = (if s = CSRunning then Some CSUpdating else None)"
  "cluster_next s GetInfoFailedEvent = (if s = CSRunning then Some CSUnreachable else None)"
  "cluster_next s GetInfoSucceedEvent = (if s = CSUnreachable then Some CSRunning else None)"
  "cluster_next s DeleteEvent = (if s \<in> {CSRunning, CSCreateFailed, CSUnreachable} then Some CSDeleting else None)"
  by (auto simp: cluster_next_eq event_dst_def cluster_events_def)

lemma cluster_next_Some:
  assumes "cluster_next s ev = Some d"
  shows "s = CSCreating \<and> ev = CreateSucceedEvent \<and> d = CSRunning \<or> s = CSCreating \<and> ev \<in> {CreateFailedEvent, CreateCanceledEvent} \<and> d = CSCreateFailed \<or>
    s = CSCreateFailed \<and> ev = ContinuteCreateEvent \<and> d = CSCreating \<or> s = CSRunning \<and> ev = UpdateEvent \<and> d = CSUpdating \<or>
    s = CSUpdating \<and> ev \<in> {UpdateCompletedEvent, UpdateCanceledEvent} \<and> d = CSRunning \<or> s = CSRunning \<and> ev = GetInfoFailedEvent \<and> d = CSUnreachable \<or>
    s = CSUnreachable \<and> ev = GetInfoSucceedEvent \<and> d = CSRunning \<or>
    s \<in> {CSRunning, CSCreateFailed, CSUnreachable} \<and> ev = DeleteEvent \<and> d = CSDeleting \<or> s = CSDeleting \<and> ev = DeleteCompletedEvent \<and> d = CSDeleted"
  using assms by (auto simp: cluster_next_eq event_dst_def cluster_events_def split: if_splits)

section \<open>What an operation leaves unchanged\<close>

lemma mgr_modify_simps [simp]:
  "heap (mgr_modify w p g) = (heap w)[p := g (heap w ! p)]"
  "clusters (mgr_modify w p g) = clusters w" "dbTable (mgr_modify w p g) = dbTable w" "dbUp (mgr_modify w p g) = dbUp w"
  "mgr_lock (mgr_modify w p g) = mgr_lock w" "checkers (mgr_modify w p g) = checkers w" "threads (mgr_modify w p g) = threads w"
  "mgr_scVersion (mgr_modify w p g) = mgr_scVersion w"
  by (simp_all add: mgr_modify_def)

lemma spawn_simps [simp]:
  "heap (spawn t w) = heap w" "clusters (spawn t w) = clusters w" "dbTable (spawn t w) = dbTable w" "dbUp (spawn t w) = dbUp w"
  "mgr_lock (spawn t w) = mgr_lock w" "checkers (spawn t w) = checkers w" "threads (spawn t w) = threads w @ [t]"
  by (simp_all add: spawn_def)

lemma mgr_add_simps [simp]:
  "heap (mgr_add w c) = heap w @ [c]" "clusters (mgr_add w c) = clusters w @ [length (heap w)]" "dbTable (mgr_add w c) = dbTable w"
  "dbUp (mgr_add w c) = dbUp w" "mgr_lock (mgr_add w c) = mgr_lock w" "checkers (mgr_add w c) = checkers w" "threads (mgr_add w c) = threads w"
  by (simp_all add: mgr_add_def)

lemma mgr_Remove_simps [simp]:
  "heap (mgr_Remove w p) = heap w" "dbTable (mgr_Remove w p) = dbTable w" "dbUp (mgr_Remove w p) = dbUp w"
  "mgr_lock (mgr_Remove w p) = mgr_lock w" "checkers (mgr_Remove w p) = checkers w" "threads (mgr_Remove w p) = threads w"
  by (simp_all add: mgr_Remove_def)

lemma publish_alarm_simps [simp]:
  "heap (publish_alarm p r m w) = heap w" "clusters (publish_alarm p r m w) = clusters w" "dbTable (publish_alarm p r m w) = dbTable w"
  "dbUp (publish_alarm p r m w) = dbUp w" "mgr_lock (publish_alarm p r m w) = mgr_lock w" "checkers (publish_alarm p r m w) = checkers w"
  "threads (publish_alarm p r m w) = threads w"
  by (simp_all add: publish_alarm_def)

lemma write_state_simps [simp]:
  "heap (write_state p s w) = heap w" "clusters (write_state p s w) = clusters w"
  "dbUp (write_state p s w) = dbUp w" "mgr_lock (write_state p s w) = mgr_lock w" "checkers (write_state p s w) = checkers w"
  "threads (write_state p s w) = threads w"
  by (simp_all add: write_state_def or_log_def createOrUpdateClusterFromDB_def)

lemma delete_record_simps [simp]:
  "heap (delete_record p w) = heap w" "clusters (delete_record p w) = clusters w"
  "dbUp (delete_record p w) = dbUp w" "mgr_lock (delete_record p w) = mgr_lock w" "checkers (delete_record p w) = checkers w"
  "threads (delete_record p w) = threads w"
  by (simp_all add: delete_record_def or_log_def deleteClusterFromDB_def)

lemmas report_defs = on_CreateSucceed_def on_CreateFailed_def on_CreateCanceled_def on_UpdateCompleted_def on_UpdateCanceled_def

lemma run_callback_simps [simp]:
  assumes "event \<noteq> DeleteCompletedEvent"
  shows "clusters (run_callback p event dst a w) = clusters w" "dbUp (run_callback p event dst a w) = dbUp w"
    "mgr_lock (run_callback p event dst a w) = mgr_lock w" "checkers (run_callback p event dst a w) = checkers w"
    "threads (run_callback p event dst a w) = threads w"
  using assms by (simp_all add: run_callback_def report_defs Let_def)

lemma run_callback_heap:
  assumes "event \<noteq> DeleteCompletedEvent"
  shows "heap (run_callback p event dst a w) =
    (if event \<in> {CreateCanceledEvent, UpdateCanceledEvent} then (heap w)[p := (heap w ! p)\<lparr>c_isCanceled := False\<rparr>] else heap w)"
  using assms by (simp add: run_callback_def report_defs Let_def)

lemma find_mem: "find P xs = Some x \<Longrightarrow> x \<in> set xs \<and> P x"
  by (induction xs) (auto split: if_splits)

lemma remove_first_subset: "set (remove_first P xs) \<subseteq> set xs"
  by (induction xs) auto

lemma mgr_get_Some: "mgr_get w name = Some p \<Longrightarrow> p \<in> set (clusters w) \<and> c_Name (cluster_at w p) = name"
  unfolding mgr_get_def by (drule find_mem)

lemma mgr_get_None: "mgr_get w name = None \<longleftrightarrow> (\<forall>p \<in> set (clusters w). c_Name (cluster_at w p) \<noteq> name)"
  unfolding mgr_get_def by (auto simp: find_None_iff)

section \<open>Names of clusters\<close>

definition names_ok :: "('c, 'f) ZKEManager \<Rightarrow> bool" where
  "names_ok w \<longleftrightarrow> set (clusters w) \<subseteq> {..<length (heap w)} \<and> distinct (map (\<lambda>p. c_Name (cluster_at w p)) (clusters w))"

lemma names_ok_frame:
  assumes "names_ok w" "clusters w' = clusters w" "map c_Name (heap w') = map c_Name (heap w)"
  shows "names_ok w'"
proof -
  have "length (heap w') = length (heap w)" using assms(3) by (metis length_map)
  moreover have "c_Name (heap w' ! p) = c_Name (heap w ! p)" if "p < length (heap w)" for p
    using assms(3) that \<open>length (heap w') = length (heap w)\<close> by (metis nth_map)
  ultimately show ?thesis
    using assms(1, 2) unfolding names_ok_def cluster_at_def
    by (metis (mono_tags, lifting) lessThan_iff map_eq_conv subset_iff)
qed

lemma names_ok_add: "names_ok w \<Longrightarrow> mgr_get w (c_Name c) = None \<Longrightarrow> names_ok (mgr_add w c)"
  unfolding names_ok_def mgr_get_None cluster_at_def by (fastforce simp: nth_append distinct_map inj_on_def subset_iff)

lemma distinct_map_remove_first: "distinct (map f xs) \<Longrightarrow> distinct (map f (remove_first P xs))"
  using remove_first_subset [of P] by (induction xs) (auto simp: image_iff subset_iff)

lemma names_ok_Remove: "names_ok w \<Longrightarrow> names_ok (mgr_Remove w p)"
  using remove_first_subset [of _ "clusters w"] by (auto simp: names_ok_def mgr_Remove_def cluster_at_def intro!: distinct_map_remove_first)

lemma map_c_Name_update: "c_Name c = c_Name (h ! p) \<Longrightarrow> map c_Name (h[p := c]) = map c_Name h"
  by (metis (no_types, lifting) list_update_beyond list_update_id map_update not_le)

lemma mgr_modify_comp: "mgr_modify (mgr_modify w p f) p g = mgr_modify w p (\<lambda>c. g (f c))"
  by (cases "p < length (heap w)") (simp_all add: mgr_modify_def not_less list_update_beyond)

lemma mgr_modify_bus: "mgr_modify (w\<lparr>bus := b\<rparr>) p g = (mgr_modify w p g)\<lparr>bus := b\<rparr>"
  by (simp add: mgr_modify_def)

lemma ZKE_Create_cases:
  "fst (ZKE_Create name config valid f now w) = w \<or>
   mgr_get w name = None \<and> (\<exists>s tab. \<not> cs_Created s \<and> fst (ZKE_Create name config valid f now w) =
     spawn (Installing CreateOp (length (heap w)) s) (mgr_add (w\<lparr>dbTable := tab\<rparr>) (newCluster name CSCreating config now (mgr_scVersion w))))"
proof (cases "mgr_get w name = None \<and> valid \<and> dbUp w")
  case True
  define s where "s = \<lparr>cs_FullState = f, cs_ZKEConfig = config, cs_CreateTime = now, cs_DeleteTime = 0, cs_Created = False, cs_ScVersion = mgr_scVersion w\<rparr>"
  have "\<not> cs_Created s" "fst (ZKE_Create name config valid f now w) = spawn (Installing CreateOp (length (heap w)) s)
      (mgr_add (w\<lparr>dbTable := (dbTable w)(name := Some s)\<rparr>) (newCluster name CSCreating config now (mgr_scVersion w)))"
    using True by (simp_all add: ZKE_Create_def createOrUpdateClusterFromDB_def s_def Let_def)
  then show ?thesis using True by blast
qed (auto simp: ZKE_Create_def createOrUpdateClusterFromDB_def Let_def)

lemma update_prepare_cases:
  assumes "update_prepare name g valid up w = (w', r)"
  obtains (same) e where "w' = w" "r = Inl e"
    | (failed) p k where "w' = (mgr_modify w p (\<lambda>c. c\<lparr>c_config := k\<rparr>))\<lparr>dbUp := up\<rparr>" "r = Inl ServerError"
    | (prepared) p k s tab where "p \<in> set (clusters w)" "w' = (mgr_modify w p (\<lambda>c. c\<lparr>c_config := k\<rparr>))\<lparr>dbUp := up, dbTable := tab\<rparr>" "r = Inr (p, s)"
proof (cases "mgr_get w name")
  case None
  then show ?thesis using assms same by (auto simp: update_prepare_def)
next
  case (Some p)
  show ?thesis
  proof (cases "valid \<and> getClusterFromDB name w \<noteq> None")
    case False
    then show ?thesis using assms same Some by (cases valid) (auto simp: update_prepare_def Let_def)
  next
    case True
    then obtain s where s: "getClusterFromDB name w = Some s" by blast
    let ?k = "g (c_config (cluster_at w p))" and ?t = "(dbTable w)(name := Some (s\<lparr>cs_ZKEConfig := g (c_config (cluster_at w p))\<rparr>))"
    show ?thesis
    proof (cases "cs_Created s \<and> \<not> Cluster_Can w p UpdateEvent")
      case True
      then show ?thesis using assms same Some s \<open>valid \<and> _\<close> by (auto simp: update_prepare_def Let_def)
    next
      case False
      show ?thesis
        using assms False Some s \<open>valid \<and> _\<close> failed [where p = p and k = ?k] prepared [where p = p and k = ?k and tab = ?t and s = "s\<lparr>cs_ZKEConfig := ?k\<rparr>"] mgr_get_Some [OF Some]
        by (cases up) (auto simp: update_prepare_def Let_def createOrUpdateClusterFromDB_def split: if_splits)
    qed
  qed
qed

lemma update_event_cases:
  "fst (update_event p s w) = w \<or>
   (\<exists>status. cluster_next (c_current (cluster_at w p)) (if cs_Created s then UpdateEvent else ContinuteCreateEvent) = Some status \<and>
      fst (update_event p s w) = spawn (Installing UpdateOp p s) (mgr_modify w p (\<lambda>c. c\<lparr>c_current := status\<rparr>)))"
  by (cases "cluster_next (c_current (cluster_at w p)) (if cs_Created s then UpdateEvent else ContinuteCreateEvent)")
    (simp_all add: update_event_def Let_def)

definition deleting_update :: "bool \<Rightarrow> nat \<Rightarrow> 'c Cluster \<Rightarrow> 'c Cluster" where
  "deleting_update created now c =
     (if created then c\<lparr>c_current := CSDeleting, c_stopCh := ClosedCh, c_deleteTime := now\<rparr> else c\<lparr>c_current := CSDeleting, c_deleteTime := now\<rparr>)"

lemma ZKE_Delete_cases:
  assumes "ZKE_Delete name now up w = Some (w', res)"
  obtains (same) "w' = w"
    | (deleting) p created where "p \<in> set (clusters w)" "c_current (cluster_at w p) \<in> {CSRunning, CSCreateFailed, CSUnreachable}"
        "\<not> c_eventMu (cluster_at w p)"
        "heap w' = (heap w)[p := deleting_update created now (heap w ! p)]" "clusters w' = clusters w" "checkers w' = checkers w"
        "threads w' = (if up then threads w @ [Destroying p] else threads w)" "mgr_lock w' = mgr_lock w" "dbUp w' = up"
proof (cases "mgr_get w name")
  case None
  then show ?thesis using assms same by (simp add: ZKE_Delete_def)
next
  case (Some p)
  show ?thesis
  proof (cases "Cluster_Can w p DeleteEvent")
    case False
    then show ?thesis using assms same Some by (simp add: ZKE_Delete_def)
  next
    case True
    then have can: "c_current (cluster_at w p) \<in> {CSRunning, CSCreateFailed, CSUnreachable}" "\<not> c_eventMu (cluster_at w p)"
      by (simp_all add: Cluster_Can_def split: if_splits)
    show ?thesis
    proof (cases "getClusterFromDB (c_Name (cluster_at w p)) w")
      case None
      then show ?thesis using assms same Some True by (simp add: ZKE_Delete_def)
    next
      case db: (Some s)
      have dst: "cluster_next (c_current (cluster_at w p)) DeleteEvent = Some CSDeleting" using can by simp
      show ?thesis
        using assms Some True can db mgr_get_Some [OF Some] deleting [where p = p and created = "cs_Created s"]
        by (cases "cs_Created s"; cases up)
          (auto simp: ZKE_Delete_def dst mgr_modify_comp mgr_modify_bus createOrUpdateClusterFromDB_def Let_def deleting_update_def split: if_splits)
    qed
  qed
qed

lemma names_ok_spawn [simp]: "names_ok (spawn t w) = names_ok w"
  by (simp add: names_ok_def spawn_def cluster_at_def)

lemma run_callback_names: "event \<noteq> DeleteCompletedEvent \<Longrightarrow> map c_Name (heap (run_callback p event dst a w)) = map c_Name (heap w)"
  by (simp add: run_callback_heap map_c_Name_update)

lemma setCache_name: "setCache res c = (c', e) \<Longrightarrow> c_Name c' = c_Name c \<and> c_current c' = c_current c \<and> c_eventMu c' = c_eventMu c"
  by (auto simp: setCache_def split: cache_result.splits)

lemma Cluster_Create_frame:
  "Cluster_Create c s up cache = (c', chk, evs) \<Longrightarrow> c_Name c' = c_Name c \<and> c_current c' = c_current c \<and> c_eventMu c' = c_eventMu c"
  by (auto simp: Cluster_Create_def Let_def dest: setCache_name split: up_result.splits if_splits prod.splits option.splits)

lemma Cluster_Update_frame:
  "Cluster_Update c s up cache = (c', chk, evs) \<Longrightarrow> c_Name c' = c_Name c \<and> c_current c' = c_current c \<and> c_eventMu c' = c_eventMu c"
  by (auto simp: Cluster_Update_def Let_def dest: setCache_name split: up_result.splits if_splits prod.splits)

lemma deleting_update_simps [simp]:
  "c_Name (deleting_update b now c) = c_Name c" "c_current (deleting_update b now c) = CSDeleting" "c_eventMu (deleting_update b now c) = c_eventMu c"
  by (simp_all add: deleting_update_def)

lemma names_ok_step:
  assumes "mgr_step F w w'" "names_ok w"
  shows "names_ok w'"
  using assms
proof cases
  case (create name config valid f now)
  show ?thesis
    using ZKE_Create_cases [of name config valid f now w] assms(2) create
    by (elim disjE conjE exE) (auto intro!: names_ok_add simp: newCluster_def mgr_get_def cluster_at_def elim: names_ok_frame)
next
  case (update_fails up name g valid err)
  from update_fails(3) show ?thesis
    by (cases rule: update_prepare_cases) (auto simp: assms(2) intro!: names_ok_frame [OF assms(2)] map_c_Name_update)
next
  case (update up name g valid w1 p s)
  from update(4) show ?thesis
    by (cases rule: update_prepare_cases) (auto simp: update intro!: names_ok_frame [OF assms(2)] map_c_Name_update)
next
  case (requested ts p s ts')
  then show ?thesis
    using update_event_cases [of p s "w\<lparr>threads := ts @ ts', mgr_lock := False\<rparr>"]
    by (elim disjE conjE exE) (auto intro!: names_ok_frame [OF assms(2)] map_c_Name_update)
next
  case (delete up name now res)
  from delete(3) show ?thesis
    by (cases rule: ZKE_Delete_cases) (auto intro!: names_ok_frame [OF assms(2)] map_c_Name_update simp: assms(2))
next
  case (cancel name)
  then show ?thesis
    by (auto intro!: names_ok_frame [OF assms(2)] map_c_Name_update simp: CancelCluster_def Cluster_Cancel_def cluster_at_def split: option.splits if_splits)
next
  case (installed ts oper p s ts' up cache c check evs)
  then show ?thesis
    by (cases oper) (auto intro!: names_ok_frame [OF assms(2)] map_c_Name_update simp: cluster_at_def dest!: Cluster_Create_frame Cluster_Update_frame)
next
  case (called ts p event s msg evs ts')
  then show ?thesis
    by (auto intro!: names_ok_frame [OF assms(2)] simp: map_c_Name_update run_callback_names)
next
  case (removed ts p s msg ts')
  have "names_ok (publish_alarm p DeleteFailedEvent msg (w\<lparr>threads := ts @ Removed p # ts'\<rparr>))"
    by (rule names_ok_frame [OF assms(2)]) simp_all
  then show ?thesis using removed by (simp add: delete_remove_def names_ok_Remove)
qed (auto intro!: names_ok_frame [OF assms(2)] map_c_Name_update)

lemma names_ok_bus: "names_ok (w\<lparr>checkers := k, bus := b\<rparr>) = names_ok w"
  by (simp add: names_ok_def cluster_at_def)

lemma load_one_get: "mgr_get (load_one initOk kv w) name = (case mgr_get w name of Some p \<Rightarrow> Some p
    | None \<Rightarrow> if fst kv = name \<and> (cs_Created (snd kv) \<longrightarrow> initOk (fst kv)) then Some (length (heap w)) else None)"
  if "names_ok w"
proof -
  have at: "c_Name ((heap w @ [c]) ! p) = c_Name (heap w ! p)" if "p \<in> set (clusters w)" for p c
    using \<open>names_ok w\<close> that by (auto simp: names_ok_def nth_append subset_iff)
  have "find (\<lambda>p. c_Name ((heap w @ [c]) ! p) = name) (clusters w) = find (\<lambda>p. c_Name (heap w ! p) = name) (clusters w)" for c
    by (rule find_cong) (simp_all add: at)
  moreover have "find P (xs @ [y]) = (case find P xs of Some z \<Rightarrow> Some z | None \<Rightarrow> if P y then Some y else None)" for P and xs :: "nat list" and y
    by (induction xs) auto
  ultimately show ?thesis
    by (cases kv) (auto simp: load_one_def mgr_get_def mgr_add_def cluster_at_def newCluster_def setCache_def Let_def split: option.splits)
qed

lemma names_ok_load_one:
  assumes "names_ok w" "mgr_get w (fst kv) = None"
  shows "names_ok (load_one initOk kv w)"
proof -
  have "names_ok (mgr_add w c)" if "c_Name c = fst kv" for c
    using names_ok_add assms that by metis
  then show ?thesis
    using assms(1) by (cases kv) (auto simp: load_one_def Let_def names_ok_bus newCluster_def setCache_def)
qed

lemma names_ok_loadDB:
  assumes "names_ok w" "distinct (map fst records)" "\<forall>k \<in> set (map fst records). mgr_get w k = None"
  shows "names_ok (loadDB initOk records w)"
  using assms
proof (induction records arbitrary: w)
  case (Cons kv records)
  have "names_ok (loadDB initOk records (load_one initOk kv w))"
    by (rule Cons.IH) (use Cons.prems in \<open>auto simp: names_ok_load_one load_one_get\<close>)
  then show ?case by (simp add: loadDB_def)
qed (simp add: loadDB_def)

lemma names_ok_reachable: "mgr_reachable F w \<Longrightarrow> names_ok w"
proof (induction rule: mgr_reachable.induct)
  case (start records initOk version)
  then show ?case by (intro names_ok_loadDB) (simp_all add: empty_manager_def names_ok_def mgr_get_def)
qed (rule names_ok_step)

lemma remove_first_only: "distinct (map f xs) \<Longrightarrow> p \<in> set xs \<Longrightarrow> set (remove_first (\<lambda>q. f q = f p) xs) = set xs - {p}"
  by (induction xs) (auto simp: image_iff)

lemma Remove_only: "names_ok w \<Longrightarrow> p \<in> set (clusters w) \<Longrightarrow> set (clusters (mgr_Remove w p)) = set (clusters w) - {p}"
  unfolding names_ok_def mgr_Remove_def by (simp add: remove_first_only [where f = "\<lambda>p. c_Name (cluster_at w p)"])

section \<open>One worker per cluster\<close>

text \<open>The cluster on which a thread works: a goroutine that has nothing left to send, or a request, is not a worker.\<close>

fun worker :: "('c, 'f) thread \<Rightarrow> nat option" where
  "worker (Installing _ p _) = Some p"
| "worker (Destroying p) = Some p"
| "worker (Sending p evs) = (if evs = [] then None else Some p)"
| "worker (Calling p _ _ _ _) = Some p"
| "worker (Removed p) = Some p"
| "worker (Requesting p _) = None"

definition workers_of :: "('c, 'f) thread list \<Rightarrow> nat \<Rightarrow> ('c, 'f) thread list" where
  "workers_of ts p = filter (\<lambda>t. worker t = Some p) ts"

fun pointer :: "('c, 'f) thread \<Rightarrow> nat" where
  "pointer (Installing _ p _) = p"
| "pointer (Destroying p) = p"
| "pointer (Sending p evs) = p"
| "pointer (Calling p _ _ _ _) = p"
| "pointer (Removed p) = p"
| "pointer (Requesting p _) = p"

fun is_request :: "('c, 'f) thread \<Rightarrow> bool" where
  "is_request (Requesting _ _) = True"
| "is_request _ = False"

definition report_events :: "string list" where
  "report_events = [CreateSucceedEvent, CreateFailedEvent, CreateCanceledEvent, UpdateCompletedEvent, UpdateCanceledEvent, DeleteCompletedEvent]"

text \<open>The status and the mutex of a cluster while a thread works on it.\<close>

fun works :: "('c, 'f) thread \<Rightarrow> string \<Rightarrow> bool \<Rightarrow> bool" where
  "works (Installing CreateOp _ s) status mu \<longleftrightarrow> status = CSCreating \<and> \<not> mu"
| "works (Installing UpdateOp _ s) status mu \<longleftrightarrow> status = (if cs_Created s then CSUpdating else CSCreating) \<and> \<not> mu"
| "works (Destroying _) status mu \<longleftrightarrow> status = CSDeleting \<and> \<not> mu"
| "works (Sending _ evs) status mu \<longleftrightarrow>
     length evs = 1 \<and> fst (hd evs) \<in> set report_events \<and> cluster_next status (fst (hd evs)) \<noteq> None \<and> \<not> mu"
| "works (Calling _ event _ _ evs) status mu \<longleftrightarrow>
     evs = [] \<and> event \<in> set report_events \<and> status \<in> (if event = DeleteCompletedEvent then {CSDeleted} else {CSRunning, CSCreateFailed}) \<and> mu"
| "works (Removed _) status mu \<longleftrightarrow> status = CSDeleted \<and> mu"
| "works (Requesting _ _) _ _ \<longleftrightarrow> False"

fun fits :: "('c, 'f) thread list \<Rightarrow> string \<Rightarrow> bool \<Rightarrow> bool" where
  "fits [] status mu \<longleftrightarrow> status \<in> {CSRunning, CSUnreachable, CSCreateFailed, CSDeleted} \<and> \<not> mu"
| "fits [t] status mu \<longleftrightarrow> works t status mu"
| "fits _ status mu \<longleftrightarrow> False"

definition mgr_inv :: "('c, 'f) ZKEManager \<Rightarrow> bool" where
  "mgr_inv w \<longleftrightarrow>
     (\<forall>p < length (heap w). fits (workers_of (threads w) p) (c_current (cluster_at w p)) (c_eventMu (cluster_at w p))) \<and>
     pointer ` set (threads w) \<union> set (clusters w) \<union> set (checkers w) \<subseteq> {..<length (heap w)} \<and>
     length (filter is_request (threads w)) = (if mgr_lock w then 1 else 0)"

lemma workers_of_append [simp]: "workers_of (ts @ ts') p = workers_of ts p @ workers_of ts' p"
  by (simp add: workers_of_def)

lemma workers_of_simps [simp]:
  "workers_of [] p = []" "workers_of (t # ts) p = (if worker t = Some p then t # workers_of ts p else workers_of ts p)"
  by (simp_all add: workers_of_def)

lemma workers_of_beyond: "pointer ` set ts \<subseteq> {..<n} \<Longrightarrow> workers_of ts n = []"
proof -
  have "pointer t = n" if "worker t = Some n" for t :: "('a, 'b) thread"
    using that by (cases t) (auto split: if_splits)
  then show "pointer ` set ts \<subseteq> {..<n} \<Longrightarrow> ?thesis" by (fastforce simp: workers_of_def filter_empty_conv)
qed

lemma fits_single: "fits (ts @ t # ts') status mu \<Longrightarrow> ts = [] \<and> ts' = [] \<and> works t status mu"
  by (cases "(ts @ t # ts', status, mu)" rule: fits.cases) (auto simp: append_eq_Cons_conv)

lemma fits_rest:
  assumes "fits ts status mu" "status \<in> {CSRunning, CSCreateFailed, CSUnreachable}" "\<not> mu"
  shows "ts = []"
proof (cases ts)
  case (Cons t ts')
  have "works t status mu" using fits_single [of "[]" t ts'] assms(1) Cons by simp
  then show ?thesis
    using assms(2, 3) by (cases "(t, status, mu)" rule: works.cases) (auto simp: report_events_def cluster_next_eq event_dst_def cluster_events_def split: if_splits)
qed simp

lemma mgr_inv_frame:
  assumes "mgr_inv w" "\<And>q. q < length (heap w') \<Longrightarrow> q \<noteq> p \<Longrightarrow> q < length (heap w) \<and> workers_of (threads w') q = workers_of (threads w) q \<and>
      c_current (heap w' ! q) = c_current (heap w ! q) \<and> c_eventMu (heap w' ! q) = c_eventMu (heap w ! q)"
    "p < length (heap w') \<Longrightarrow> fits (workers_of (threads w') p) (c_current (heap w' ! p)) (c_eventMu (heap w' ! p))"
    "pointer ` set (threads w') \<union> set (clusters w') \<union> set (checkers w') \<subseteq> {..<length (heap w')}"
    "length (filter is_request (threads w')) = (if mgr_lock w' then 1 else 0)"
  shows "mgr_inv w'"
  unfolding mgr_inv_def cluster_at_def
proof (intro conjI allI impI assms(4, 5))
  fix q
  assume q: "q < length (heap w')"
  show "fits (workers_of (threads w') q) (c_current (heap w' ! q)) (c_eventMu (heap w' ! q))"
    using assms(1) assms(2) [OF q] assms(3) q by (cases "q = p") (simp_all add: mgr_inv_def cluster_at_def)
qed

text \<open>A worker takes a step: it goes on as another thread of the same cluster or ends.\<close>

lemma mgr_inv_worker:
  assumes "mgr_inv w" "threads w = ts @ t # ts'" "worker t = Some p" "threads w' = ts @ new @ ts'" "heap w' = (heap w)[p := c]"
    "pointer ` set new \<subseteq> {p}" "filter is_request new = []" "set (clusters w') \<subseteq> set (clusters w)" "set (checkers w') \<subseteq> insert p (set (checkers w))"
    "mgr_lock w' = mgr_lock w" "works t (c_current (heap w ! p)) (c_eventMu (heap w ! p)) \<Longrightarrow> fits (workers_of new p) (c_current c) (c_eventMu c)"
  shows "mgr_inv w'"
proof (rule mgr_inv_frame [OF assms(1), of _ p])
  have wp: "worker x = Some q \<Longrightarrow> q = pointer x" for x :: "('a, 'b) thread" and q by (cases x) (auto split: if_splits)
  have p: "p < length (heap w)" using assms(1, 2, 3) wp by (fastforce simp: mgr_inv_def)
  have req: "\<not> is_request t" using assms(3) by (cases t) auto
  show "q < length (heap w) \<and> workers_of (threads w') q = workers_of (threads w) q \<and> c_current (heap w' ! q) = c_current (heap w ! q) \<and>
      c_eventMu (heap w' ! q) = c_eventMu (heap w ! q)" if "q < length (heap w')" "q \<noteq> p" for q
  proof -
    have "workers_of new q = []" using assms(6) wp that(2) by (fastforce simp: workers_of_def filter_empty_conv)
    then show ?thesis using assms(2, 3, 4, 5) that by simp
  qed
  have "workers_of ts p = [] \<and> workers_of ts' p = [] \<and> works t (c_current (heap w ! p)) (c_eventMu (heap w ! p))"
    using assms(1, 2, 3) p fits_single [of "workers_of ts p" t "workers_of ts' p"] by (auto simp: mgr_inv_def cluster_at_def)
  then show "fits (workers_of (threads w') p) (c_current (heap w' ! p)) (c_eventMu (heap w' ! p))"
    using assms(4, 5, 11) p by simp
  show "pointer ` set (threads w') \<union> set (clusters w') \<union> set (checkers w') \<subseteq> {..<length (heap w')}"
    using assms(1, 2, 4, 5, 6, 8, 9) p by (auto simp: mgr_inv_def)
  show "length (filter is_request (threads w')) = (if mgr_lock w' then 1 else 0)"
    using assms(1, 2, 4, 7, 10) req by (simp add: mgr_inv_def)
qed

text \<open>A request starts a worker of a cluster at rest.\<close>

lemma mgr_inv_start:
  assumes "mgr_inv w" "p < length (heap w)" "c_current (heap w ! p) \<in> {CSRunning, CSCreateFailed, CSUnreachable}" "\<not> c_eventMu (heap w ! p)"
    "workers_of (threads w') p = workers_of (threads w) p @ [t]" "\<And>q. q \<noteq> p \<Longrightarrow> workers_of (threads w') q = workers_of (threads w) q"
    "heap w' = (heap w)[p := c]" "works t (c_current c) (c_eventMu c)"
    "pointer ` set (threads w') \<union> set (clusters w') \<union> set (checkers w') \<subseteq> {..<length (heap w)}"
    "length (filter is_request (threads w')) = (if mgr_lock w' then 1 else 0)"
  shows "mgr_inv w'"
proof (rule mgr_inv_frame [OF assms(1), of _ p])
  have "workers_of (threads w) p = []" using assms(1 - 4) by (auto simp: mgr_inv_def cluster_at_def intro: fits_rest)
  then show "fits (workers_of (threads w') p) (c_current (heap w' ! p)) (c_eventMu (heap w' ! p))"
    using assms(2, 5, 7, 8) by simp
qed (use assms in auto)

lemma Cluster_Create_reports:
  assumes "Cluster_Create c s up cache = (c', chk, evs)"
  shows "length evs = 1 \<and> fst (hd evs) \<in> set report_events \<and> cluster_next CSCreating (fst (hd evs)) \<noteq> None"
  using assms by (auto simp: Cluster_Create_def report_events_def Let_def split: up_result.splits if_splits prod.splits option.splits)

lemma Cluster_Update_reports:
  assumes "Cluster_Update c s up cache = (c', chk, evs)" "up_allowed {} up" "cache_allowed {} cache"
  shows "length evs = 1 \<and> fst (hd evs) \<in> set report_events \<and> cluster_next (if cs_Created s then CSUpdating else CSCreating) (fst (hd evs)) \<noteq> None"
  using assms
  by (auto simp: Cluster_Update_def report_events_def up_allowed_def cache_allowed_def setCache_def Let_def split: up_result.splits if_splits)

lemma report_next:
  assumes "cluster_next status event = Some dst" "event \<in> set report_events"
  shows "dst \<in> (if event = DeleteCompletedEvent then {CSDeleted} else {CSRunning, CSCreateFailed})"
  using cluster_next_Some [OF assms(1)] assms(2) by (auto simp: report_events_def)

lemma mgr_inv_same:
  assumes "mgr_inv w" "threads w' = threads w" "map (\<lambda>c. (c_current c, c_eventMu c)) (heap w') = map (\<lambda>c. (c_current c, c_eventMu c)) (heap w)"
    "clusters w' = clusters w" "set (checkers w') \<subseteq> set (checkers w)" "mgr_lock w' = mgr_lock w"
  shows "mgr_inv w'"
proof -
  have len: "length (heap w') = length (heap w)" using assms(3) by (metis length_map)
  moreover have "c_current (heap w' ! q) = c_current (heap w ! q) \<and> c_eventMu (heap w' ! q) = c_eventMu (heap w ! q)" if "q < length (heap w)" for q
    using arg_cong [OF assms(3), of "\<lambda>xs. xs ! q"] that len by simp
  ultimately show ?thesis using assms(1, 2, 4, 5, 6) by (auto simp: mgr_inv_def cluster_at_def)
qed

lemma map_same_update: "f c = f (h ! p) \<Longrightarrow> map f (h[p := c]) = map f h"
  by (metis (no_types, lifting) list_update_beyond list_update_id map_update not_le)

lemma mgr_inv_create:
  assumes "mgr_inv w"
  shows "mgr_inv (spawn (Installing CreateOp (length (heap w)) s) (mgr_add (w\<lparr>dbTable := tab\<rparr>) (newCluster name CSCreating config now v)))"
proof (rule mgr_inv_frame [OF assms, of _ "length (heap w)"])
  have "workers_of (threads w) (length (heap w)) = []" using assms by (simp add: mgr_inv_def workers_of_beyond)
  then show "fits (workers_of (threads (spawn (Installing CreateOp (length (heap w)) s) (mgr_add (w\<lparr>dbTable := tab\<rparr>)
      (newCluster name CSCreating config now v)))) (length (heap w)))
    (c_current (heap (spawn (Installing CreateOp (length (heap w)) s) (mgr_add (w\<lparr>dbTable := tab\<rparr>) (newCluster name CSCreating config now v))) ! length (heap w)))
    (c_eventMu (heap (spawn (Installing CreateOp (length (heap w)) s) (mgr_add (w\<lparr>dbTable := tab\<rparr>) (newCluster name CSCreating config now v))) ! length (heap w)))"
    by (simp add: newCluster_def)
qed (use assms in \<open>auto simp: mgr_inv_def nth_append\<close>)

lemma mgr_inv_update_event:
  assumes "mgr_inv w" "threads w = ts @ Requesting p s # ts'" "\<not> c_eventMu (cluster_at w p)"
  shows "mgr_inv (fst (update_event p s (w\<lparr>threads := ts @ ts', mgr_lock := False\<rparr>)))"
proof -
  let ?w = "w\<lparr>threads := ts @ ts', mgr_lock := False\<rparr>"
  have lock: "mgr_lock w" and req: "filter is_request ts = []" "filter is_request ts' = []" and p: "p < length (heap w)"
    using assms(1, 2) by (auto simp: mgr_inv_def split: if_splits)
  have base: "mgr_inv ?w"
    by (rule mgr_inv_frame [OF assms(1), of _ p]) (use assms(1, 2) p req in \<open>auto simp: mgr_inv_def cluster_at_def\<close>)
  show ?thesis
    using update_event_cases [of p s ?w]
  proof (elim disjE exE conjE)
    fix status
    assume dst: "cluster_next (c_current (cluster_at ?w p)) (if cs_Created s then UpdateEvent else ContinuteCreateEvent) = Some status"
      and eq: "fst (update_event p s ?w) = spawn (Installing UpdateOp p s) (mgr_modify ?w p (\<lambda>c. c\<lparr>c_current := status\<rparr>))"
    show ?thesis
      unfolding eq
      by (rule mgr_inv_start [OF base, of p _ "Installing UpdateOp p s" "(heap w ! p)\<lparr>c_current := status\<rparr>"])
        (use assms dst p req base in \<open>auto simp: cluster_at_def mgr_inv_def split: if_splits\<close>)
  qed (simp add: base)
qed

lemma mgr_inv_delete:
  assumes "mgr_inv w" "ZKE_Delete name now True w = Some (w', res)"
  shows "mgr_inv w'"
  using assms(2)
proof (cases rule: ZKE_Delete_cases)
  case (deleting p created)
  have p: "p < length (heap w)" using assms(1) deleting(1) by (auto simp: mgr_inv_def)
  show ?thesis
    by (rule mgr_inv_start [OF assms(1) p, of _ "Destroying p" "deleting_update created now (heap w ! p)"])
      (use assms(1) deleting p in \<open>auto simp: cluster_at_def mgr_inv_def\<close>)
qed (simp add: assms(1))

lemma mgr_inv_checked:
  assumes "mgr_inv w" "p \<in> set (checkers w)" "\<not> c_eventMu (cluster_at w p)" "event \<in> {GetInfoFailedEvent, GetInfoSucceedEvent}"
    "cluster_next (c_current (cluster_at w p)) event = Some status"
  shows "mgr_inv (mgr_modify w p (\<lambda>c. c\<lparr>c_current := status\<rparr>))"
proof (rule mgr_inv_frame [OF assms(1), of _ p])
  have st: "c_current (cluster_at w p) \<in> {CSRunning, CSCreateFailed, CSUnreachable}" "status \<in> {CSRunning, CSUnreachable}"
    using assms(4, 5) by (auto split: if_splits)
  have p: "p < length (heap w)" using assms(1, 2) by (auto simp: mgr_inv_def)
  then have "workers_of (threads w) p = []"
    using assms(1) by (intro fits_rest [OF _ st(1) assms(3)]) (simp add: mgr_inv_def)
  then show "fits (workers_of (threads (mgr_modify w p (\<lambda>c. c\<lparr>c_current := status\<rparr>))) p)
      (c_current (heap (mgr_modify w p (\<lambda>c. c\<lparr>c_current := status\<rparr>)) ! p)) (c_eventMu (heap (mgr_modify w p (\<lambda>c. c\<lparr>c_current := status\<rparr>)) ! p))"
    using assms(3) st(2) p by (auto simp: cluster_at_def)
qed (use assms(1) in \<open>auto simp: mgr_inv_def\<close>)

lemma mgr_inv_installed:
  assumes "mgr_inv w" "threads w = ts @ Installing oper p s # ts'" "up_allowed {} up" "cache_allowed {} cache"
    "(case oper of CreateOp \<Rightarrow> Cluster_Create (cluster_at w p) s up cache | UpdateOp \<Rightarrow> Cluster_Update (cluster_at w p) s up cache) = (c, check, evs)"
  shows "mgr_inv (mgr_modify (w\<lparr>threads := ts @ Sending p evs # ts', checkers := checkers w @ (if check then [p] else [])\<rparr>) p (\<lambda>_. c))"
proof (rule mgr_inv_worker [OF assms(1, 2), of p _ "[Sending p evs]" c])
  have frame: "c_current c = c_current (heap w ! p) \<and> c_eventMu c = c_eventMu (heap w ! p)"
    using assms(5) by (cases oper) (auto simp: cluster_at_def dest: Cluster_Create_frame Cluster_Update_frame)
  assume "works (Installing oper p s) (c_current (heap w ! p)) (c_eventMu (heap w ! p))"
  then show "fits (workers_of [Sending p evs] p) (c_current c) (c_eventMu c)"
    using assms(3, 4, 5) frame by (cases oper) (auto dest!: Cluster_Create_reports Cluster_Update_reports)
qed auto

lemma mgr_inv_called:
  assumes "mgr_inv w" "threads w = ts @ Calling p event s msg evs # ts'" "event \<noteq> DeleteCompletedEvent"
  shows "mgr_inv (mgr_modify (run_callback p event (c_current (cluster_at w p)) (s, msg) (w\<lparr>threads := ts @ Sending p evs # ts'\<rparr>)) p
      (\<lambda>c. c\<lparr>c_eventMu := False\<rparr>))"
proof (rule mgr_inv_worker [OF assms(1, 2), of p _ "[Sending p evs]" "(heap w ! p)\<lparr>c_isCanceled := (if event \<in> {CreateCanceledEvent, UpdateCanceledEvent}
    then False else c_isCanceled (heap w ! p)), c_eventMu := False\<rparr>"])
  have "p < length (heap w)" using assms(1, 2) by (auto simp: mgr_inv_def)
  moreover have "c\<lparr>c_isCanceled := c_isCanceled c, c_eventMu := False\<rparr> = c\<lparr>c_eventMu := False\<rparr>" for c :: "'a Cluster" by (cases c) simp
  ultimately show "heap (mgr_modify (run_callback p event (c_current (cluster_at w p)) (s, msg) (w\<lparr>threads := ts @ Sending p evs # ts'\<rparr>)) p
      (\<lambda>c. c\<lparr>c_eventMu := False\<rparr>)) = (heap w)[p := (heap w ! p)\<lparr>c_isCanceled := (if event \<in> {CreateCanceledEvent, UpdateCanceledEvent}
      then False else c_isCanceled (heap w ! p)), c_eventMu := False\<rparr>]"
    using assms(3) by (simp add: run_callback_heap)
qed (use assms in \<open>auto split: if_splits\<close>)

lemma mgr_inv_step:
  assumes "mgr_step {} w w'" "mgr_inv w"
  shows "mgr_inv w'"
  using assms(1)
proof cases
  case (create name config valid f now)
  then show ?thesis using ZKE_Create_cases [of name config valid f now w] assms(2) by (auto simp: mgr_inv_create)
next
  case (update_fails up name g valid err)
  from update_fails(3) show ?thesis
    by (cases rule: update_prepare_cases) (auto simp: assms(2) intro!: mgr_inv_same [OF assms(2)] map_same_update)
next
  case (update up name g valid w1 p s)
  from update(4) show ?thesis
  proof (cases rule: update_prepare_cases)
    case (prepared p' k s' tab)
    have "q < length (heap w) \<Longrightarrow> c_current (heap w1 ! q) = c_current (heap w ! q) \<and> c_eventMu (heap w1 ! q) = c_eventMu (heap w ! q)" for q
      using prepared by (cases "q = p'") simp_all
    then show ?thesis
      by (intro mgr_inv_frame [OF assms(2), of _ p]) (use prepared update assms(2) in \<open>auto simp: mgr_inv_def cluster_at_def\<close>)
  qed simp_all
next
  case (requested ts p s ts')
  then show ?thesis by (simp add: mgr_inv_update_event [OF assms(2)])
next
  case (delete up name now res)
  then show ?thesis using mgr_inv_delete [OF assms(2)] by simp
next
  case (cancel name)
  then show ?thesis
    by (auto intro!: mgr_inv_same [OF assms(2)] map_same_update simp: CancelCluster_def Cluster_Cancel_def cluster_at_def split: option.splits if_splits)
next
  case (installed ts oper p s ts' up cache c check evs)
  show ?thesis unfolding installed(1) by (rule mgr_inv_installed [OF assms(2) installed(2, 3, 4, 5)])
next
  case (destroyed ts p ts' zero err)
  show ?thesis
    by (rule mgr_inv_worker [OF assms(2) destroyed(2), of p _ "[Sending p (Cluster_Destroy zero err)]" "heap w ! p"])
      (auto simp: destroyed(1) Cluster_Destroy_def report_events_def)
next
  case (sent ts p event s msg evs ts' status)
  show ?thesis
    by (rule mgr_inv_worker [OF assms(2) sent(2), of p _ "[Calling p event s msg evs]" "(heap w ! p)\<lparr>c_current := status, c_eventMu := True\<rparr>"])
      (use report_next [OF sent(4)] in \<open>auto simp: sent(1) split: if_splits\<close>)
next
  case (refused ts p event s msg evs ts')
  show ?thesis
    by (rule mgr_inv_worker [OF assms(2) refused(2), of p _ "[Sending p evs]" "heap w ! p"]) (use refused in \<open>auto simp: cluster_at_def\<close>)
next
  case (ended ts p ts')
  then show ?thesis by (intro mgr_inv_frame [OF assms(2), of _ p]) (use assms(2) in \<open>auto simp: mgr_inv_def cluster_at_def\<close>)
next
  case (called ts p event s msg evs ts')
  show ?thesis unfolding called(1) by (rule mgr_inv_called [OF assms(2) called(2, 3)])
next
  case (removed ts p s msg ts')
  show ?thesis
    by (rule mgr_inv_worker [OF assms(2) removed(2), of p _ "[Removed p]" "heap w ! p"])
      (auto simp: removed(1) delete_remove_def mgr_Remove_def dest: subsetD [OF remove_first_subset])
next
  case (deleted ts p ts')
  show ?thesis
    by (rule mgr_inv_worker [OF assms(2) deleted(2), of p _ "[]" "(heap w ! p)\<lparr>c_eventMu := False\<rparr>"]) (auto simp: deleted(1))
next
  case (checked p event failed status)
  have "event \<in> {GetInfoFailedEvent, GetInfoSucceedEvent}" by (simp add: checked(4) connectionCheckEvent_def)
  then show ?thesis unfolding checked(1) by (rule mgr_inv_checked [OF assms(2) checked(2, 3) _ checked(5)])
next
  case (check_ends p)
  then show ?thesis by (auto intro!: mgr_inv_same [OF assms(2)] dest: subsetD [OF set_remove1_subset])
qed (auto intro!: mgr_inv_same [OF assms(2)])

lemma mgr_inv_load_one:
  assumes "mgr_inv w"
  shows "mgr_inv (load_one initOk kv w)"
proof -
  have none: "workers_of (threads w) (length (heap w)) = []" using assms by (simp add: mgr_inv_def workers_of_beyond)
  have "mgr_inv ((mgr_add w c)\<lparr>checkers := k, bus := b\<rparr>)"
    if "c_current c \<in> {CSRunning, CSCreateFailed}" "\<not> c_eventMu c" "set k \<subseteq> insert (length (heap w)) (set (checkers w))" for c k b
    by (rule mgr_inv_frame [OF assms, of _ "length (heap w)"]) (use that none assms in \<open>auto simp: mgr_inv_def nth_append\<close>)
  note add = this this [of _ "checkers w" "bus w", OF _ _ subset_insertI]
  have same: "(mgr_add w c)\<lparr>checkers := checkers w, bus := bus w\<rparr> = mgr_add w c" for c by (simp add: mgr_add_def)
  obtain name v where kv: "kv = (name, v)" by (cases kv)
  show ?thesis
    unfolding kv load_one_def using assms add(2) [unfolded same] by (auto simp: newCluster_def setCache_def Let_def intro!: add(1))
qed

lemma mgr_inv_reachable: "mgr_reachable {} w \<Longrightarrow> mgr_inv w"
proof (induction rule: mgr_reachable.induct)
  case (start records initOk version)
  have "mgr_inv (fold (load_one initOk) records w)" if "mgr_inv w" for w :: "('a, 'b) ZKEManager"
    using that by (induction records arbitrary: w) (auto intro: mgr_inv_load_one)
  then show ?case by (simp add: loadDB_def empty_manager_def mgr_inv_def)
qed (rule mgr_inv_step)

end
