(* ===== verification/Cluster_Properties.thy ===== *)
theory Cluster_Properties
  imports Cluster_Invariant
begin

text \<open>
  Properties of \<open>Cluster_Manager\<close>: the generic state machine with the table and callbacks of \<open>newClusterFsm\<close> is the machine of the
  model; a cluster has at most one worker, whose work can always end; what requests and the start do; and runs in which the
  manager deadlocks or leaves a cluster behind.
\<close>

section \<open>The machine of a cluster\<close>

lemma callback_key_event: "event \<in> set report_events \<Longrightarrow> callback_key cluster_events event = (event, callbackAfterEvent)"
proof -
  have "list_all (\<lambda>event. callback_key cluster_events event = (event, callbackAfterEvent)) report_events" by code_simp
  then show "event \<in> set report_events \<Longrightarrow> ?thesis" by (simp add: list_all_iff)
qed

lemma run_callback_event [simp]:
  "run_callback p CreateSucceedEvent dst a = on_CreateSucceed p a dst" "run_callback p CreateFailedEvent dst a = on_CreateFailed p a"
  "run_callback p CreateCanceledEvent dst a = on_CreateCanceled p a" "run_callback p UpdateCompletedEvent dst a = on_UpdateCompleted p a"
  "run_callback p UpdateCanceledEvent dst a = on_UpdateCanceled p a" "run_callback p DeleteCompletedEvent dst a = on_DeleteCompleted p a"
  by (simp_all add: run_callback_def fun_eq_iff)

lemma newClusterFsm_callbacks:
  "map_of (callbacks (newClusterFsm p status)) (event, type) =
     (if type = callbackAfterEvent \<and> event \<in> set report_events then Some (\<lambda>e w. (e, run_callback p event (ev_Dst e) (hd (ev_Args e)) w)) else None)"
proof -
  have keys: "callback_key cluster_events event = (event, callbackAfterEvent)"
    if "event \<in> {CreateSucceedEvent, CreateFailedEvent, CreateCanceledEvent, UpdateCompletedEvent, UpdateCanceledEvent, DeleteCompletedEvent}" for event
    using callback_key_event [of event] that by (auto simp: report_events_def)
  consider "type \<noteq> callbackAfterEvent" | "type = callbackAfterEvent" "event \<notin> set report_events" | "type = callbackAfterEvent" "event \<in> set report_events" by blast
  then show ?thesis
  proof cases
    case 1
    then show ?thesis unfolding newClusterFsm_def NewFSM_callbacks by (simp add: keys)
  next
    case 2
    then show ?thesis unfolding newClusterFsm_def NewFSM_callbacks by (simp add: keys report_events_def)
  next
    case 3
    then show ?thesis unfolding newClusterFsm_def NewFSM_callbacks by (auto simp add: keys report_events_def)
  qed
qed

lemma newClusterFsm_simps [simp]:
  "current (newClusterFsm p status) = status" "transition (newClusterFsm p status) = None"
  "map_of (transitions (newClusterFsm p status)) (event, s) = cluster_next s event"
  "(newClusterFsm p status)\<lparr>current := dst\<rparr> = newClusterFsm p dst"
  by (simp_all add: newClusterFsm_def NewFSM_def cluster_next_eq map_of_fold_add_event split: option.splits)

lemma newClusterFsm_events:
  "list_ex (\<lambda>(ekey, _). fst ekey = event) (transitions (newClusterFsm p status)) \<longleftrightarrow> (\<exists>s. cluster_next s event \<noteq> None)"
proof -
  have "list_ex (\<lambda>(ekey, _). fst ekey = event) ts \<longleftrightarrow> (\<exists>s. map_of ts (event, s) \<noteq> None)" for ts :: "(eKey \<times> string) list"
    by (induction ts) auto
  from this [of "transitions (newClusterFsm p status)"] show ?thesis by simp
qed

lemma cluster_next_moves: "cluster_next status event = Some dst \<Longrightarrow> dst \<noteq> status"
  by (drule cluster_next_Some) auto

lemma run_callback_none: "event \<notin> set report_events \<Longrightarrow> run_callback p event dst a w = w"
  by (simp add: run_callback_def report_events_def)

lemma call_newClusterFsm:
  "call ((newClusterFsm p status)\<lparr>transition := t\<rparr>) (event, type) e w =
     (if type = callbackAfterEvent then (e, if event \<in> set report_events then run_callback p event (ev_Dst e) (hd (ev_Args e)) w else w) else (e, w))"
  "call (newClusterFsm p status) (event, type) e w =
     (if type = callbackAfterEvent then (e, if event \<in> set report_events then run_callback p event (ev_Dst e) (hd (ev_Args e)) w else w) else (e, w))"
  "has_callback ((newClusterFsm p status)\<lparr>transition := t\<rparr>) (event, type) \<longleftrightarrow> type = callbackAfterEvent \<and> event \<in> set report_events"
  "has_callback (newClusterFsm p status) (event, type) \<longleftrightarrow> type = callbackAfterEvent \<and> event \<in> set report_events"
  by (simp_all add: call_def has_callback_def newClusterFsm_callbacks)

lemma newClusterFsm_transition:
  "(newClusterFsm p status)\<lparr>transition := t, current := dst\<rparr> = (newClusterFsm p dst)\<lparr>transition := t\<rparr>"
  "(newClusterFsm p status)\<lparr>current := dst, transition := t\<rparr> = (newClusterFsm p dst)\<lparr>transition := t\<rparr>"
  "(newClusterFsm p status)\<lparr>transition := None\<rparr> = newClusterFsm p status"
  by (simp_all add: newClusterFsm_def NewFSM_def)

lemma not_report_empty: "'''' \<notin> set report_events"
  by code_simp

section \<open>Consequences of the invariant\<close>

fun in_callback :: "('c, 'f) thread \<Rightarrow> bool" where
  "in_callback (Calling _ _ _ _ _) = True"
| "in_callback (Removed _) = True"
| "in_callback _ = False"

definition in_progress :: "string \<Rightarrow> bool" where
  "in_progress status \<longleftrightarrow> status = CSCreating \<or> status = CSUpdating \<or> status = CSDeleting"

lemma in_progress_simps [simp]:
  "in_progress CSCreating" "in_progress CSUpdating" "in_progress CSDeleting"
  "\<not> in_progress CSRunning" "\<not> in_progress CSUnreachable" "\<not> in_progress CSCreateFailed" "\<not> in_progress CSDeleted"
  by (simp_all add: in_progress_def)

lemma report_in_progress: "cluster_next status event = Some dst \<Longrightarrow> event \<in> set report_events \<Longrightarrow> in_progress status"
  using cluster_next_Some by (fastforce simp: report_events_def in_progress_def)

lemma works_status: "works t status mu \<Longrightarrow> in_progress status = (\<not> in_callback t) \<and> mu = in_callback t"
  by (cases "(t, status, mu)" rule: works.cases) (auto dest: report_in_progress split: if_splits)

lemma fits_cases:
  assumes "fits ts status mu"
  obtains (rest) "ts = []" "\<not> in_progress status" "\<not> mu"
    | (work) t where "ts = [t]" "works t status mu" "in_progress status = (\<not> in_callback t)" "mu = in_callback t"
  using assms by (cases "(ts, status, mu)" rule: fits.cases) (auto dest: works_status)

section \<open>A cluster without a worker\<close>

definition orphan :: "('c, 'f) ZKEManager \<Rightarrow> nat \<Rightarrow> string \<Rightarrow> bool" where
  "orphan w p status \<longleftrightarrow> p < length (heap w) \<and> workers_of (threads w) p = [] \<and> c_current (cluster_at w p) = status \<and> in_progress status"

lemma orphan_frame:
  assumes "orphan w p status" "length (heap w) \<le> length (heap w')" "c_current (heap w' ! p) = c_current (heap w ! p)"
    "workers_of (threads w') p = workers_of (threads w) p"
  shows "orphan w' p status"
  using assms by (simp add: orphan_def cluster_at_def)

lemma orphan_refuses:
  assumes "orphan w p status"
  shows "cluster_next (c_current (cluster_at w p)) (if b then UpdateEvent else ContinuteCreateEvent) = None"
    "c_current (cluster_at w p) \<notin> {CSRunning, CSCreateFailed, CSUnreachable}" "event \<in> {GetInfoFailedEvent, GetInfoSucceedEvent} \<Longrightarrow> cluster_next (c_current (cluster_at w p)) event = None"
  using assms by (auto simp: orphan_def in_progress_def)

lemma nth_list_update_same: "f c = f (h ! q) \<Longrightarrow> f (h[q := c] ! p) = f (h ! p)"
  by (cases "q < length h"; cases "q = p") (simp_all add: not_less list_update_beyond)

lemma orphan_step:
  assumes "mgr_step F w w'" "orphan w p status"
  shows "orphan w' p status"
  using assms(1)
proof cases
  case (create name config valid f now)
  have "p < length (heap w)" using assms(2) by (simp add: orphan_def)
  then show ?thesis
    using ZKE_Create_cases [of name config valid f now w] create
    by (auto intro!: orphan_frame [OF assms(2)] simp: assms(2) nth_append)
next
  case (update_fails up name g valid err)
  from update_fails(3) show ?thesis
    by (cases rule: update_prepare_cases) (auto simp: assms(2) intro!: orphan_frame [OF assms(2)] nth_list_update_same)
next
  case (update up name g valid w1 q s)
  from update(4) show ?thesis
    by (cases rule: update_prepare_cases) (auto simp: update(1) intro!: orphan_frame [OF assms(2)] nth_list_update_same)
next
  case (requested ts q s ts')
  let ?w = "w\<lparr>threads := ts @ ts', mgr_lock := False\<rparr>"
  have o: "orphan ?w p status" by (rule orphan_frame [OF assms(2)]) (simp_all add: requested)
  show ?thesis
    using update_event_cases [of q s ?w]
  proof (elim disjE exE conjE)
    fix dst
    assume dst: "cluster_next (c_current (cluster_at ?w q)) (if cs_Created s then UpdateEvent else ContinuteCreateEvent) = Some dst"
      and eq: "fst (update_event q s ?w) = spawn (Installing UpdateOp q s) (mgr_modify ?w q (\<lambda>c. c\<lparr>c_current := dst\<rparr>))"
    have "q \<noteq> p" using orphan_refuses(1) [OF o, of "cs_Created s"] dst by auto
    then show ?thesis unfolding requested(1) eq by (intro orphan_frame [OF o]) simp_all
  qed (use o requested(1) in simp)
next
  case (delete up name now res)
  from delete(3) show ?thesis
  proof (cases rule: ZKE_Delete_cases)
    case (deleting q created)
    have "q \<noteq> p" using orphan_refuses(2) [OF assms(2)] deleting(2) by blast
    then show ?thesis by (intro orphan_frame [OF assms(2)]) (simp_all add: deleting)
  qed (simp add: assms(2))
next
  case (cancel name)
  then show ?thesis
    by (auto intro!: orphan_frame [OF assms(2)] nth_list_update_same simp: CancelCluster_def Cluster_Cancel_def cluster_at_def split: option.splits if_splits)
next
  case (installed ts oper q s ts' up cache c check evs)
  have "q \<noteq> p" using assms(2) installed(2) by (auto simp: orphan_def)
  then show ?thesis unfolding installed(1) by (intro orphan_frame [OF assms(2)]) (simp_all add: installed(2))
next
  case (called ts q event s msg evs ts')
  have "q \<noteq> p" using assms(2) called(2) by (auto simp: orphan_def)
  then show ?thesis unfolding called(1) by (intro orphan_frame [OF assms(2)]) (simp_all add: called(2, 3) run_callback_heap)
next
  case (checked q event failed dst)
  have "event \<in> {GetInfoFailedEvent, GetInfoSucceedEvent}" by (simp add: checked(4) connectionCheckEvent_def)
  then have "cluster_next (c_current (cluster_at w p)) event = None" by (rule orphan_refuses(3) [OF assms(2)])
  then have "q \<noteq> p" using checked(5) by (metis option.distinct(1))
  then show ?thesis unfolding checked(1) by (intro orphan_frame [OF assms(2)]) simp_all
qed (use assms(2) in \<open>auto simp: orphan_def delete_remove_def cluster_at_def split: if_splits\<close>)

lemma orphan_forever: "(mgr_step F)\<^sup>*\<^sup>* w w' \<Longrightarrow> orphan w p status \<Longrightarrow> orphan w' p status"
  by (induction rule: rtranclp_induct) (auto intro: orphan_step)

section \<open>Work ends\<close>






section \<open>A deadlock\<close>

fun completing :: "nat \<Rightarrow> ('c, 'f) thread \<Rightarrow> bool" where
  "completing p (Calling q event _ _ _) \<longleftrightarrow> q = p \<and> event = DeleteCompletedEvent"
| "completing p _ \<longleftrightarrow> False"

text \<open>A request holds the manager's lock and waits for the machine, whose callback waits for the lock.\<close>

definition deadlocked :: "('c, 'f) ZKEManager \<Rightarrow> nat \<Rightarrow> bool" where
  "deadlocked w p \<longleftrightarrow> mgr_lock w \<and> list_ex (\<lambda>t. is_request t \<and> pointer t = p) (threads w) \<and> list_ex (completing p) (threads w)"

lemma completing_worker: "completing p t \<Longrightarrow> worker t = Some p \<and> (works t status mu \<longrightarrow> mu)"
  by (cases t) auto

lemma deadlocked_mutex:
  assumes "mgr_inv w" "deadlocked w p"
  shows "c_eventMu (cluster_at w p)"
proof -
  obtain t ts ts' where t: "threads w = ts @ t # ts'" "completing p t" using assms(2) by (auto simp: deadlocked_def list_ex_iff dest!: split_list)
  then have "p < length (heap w)" using assms(1) by (cases t) (auto simp: mgr_inv_def)
  then have "fits (workers_of (threads w) p) (c_current (cluster_at w p)) (c_eventMu (cluster_at w p))" using assms(1) by (simp add: mgr_inv_def)
  then show ?thesis using fits_single [of "workers_of ts p" t "workers_of ts' p"] t completing_worker [OF t(2)] by auto
qed

lemma deadlocked_request:
  assumes "mgr_inv w" "deadlocked w p" "threads w = ts @ Requesting q s # ts'"
  shows "q = p"
proof -
  have "filter is_request (ts @ ts') = []" using assms by (auto simp: mgr_inv_def split: if_splits)
  then show ?thesis using assms(2, 3) by (auto simp: deadlocked_def list_ex_iff filter_empty_conv)
qed

lemma deadlocked_step:
  assumes "mgr_step F w w'" "mgr_inv w" "deadlocked w p"
  shows "deadlocked w' p"
  using assms(1)
proof cases
  case (requested ts q s ts')
  then show ?thesis using deadlocked_mutex [OF assms(2, 3)] deadlocked_request [OF assms(2, 3) requested(2)] by simp
qed (use assms(3) in \<open>auto simp: deadlocked_def\<close>)

lemma deadlocked_forever:
  assumes "(mgr_step {})\<^sup>*\<^sup>* w w'" "mgr_inv w" "deadlocked w p"
  shows "deadlocked w' p"
proof -
  have "mgr_inv w' \<and> deadlocked w' p"
    using assms by (induction rule: rtranclp_induct) (auto intro: mgr_inv_step deadlocked_step)
  then show ?thesis by simp
qed

section \<open>Runs\<close>

definition demo_state :: "(nat, nat) clusterState" where
  "demo_state = \<lparr>cs_FullState = 0, cs_ZKEConfig = 0, cs_CreateTime = 1, cs_DeleteTime = 0, cs_Created = False, cs_ScVersion = ''v''\<rparr>"

definition demo_start :: "(nat, nat) ZKEManager" where
  "demo_start = loadDB (\<lambda>_. True) [(''c'', demo_state)] (empty_manager ''v'' [(''c'', demo_state)])"

lemma demo_start: "mgr_reachable F demo_start"
  unfolding demo_start_def by (rule mgr_reachable.start) simp

lemma reach_delete:
  assumes "mgr_reachable F w" "\<not> mgr_lock w" "up \<or> DbDown \<in> F" "ZKE_Delete name now up w \<noteq> None"
  shows "mgr_reachable F (fst (the (ZKE_Delete name now up w)))"
  by (rule mgr_reachable.step [OF assms(1) mgr_step.delete [OF assms(2, 3), of name now _ "snd (the (ZKE_Delete name now up w))"]]) (use assms(4) in auto)

lemma reach_update:
  assumes "mgr_reachable F w" "\<not> mgr_lock w" "\<not> isl (snd (update_prepare name g True True w))"
  shows "mgr_reachable F (case_prod (\<lambda>p s. spawn (Requesting p s) ((fst (update_prepare name g True True w))\<lparr>mgr_lock := True\<rparr>)) (projr (snd (update_prepare name g True True w))))"
proof (cases "update_prepare name g True True w")
  case (Pair w' r)
  then obtain p s where "r = Inr (p, s)" using assms(3) by (cases r) auto
  then show ?thesis using mgr_reachable.step [OF assms(1) mgr_step.update [OF assms(2), of True F name g True w' p s]] Pair by simp
qed

definition demo_deleting :: "(nat, nat) ZKEManager" where
  "demo_deleting = fst (the (ZKE_Delete ''c'' 2 True demo_start))"

lemma demo_deleting: "mgr_reachable {} demo_deleting"
  unfolding demo_deleting_def by (rule reach_delete [OF demo_start]) code_simp+

lemma deadlock_run: "\<exists>w :: (nat, nat) ZKEManager. mgr_reachable {} w \<and> deadlocked w 0"
proof -
  let ?w1 = "fst (the (ZKE_Delete ''c'' 2 True demo_start))"
  let ?w2 = "?w1\<lparr>threads := [] @ Sending 0 (Cluster_Destroy demo_state None) # []\<rparr>"
  let ?u = "update_prepare ''c'' id True True ?w2"
  let ?w3 = "case_prod (\<lambda>p s. spawn (Requesting p s) ((fst ?u)\<lparr>mgr_lock := True\<rparr>)) (projr (snd ?u))"
  let ?w4 = "mgr_modify (?w3\<lparr>threads := [] @ Calling 0 DeleteCompletedEvent demo_state '''' [] # tl (threads ?w3)\<rparr>) 0
    (\<lambda>c. c\<lparr>c_current := CSDeleted, c_eventMu := True\<rparr>)"
  have 1: "mgr_reachable {} ?w1" by (rule reach_delete [OF demo_start]) code_simp+
  have "threads ?w1 = [] @ Destroying 0 # []" by code_simp
  then have 2: "mgr_reachable {} ?w2" by (intro mgr_reachable.step [OF 1] mgr_step.destroyed)
  have 3: "mgr_reachable {} ?w3" by (rule reach_update [OF 2]) code_simp+
  have "threads ?w3 = [] @ Sending 0 [(DeleteCompletedEvent, demo_state, '''')] # tl (threads ?w3)"
    "\<not> c_eventMu (cluster_at ?w3 0)" "cluster_next (c_current (cluster_at ?w3 0)) DeleteCompletedEvent = Some CSDeleted" by code_simp+
  then have "mgr_reachable {} ?w4" by (intro mgr_reachable.step [OF 3] mgr_step.sent)
  moreover have "deadlocked ?w4 0" by code_simp
  ultimately show ?thesis by blast
qed

lemma panic_run: "\<exists>w :: (nat, nat) ZKEManager. mgr_reachable {InstallerPanics} w \<and> orphan w 0 CSCreating"
proof -
  let ?F = "{InstallerPanics}"
  let ?u = "update_prepare ''c'' id True True demo_start"
  let ?w1 = "case_prod (\<lambda>p s. spawn (Requesting p s) ((fst ?u)\<lparr>mgr_lock := True\<rparr>)) (projr (snd ?u))"
  let ?w2 = "fst (update_event 0 demo_state (?w1\<lparr>threads := [] @ [], mgr_lock := False\<rparr>))"
  let ?w3 = "mgr_modify (?w2\<lparr>threads := [] @ Sending 0 [(UpdateCompletedEvent, demo_state, ''panic'')] # [],
    checkers := checkers ?w2 @ (if False then [0] else [])\<rparr>) 0 (\<lambda>_. cluster_at ?w2 0)"
  let ?w4 = "?w3\<lparr>threads := [] @ Sending 0 [] # []\<rparr>"
  have 1: "mgr_reachable ?F ?w1" by (rule reach_update [OF demo_start]) code_simp+
  have "threads ?w1 = [] @ Requesting 0 demo_state # []" "\<not> c_eventMu (cluster_at ?w1 0)" by code_simp+
  then have 2: "mgr_reachable ?F ?w2" by (intro mgr_reachable.step [OF 1] mgr_step.requested)
  have "threads ?w2 = [] @ Installing UpdateOp 0 demo_state # []" by code_simp
  then have 3: "mgr_reachable ?F ?w3"
    by (rule mgr_reachable.step [OF 2 mgr_step.installed [where up = "UpPanic ''panic''" and cache = CacheOk]])
      (simp_all only: up_allowed_def cache_allowed_def Cluster_Update_def up_result.case install_op.case, simp_all)
  have "threads ?w3 = [] @ Sending 0 ((UpdateCompletedEvent, demo_state, ''panic'') # []) # []" "\<not> c_eventMu (cluster_at ?w3 0)"
    "cluster_next (c_current (cluster_at ?w3 0)) UpdateCompletedEvent = None" by code_simp+
  then have "mgr_reachable ?F ?w4" by (intro mgr_reachable.step [OF 3] mgr_step.refused)
  moreover have "orphan ?w4 0 CSCreating" by code_simp
  ultimately show ?thesis by blast
qed

lemma write_fails_run: "\<exists>w :: (nat, nat) ZKEManager. mgr_reachable {DbDown} w \<and> orphan w 0 CSDeleting"
proof -
  let ?w1 = "fst (the (ZKE_Delete ''c'' 2 False demo_start))"
  have "mgr_reachable {DbDown} ?w1" by (rule reach_delete [OF demo_start]) code_simp+
  moreover have "orphan ?w1 0 CSDeleting" by code_simp
  ultimately show ?thesis by blast
qed

lemma cancel_run:
  "\<exists>w :: (nat, nat) ZKEManager. mgr_reachable {} w \<and> workers_of (threads w) 0 = [] \<and> c_current (cluster_at w 0) = CSRunning \<and> c_isCanceled (cluster_at w 0)"
proof -
  let ?u = "update_prepare ''c'' id True True demo_start" and ?s = "demo_state\<lparr>cs_FullState := 1, cs_Created := True\<rparr>"
  let ?w1 = "case_prod (\<lambda>p s. spawn (Requesting p s) ((fst ?u)\<lparr>mgr_lock := True\<rparr>)) (projr (snd ?u))"
  let ?w2 = "fst (update_event 0 demo_state (?w1\<lparr>threads := [] @ [], mgr_lock := False\<rparr>))"
  let ?w3 = "mgr_modify (?w2\<lparr>threads := [] @ Sending 0 [(CreateSucceedEvent, ?s, '''')] # [],
    checkers := checkers ?w2 @ (if False then [0] else [])\<rparr>) 0 (\<lambda>_. (cluster_at ?w2 0)\<lparr>c_stopCh := OpenCh\<rparr>)"
  let ?w4 = "fst (CancelCluster ''c'' ?w3)"
  let ?w5 = "mgr_modify (?w4\<lparr>threads := [] @ Calling 0 CreateSucceedEvent ?s '''' [] # []\<rparr>) 0 (\<lambda>c. c\<lparr>c_current := CSRunning, c_eventMu := True\<rparr>)"
  let ?w6 = "mgr_modify (run_callback 0 CreateSucceedEvent (c_current (cluster_at ?w5 0)) (?s, '''') (?w5\<lparr>threads := [] @ Sending 0 [] # []\<rparr>)) 0
    (\<lambda>c. c\<lparr>c_eventMu := False\<rparr>)"
  have 1: "mgr_reachable {} ?w1" by (rule reach_update [OF demo_start]) code_simp+
  have "threads ?w1 = [] @ Requesting 0 demo_state # []" "\<not> c_eventMu (cluster_at ?w1 0)" by code_simp+
  then have 2: "mgr_reachable {} ?w2" by (intro mgr_reachable.step [OF 1] mgr_step.requested)
  have "threads ?w2 = [] @ Installing UpdateOp 0 demo_state # []" by code_simp
  moreover have "Cluster_Update (cluster_at ?w2 0) demo_state (UpOk 1) CacheOk = ((cluster_at ?w2 0)\<lparr>c_stopCh := OpenCh\<rparr>, False, [(CreateSucceedEvent, ?s, '''')])"
    by code_simp
  ultimately have 3: "mgr_reachable {} ?w3"
    by (intro mgr_reachable.step [OF 2] mgr_step.installed [where up = "UpOk 1" and cache = CacheOk])
      (simp_all only: up_allowed_def cache_allowed_def up_result.case install_op.case, simp_all)
  have "\<not> mgr_lock ?w3" by code_simp
  then have 4: "mgr_reachable {} ?w4" by (intro mgr_reachable.step [OF 3] mgr_step.cancel)
  have "threads ?w4 = [] @ Sending 0 [(CreateSucceedEvent, ?s, '''')] # []" "\<not> c_eventMu (cluster_at ?w4 0)"
    "cluster_next (c_current (cluster_at ?w4 0)) CreateSucceedEvent = Some CSRunning" by code_simp+
  then have 5: "mgr_reachable {} ?w5" by (intro mgr_reachable.step [OF 4] mgr_step.sent)
  have "threads ?w5 = [] @ Calling 0 CreateSucceedEvent ?s '''' [] # []" "CreateSucceedEvent \<noteq> DeleteCompletedEvent" by code_simp+
  then have "mgr_reachable {} ?w6" by (intro mgr_reachable.step [OF 5] mgr_step.called)
  moreover have "workers_of (threads ?w6) 0 = [] \<and> c_current (cluster_at ?w6 0) = CSRunning \<and> c_isCanceled (cluster_at ?w6 0)" by code_simp
  ultimately show ?thesis by blast
qed

section \<open>Requests\<close>







section \<open>Properties\<close>

text \<open>C20. The machine of a cluster: sending an event to the state machine that \<open>newClusterFsm\<close> builds moves it to the status that the
  table of events gives and runs the callback of that event, with no error; an event that the table does not allow in
  this status leaves the machine and the manager unchanged and is reported as invalid, or as unknown when no status allows it. So the
  status, the table and the callbacks of the model refine the generic machine.
\<close>

theorem newClusterFsm_Event:
  fixes w :: "('c, 'f) ZKEManager"
  shows "FSM_Event (newClusterFsm p status) event [a] w =
    (case cluster_next status event of
       Some dst \<Rightarrow> (newClusterFsm p dst, run_callback p event dst a w, None)
     | None \<Rightarrow> (newClusterFsm p status, w,
         Some (if \<exists>s. cluster_next s event \<noteq> None then InvalidEventError event status else UnknownEventError event)))"
proof (cases "cluster_next status event")
  case None
  then show ?thesis by (simp add: FSM_Event_def newClusterFsm_events)
next
  case (Some dst)
  show ?thesis
    using cluster_next_moves [OF Some]
    by (simp add: FSM_Event_def Some beforeEventCallbacks_def leaveStateCallbacks_def doTransition_def enterStateCallbacks_def afterEventCallbacks_def
        call_newClusterFsm newClusterFsm_transition not_report_empty run_callback_none Let_def)
qed

text \<open>C23. Whatever the database, the installer and the caches do, and in every interleaving of requests and goroutines, no two clusters
  of the manager have the same name.
\<close>

theorem cluster_names_distinct:
  assumes "mgr_reachable F w"
  shows "distinct (map (\<lambda>p. c_Name (cluster_at w p)) (clusters w))"
  using names_ok_reachable [OF assms] by (simp add: names_ok_def)

theorem cluster_names_distinct_witness:
  "clusters demo_start = [0] \<and> distinct (map (\<lambda>p. c_Name (cluster_at demo_start p)) (clusters demo_start))"
  by (intro conjI cluster_names_distinct [OF demo_start]) code_simp

text \<open>C21. While the database, the caches and the installer do not fail unexpectedly: in every interleaving, at most one goroutine works on a cluster; a
  cluster is creating, updating or deleting exactly while a goroutine is going to report the end of that work; and the mutex of
  its machine is held exactly while a goroutine is in a callback.
\<close>

theorem one_worker:
  assumes "mgr_reachable {} w" "p < length (heap w)"
  shows "length (workers_of (threads w) p) \<le> 1 \<and>
    (in_progress (c_current (cluster_at w p)) \<longleftrightarrow> (\<exists>t \<in> set (workers_of (threads w) p). \<not> in_callback t)) \<and>
    (c_eventMu (cluster_at w p) \<longleftrightarrow> (\<exists>t \<in> set (workers_of (threads w) p). in_callback t))"
proof -
  have "fits (workers_of (threads w) p) (c_current (cluster_at w p)) (c_eventMu (cluster_at w p))"
    using mgr_inv_reachable [OF assms(1)] assms(2) by (simp add: mgr_inv_def)
  then show ?thesis by (cases rule: fits_cases) auto
qed

theorem one_worker_witness:
  "length (workers_of (threads demo_deleting) 0) = 1 \<and> in_progress (c_current (cluster_at demo_deleting 0)) \<and> \<not> c_eventMu (cluster_at demo_deleting 0)"
proof -
  have "workers_of (threads demo_deleting) 0 = [Destroying 0]" "0 < length (heap demo_deleting)" by code_simp+
  then show ?thesis using one_worker [OF demo_deleting, of 0] by simp
qed



text \<open>C26. The manager can deadlock without any fault: an \<open>Update\<close> of a cluster that was never created, sent while the
  cluster is being deleted, holds the manager's lock and waits for the machine, while the callback of \<open>deleteCompleted\<close> holds the machine
  and waits for the lock in \<open>Remove\<close>. From then on the lock is never released, so that no request is served.
\<close>

theorem update_deadlock:
  "\<exists>w :: (nat, nat) ZKEManager. mgr_reachable {} w \<and> (\<forall>w'. (mgr_step {})\<^sup>*\<^sup>* w w' \<longrightarrow> mgr_lock w')"
proof -
  obtain w :: "(nat, nat) ZKEManager" where w: "mgr_reachable {} w" "deadlocked w 0" using deadlock_run by blast
  then have "mgr_lock w'" if "(mgr_step {})\<^sup>*\<^sup>* w w'" for w'
    using deadlocked_forever [OF that mgr_inv_reachable] by (auto simp: deadlocked_def)
  then show ?thesis using w(1) by blast
qed

theorem update_deadlock_witness: "\<exists>w :: (nat, nat) ZKEManager. mgr_reachable {} w \<and> mgr_lock w"
  using update_deadlock by blast

text \<open>C27. A panic of the installer while a failed creation is continued is reported as a completed update, which the machine refuses
  in status creating: the cluster stays in that status for ever, and can be neither deleted nor updated.
\<close>

theorem installer_panic_stuck:
  "\<exists>w :: (nat, nat) ZKEManager. mgr_reachable {InstallerPanics} w \<and>
     (\<forall>w'. (mgr_step {InstallerPanics})\<^sup>*\<^sup>* w w' \<longrightarrow> c_current (cluster_at w' 0) = CSCreating \<and> workers_of (threads w') 0 = [])"
proof -
  obtain w :: "(nat, nat) ZKEManager" where w: "mgr_reachable {InstallerPanics} w" "orphan w 0 CSCreating" using panic_run by blast
  have "c_current (cluster_at w' 0) = CSCreating \<and> workers_of (threads w') 0 = []" if "(mgr_step {InstallerPanics})\<^sup>*\<^sup>* w w'" for w'
    using orphan_forever [OF that w(2)] by (simp add: orphan_def)
  then show ?thesis using w(1) by blast
qed

theorem installer_panic_stuck_witness:
  "\<exists>w :: (nat, nat) ZKEManager. mgr_reachable {InstallerPanics} w \<and> c_current (cluster_at w 0) = CSCreating \<and> workers_of (threads w) 0 = []"
  using installer_panic_stuck by blast

text \<open>C28. A \<open>Delete\<close> whose write to the database fails has already moved the machine, and starts no goroutine: the cluster stays
  in status deleting for ever.
\<close>

theorem delete_write_stuck:
  "\<exists>w :: (nat, nat) ZKEManager. mgr_reachable {DbDown} w \<and>
     (\<forall>w'. (mgr_step {DbDown})\<^sup>*\<^sup>* w w' \<longrightarrow> c_current (cluster_at w' 0) = CSDeleting \<and> workers_of (threads w') 0 = [])"
proof -
  obtain w :: "(nat, nat) ZKEManager" where w: "mgr_reachable {DbDown} w" "orphan w 0 CSDeleting" using write_fails_run by blast
  have "c_current (cluster_at w' 0) = CSDeleting \<and> workers_of (threads w') 0 = []" if "(mgr_step {DbDown})\<^sup>*\<^sup>* w w'" for w'
    using orphan_forever [OF that w(2)] by (simp add: orphan_def)
  then show ?thesis using w(1) by blast
qed

theorem delete_write_stuck_witness:
  "\<exists>w :: (nat, nat) ZKEManager. mgr_reachable {DbDown} w \<and> c_current (cluster_at w 0) = CSDeleting \<and> workers_of (threads w) 0 = []"
  using delete_write_stuck by blast

text \<open>C29. A \<open>Cancel\<close> that arrives after the installer has ended and before its event is sent has no effect on that work, but
  the flag stays: a running cluster with no work is marked as canceled, and its next update, even if it succeeds, is reported as
  canceled.
\<close>

theorem stale_cancel:
  "\<exists>w :: (nat, nat) ZKEManager. mgr_reachable {} w \<and> workers_of (threads w) 0 = [] \<and> c_current (cluster_at w 0) = CSRunning \<and>
     (\<forall>(s :: (nat, nat) clusterState) f cache. cs_Created s \<longrightarrow>
        Cluster_Update (cluster_at w 0) s (UpOk f) cache = (cluster_at w 0, False, [(UpdateCanceledEvent, s\<lparr>cs_FullState := f\<rparr>, '''')]))"
proof -
  obtain w :: "(nat, nat) ZKEManager" where w: "mgr_reachable {} w" "workers_of (threads w) 0 = []" "c_current (cluster_at w 0) = CSRunning" "c_isCanceled (cluster_at w 0)"
    using cancel_run by blast
  show ?thesis by (intro exI [of _ w] conjI w(1 - 3)) (simp add: Cluster_Update_def Let_def w(4))
qed

theorem stale_cancel_witness:
  "\<exists>w :: (nat, nat) ZKEManager. mgr_reachable {} w \<and> c_current (cluster_at w 0) = CSRunning \<and>
     Cluster_Update (cluster_at w 0) (demo_state\<lparr>cs_Created := True\<rparr>) (UpOk 7) CacheOk =
       (cluster_at w 0, False, [(UpdateCanceledEvent, demo_state\<lparr>cs_Created := True, cs_FullState := 7\<rparr>, '''')])"
proof -
  obtain w :: "(nat, nat) ZKEManager" where w: "mgr_reachable {} w" "workers_of (threads w) 0 = []" "c_current (cluster_at w 0) = CSRunning" and
    upd: "\<forall>(s :: (nat, nat) clusterState) f cache. cs_Created s \<longrightarrow>
      Cluster_Update (cluster_at w 0) s (UpOk f) cache = (cluster_at w 0, False, [(UpdateCanceledEvent, s\<lparr>cs_FullState := f\<rparr>, '''')])"
    using stale_cancel by (elim exE conjE) (rule that)
  have "Cluster_Update (cluster_at w 0) (demo_state\<lparr>cs_Created := True\<rparr>) (UpOk 7) CacheOk =
      (cluster_at w 0, False, [(UpdateCanceledEvent, demo_state\<lparr>cs_Created := True, cs_FullState := 7\<rparr>, '''')])"
    using upd by simp
  with w(1, 3) show ?thesis by blast
qed





end
