(* ===== verification/Spec2Isabelle.thy ===== *)
theory Spec2Isabelle
  imports Name_Text Message_Codec Fsm Cluster_Properties
begin

text \<open>
  A model of the DNS library of GaoCloud (\<open>src/g53\<close>).
\<close>

section \<open>Properties across components\<close>





end
